(* ===== verification/Prelude.thy ===== *)
theory Prelude
  imports Main "HOL-Library.Sublist"
begin

text \<open>
  What every component shares: the return codes of \<^verbatim>\<open>json_rpc_common.h\<close>, the faults
  a C execution can run into, the result type \<open>'a cres\<close> (a fault or a value) with its
  sequencing operator \<open>ebind\<close>, the named collections the component proofs draw on, and
  generic lemmas on lists and results.
\<close>

named_theorems result_simps \<open>sequencing of C results\<close>
named_theorems cstring_simps \<open>C strings, buffers and comparisons\<close>
named_theorems list_ops \<open>linked-list operations as list functions\<close>
named_theorems config_defs \<open>names and sizes the source has as macros\<close>

section \<open>Return codes and faults\<close>

definition RETURN_OK :: int where [config_defs]: "RETURN_OK = 0"
definition RETURN_ERR :: int where [config_defs]: "RETURN_ERR = -1"

lemma return_codes_distinct [simp]:
  "RETURN_OK \<noteq> RETURN_ERR" "RETURN_ERR \<noteq> RETURN_OK" "RETURN_ERR < 0" "\<not> RETURN_OK < 0"
  "RETURN_OK \<ge> 0" "\<not> RETURN_ERR \<ge> 0"
  by (simp_all add: RETURN_OK_def RETURN_ERR_def)

text \<open>
  A fault is an execution the C standard or the called library gives no meaning to (or one
  that never returns): the model stops there and says which kind it was.
\<close>

datatype fault =
    Null_Deref          \<comment> \<open>a NULL pointer is read, for instance as a C string\<close>
  | Buffer_Overflow     \<comment> \<open>a write past the end of a fixed-size array\<close>
  | Unterminated        \<comment> \<open>a fixed-size array without NUL is read as a C string\<close>
  | Signed_Overflow     \<comment> \<open>signed integer arithmetic leaves the type's range\<close>
  | Json_Assert         \<comment> \<open>a json-c function is called on an object of the wrong type\<close>
  | Double_Free         \<comment> \<open>an object whose last reference was released is released again\<close>
  | Use_After_Free      \<comment> \<open>an object that was freed is used\<close>
  | Uncaught_Exception  \<comment> \<open>a C++ exception leaves an \<open>extern "C"\<close> function\<close>
  | Uninitialised       \<comment> \<open>a variable that was never set is used as a pointer\<close>
  | Assert_Failed       \<comment> \<open>a failed \<open>assert\<close> ends the process\<close>
  | Destroyed_Lock      \<comment> \<open>a mutex is used after its destruction, or destroyed while it is held\<close>
  | Deadlock            \<comment> \<open>a mutex that is never released again is taken\<close>
  | No_Return           \<comment> \<open>a loop that does not end\<close>

type_synonym 'a cres = "fault + 'a"

text \<open>How far the \<^verbatim>\<open>main\<close> of a program has come: it has exited with a code, an assertion has
  aborted it, or it sleeps while its threads work.\<close>

datatype 'a process = Exited int | Aborted | Running 'a

section \<open>Sequencing\<close>

definition ebind :: "'a cres \<Rightarrow> ('a \<Rightarrow> 'b cres) \<Rightarrow> 'b cres" where
  "ebind m k = (case m of Inl f \<Rightarrow> Inl f | Inr x \<Rightarrow> k x)"

lemma ebind_Inl [simp, result_simps]: "ebind (Inl f) k = Inl f"
  by (simp add: ebind_def)

lemma ebind_Inr [simp, result_simps]: "ebind (Inr x) k = k x"
  by (simp add: ebind_def)

lemma ebind_eq_Inr_iff [result_simps]: "ebind m k = Inr y \<longleftrightarrow> (\<exists>x. m = Inr x \<and> k x = Inr y)"
  by (cases m) auto

lemma ebind_eq_Inl_iff:
  "ebind m k = Inl f \<longleftrightarrow> m = Inl f \<or> (\<exists>x. m = Inr x \<and> k x = Inl f)"
  by (cases m) auto

lemma ebindE:
  assumes "ebind m k = Inr y" obtains x where "m = Inr x" "k x = Inr y"
  using assms by (cases m) auto

lemma ebind_pairE:
  assumes "ebind m (\<lambda>(a, b). k a b) = Inr y" obtains a b where "m = Inr (a, b)" "k a b = Inr y"
  using assms by (cases m) auto

lemma ebind_tripleE:
  assumes "ebind m (\<lambda>(a, b, c). k a b c) = Inr y" obtains a b c where "m = Inr (a, b, c)" "k a b c = Inr y"
  using assms by (cases m) auto

lemma ebind_cong [fundef_cong]:
  "m = m' \<Longrightarrow> (\<And>x. m' = Inr x \<Longrightarrow> k x = k' x) \<Longrightarrow> ebind m k = ebind m' k'"
  by (cases m') auto

lemma ebind_assoc: "ebind (ebind m k) h = ebind m (\<lambda>x. ebind (k x) h)"
  by (cases m) auto

section \<open>Lists\<close>

lemma take_eq_take_prefix:
  "take (length p) xs = p \<longleftrightarrow> prefix p xs"
proof
  assume "take (length p) xs = p"
  then show "prefix p xs" by (metis take_is_prefix)
qed (auto simp: prefix_def)

lemma takeWhile_not_mem: "c \<notin> set (takeWhile (\<lambda>x. x \<noteq> c) xs)"
  by (induction xs) auto

lemma find_append: "find P (xs @ ys) = (case find P xs of None \<Rightarrow> find P ys | Some x \<Rightarrow> Some x)"
  by (induction xs) auto

end
