(* ===== verification/C_Library.thy ===== *)
theory C_Library
  imports Prelude
begin

text \<open>
  The part of the C language and its standard library the sources use.

  A C string is a \<^typ>\<open>string\<close> without NUL characters; \<open>cstr\<close> cuts a byte sequence at
  its first NUL. A fixed-size \<^verbatim>\<open>char\<close> array is represented by the bytes in front of
  its first NUL, or by all its bytes when it holds none: an array of capacity \<open>n\<close> is
  terminated exactly when its representation is shorter than \<open>n\<close>. Bytes behind the first
  NUL are never observed by the code.
\<close>

section \<open>Strings and buffers\<close>

definition cstr :: "string \<Rightarrow> string" where
  "cstr s = takeWhile (\<lambda>c. c \<noteq> CHR 0x00) s"

definition nul_free :: "string \<Rightarrow> bool" where
  "nul_free s \<longleftrightarrow> CHR 0x00 \<notin> set s"

text \<open>\<^verbatim>\<open>strncpy (dst, src, n)\<close> into an array of capacity \<open>n\<close>: at most \<open>n\<close>
  bytes, padded with NULs.\<close>

definition strncpy :: "nat \<Rightarrow> string \<Rightarrow> string" where
  "strncpy n src = take n (cstr src)"

text \<open>\<^verbatim>\<open>strcpy (dst, src)\<close> into an array of capacity \<open>n\<close>.\<close>

definition strcpy :: "nat \<Rightarrow> string \<Rightarrow> string cres" where
  "strcpy n src = (if length (cstr src) < n then Inr (cstr src) else Inl Buffer_Overflow)"

text \<open>Reading an array of capacity \<open>n\<close> as a C string.\<close>

definition read_buf :: "nat \<Rightarrow> string \<Rightarrow> string cres" where
  "read_buf n b = (if length b < n then Inr b else Inl Unterminated)"

text \<open>\<^verbatim>\<open>strcmp (a, b) == 0\<close> and \<^verbatim>\<open>strncmp (a, b, n) == 0\<close> on C strings.\<close>

definition strcmp_eq :: "string \<Rightarrow> string \<Rightarrow> bool" where
  "strcmp_eq a b \<longleftrightarrow> a = b"

definition strncmp_eq :: "string \<Rightarrow> string \<Rightarrow> nat \<Rightarrow> bool" where
  "strncmp_eq a b n \<longleftrightarrow> take n a = take n b"

lemma cstr_nul_free [simp, cstring_simps]: "nul_free (cstr s)"
  by (simp add: cstr_def nul_free_def takeWhile_not_mem)

lemma cstr_id [simp, cstring_simps]: "nul_free s \<Longrightarrow> cstr s = s"
  by (induction s) (auto simp: cstr_def nul_free_def)

lemma cstr_idem [simp]: "cstr (cstr s) = cstr s"
  by simp

lemma nul_free_take [simp]: "nul_free s \<Longrightarrow> nul_free (take n s)"
  by (auto simp: nul_free_def dest: in_set_takeD)

lemma nul_free_Nil [simp]: "nul_free []"
  by (simp add: nul_free_def)

lemma nul_free_Cons [simp]: "nul_free (c # s) \<longleftrightarrow> c \<noteq> CHR 0x00 \<and> nul_free s"
  by (auto simp: nul_free_def)

lemma nul_free_append [simp]: "nul_free (s @ t) \<longleftrightarrow> nul_free s \<and> nul_free t"
  by (auto simp: nul_free_def)

lemma nul_free_strncpy [simp]: "nul_free (strncpy n s)"
  by (simp add: strncpy_def)

lemma strncpy_length: "length (strncpy n s) \<le> n"
  by (simp add: strncpy_def)

lemma strncpy_fits [simp, cstring_simps]:
  "nul_free s \<Longrightarrow> length s \<le> n \<Longrightarrow> strncpy n s = s"
  by (simp add: strncpy_def)

lemma strncpy_idem [simp]: "strncpy n (strncpy n s) = strncpy n s"
  by (simp add: strncpy_def)

lemma read_strncpy:
  "read_buf n (strncpy n s) = (if length (cstr s) < n then Inr (cstr s) else Inl Unterminated)"
  by (auto simp: read_buf_def strncpy_def)

lemma read_buf_fits [simp, cstring_simps]: "length b < n \<Longrightarrow> read_buf n b = Inr b"
  by (simp add: read_buf_def)

lemma read_buf_Inr_iff [simp]: "read_buf n b = Inr x \<longleftrightarrow> x = b \<and> length b < n"
  by (auto simp: read_buf_def)

lemma strcpy_fits [simp, cstring_simps]:
  "nul_free s \<Longrightarrow> length s < n \<Longrightarrow> strcpy n s = Inr s"
  by (simp add: strcpy_def)

lemma strcpy_Inr_iff: "strcpy n s = Inr x \<longleftrightarrow> x = cstr s \<and> length x < n"
  by (auto simp: strcpy_def)

text \<open>The idiom \<^verbatim>\<open>strncmp (a, lit, strlen (lit)) == 0\<close> is a prefix test.\<close>

lemma strncmp_eq_prefix [cstring_simps]: "strncmp_eq a p (length p) \<longleftrightarrow> prefix p a"
  by (simp add: strncmp_eq_def take_eq_take_prefix)

section \<open>Machine integers\<close>

definition INT_MAX :: int where [config_defs]: "INT_MAX = 2147483647"
definition INT_MIN :: int where [config_defs]: "INT_MIN = -2147483648"
definition LONG_MAX :: int where [config_defs]: "LONG_MAX = 9223372036854775807"
definition LONG_MIN :: int where [config_defs]: "LONG_MIN = -9223372036854775808"

text \<open>Conversion to \<^verbatim>\<open>int\<close> and to \<^verbatim>\<open>unsigned int\<close>.\<close>

definition to_int :: "int \<Rightarrow> int" where
  "to_int x = (x + 2147483648) mod 4294967296 - 2147483648"

definition to_uint :: "int \<Rightarrow> int" where
  "to_uint x = x mod 4294967296"

definition int_range :: "int \<Rightarrow> bool" where
  "int_range x \<longleftrightarrow> INT_MIN \<le> x \<and> x \<le> INT_MAX"

definition long_range :: "int \<Rightarrow> bool" where
  "long_range x \<longleftrightarrow> LONG_MIN \<le> x \<and> x \<le> LONG_MAX"

lemma to_int_range [simp]: "int_range (to_int x)"
proof -
  have "0 \<le> (x + 2147483648) mod 4294967296" "(x + 2147483648) mod 4294967296 < 4294967296"
    by simp_all
  then show ?thesis
    unfolding int_range_def to_int_def INT_MAX_def INT_MIN_def by linarith
qed

lemma to_int_id [simp]: "int_range x \<Longrightarrow> to_int x = x"
  by (simp add: int_range_def to_int_def config_defs)

lemma to_int_cong: "to_int x = to_int y \<longleftrightarrow> x mod 4294967296 = y mod 4294967296"
proof -
  have "to_int x = to_int y \<longleftrightarrow>
      (x + 2147483648) mod 4294967296 = (y + 2147483648) mod (4294967296::int)"
    by (simp add: to_int_def)
  also have "\<dots> \<longleftrightarrow> x mod 4294967296 = y mod 4294967296"
    by (simp add: mod_eq_dvd_iff)
  finally show ?thesis .
qed

lemma to_int_to_uint [simp]: "to_int (to_uint x) = to_int x"
  by (simp add: to_int_cong to_uint_def)

end
