(* ===== verification/C_Numbers.thy ===== *)
theory C_Numbers
  imports C_Library
begin

text \<open>
  Numbers as text: the conversions of \<^verbatim>\<open>snprintf\<close>/\<^verbatim>\<open>sprintf\<close> the code uses
  (\<^verbatim>\<open>%d\<close>, \<^verbatim>\<open>%ld\<close> and \<^verbatim>\<open>%8.8d\<close>), and \<^verbatim>\<open>strtol\<close>,
  \<^verbatim>\<open>atoi\<close>, \<^verbatim>\<open>atol\<close> as the C library defines them: leading white space, a
  sign, an optional \<^verbatim>\<open>0x\<close> in base 16, the longest run of digits, saturation at the
  limits of \<^verbatim>\<open>long\<close>; \<^verbatim>\<open>atoi\<close> is \<^verbatim>\<open>(int) strtol (s, NULL, 10)\<close>.
\<close>

section \<open>Printing\<close>

definition digit_char :: "nat \<Rightarrow> char" where
  "digit_char d = char_of (48 + d)"

fun show_nat :: "nat \<Rightarrow> string" where
  "show_nat n = (if n < 10 then [digit_char n] else show_nat (n div 10) @ [digit_char (n mod 10)])"

declare show_nat.simps [simp del]

definition show_int :: "int \<Rightarrow> string" where
  "show_int i = (if i < 0 then CHR ''-'' # show_nat (nat (- i)) else show_nat (nat i))"

text \<open>\<^verbatim>\<open>%8.8d\<close>: at least eight digits, padded with zeros.\<close>

definition pad8 :: "string \<Rightarrow> string" where
  "pad8 s = replicate (8 - length s) (CHR ''0'') @ s"

definition show_8_8d :: "int \<Rightarrow> string" where
  "show_8_8d i = (if i < 0 then CHR ''-'' # pad8 (show_nat (nat (- i))) else pad8 (show_nat (nat i)))"

section \<open>Reading\<close>

definition digit_val :: "char \<Rightarrow> nat option" where
  "digit_val c = (let n = of_char c in
     if 48 \<le> n \<and> n \<le> 57 then Some (n - 48)
     else if 65 \<le> n \<and> n \<le> 90 then Some (n - 55)
     else if 97 \<le> n \<and> n \<le> 122 then Some (n - 87)
     else None)"

definition is_digit :: "nat \<Rightarrow> char \<Rightarrow> bool" where
  "is_digit base c = (case digit_val c of None \<Rightarrow> False | Some d \<Rightarrow> d < base)"

fun digits_val :: "nat \<Rightarrow> int \<Rightarrow> string \<Rightarrow> int" where
  "digits_val base acc [] = acc"
| "digits_val base acc (c # s) =
     (case digit_val c of
        None \<Rightarrow> acc
      | Some d \<Rightarrow> if d < base then digits_val base (acc * int base + int d) s else acc)"

definition is_space :: "char \<Rightarrow> bool" where
  "is_space c \<longleftrightarrow> c \<in> {CHR '' '', CHR 0x09, CHR 0x0A, CHR 0x0B, CHR 0x0C, CHR 0x0D}"

definition clamp_long :: "int \<Rightarrow> int" where
  "clamp_long x = (if x > LONG_MAX then LONG_MAX else if x < LONG_MIN then LONG_MIN else x)"

text \<open>The optional \<^verbatim>\<open>0x\<close> of base 16 counts only in front of a hexadecimal digit.\<close>

fun skip_0x :: "nat \<Rightarrow> string \<Rightarrow> string" where
  "skip_0x base (z # x # c # s) =
     (if base = 16 \<and> z = CHR ''0'' \<and> x \<in> {CHR ''x'', CHR ''X''} \<and> is_digit 16 c
      then c # s else z # x # c # s)"
| "skip_0x base s = s"

definition strtol :: "string \<Rightarrow> nat \<Rightarrow> int" where
  "strtol s base =
     (let t = dropWhile is_space (cstr s) in
      clamp_long
        (case t of
           [] \<Rightarrow> 0
         | c # u \<Rightarrow>
             if c = CHR ''-'' then - digits_val base 0 (skip_0x base u)
             else if c = CHR ''+'' then digits_val base 0 (skip_0x base u)
             else digits_val base 0 (skip_0x base t)))"

definition atoi :: "string \<Rightarrow> int" where
  "atoi s = to_int (strtol s 10)"

definition atol :: "string \<Rightarrow> int" where
  "atol s = strtol s 10"

section \<open>Digits\<close>

lemma of_char_digit_char: "d < 10 \<Longrightarrow> of_char (digit_char d) = 48 + d"
  by (simp add: digit_char_def)

lemma digit_val_digit_char [simp]: "d < 10 \<Longrightarrow> digit_val (digit_char d) = Some d"
  by (simp add: digit_val_def of_char_digit_char)

lemma digit_char_inject: "d < 10 \<Longrightarrow> e < 10 \<Longrightarrow> digit_char d = digit_char e \<Longrightarrow> d = e"
  by (metis digit_val_digit_char option.inject)

lemma digit_char_eqI: "of_char c = (48 + d :: nat) \<Longrightarrow> d < 10 \<Longrightarrow> digit_char d = c"
proof -
  assume "of_char c = 48 + d" "d < 10"
  then have "of_char (digit_char d) = (of_char c :: nat)" by (simp add: of_char_digit_char)
  then show ?thesis by (simp only: of_char_eq_iff)
qed

lemma digit_char_eqs [simp]:
  "digit_char 0 = CHR ''0''" "digit_char 1 = CHR ''1''" "digit_char (Suc 0) = CHR ''1''"
  "digit_char 2 = CHR ''2''" "digit_char 3 = CHR ''3''" "digit_char 4 = CHR ''4''"
  "digit_char 5 = CHR ''5''" "digit_char 6 = CHR ''6''" "digit_char 7 = CHR ''7''"
  "digit_char 8 = CHR ''8''" "digit_char 9 = CHR ''9''"
  by (rule digit_char_eqI; simp)+

lemma show_nat_numeral [simp]:
  "show_nat 0 = ''0''" "show_nat (Suc 0) = ''1''"
  "show_nat (numeral k) = (if numeral k < (10::nat) then [digit_char (numeral k)]
     else show_nat (numeral k div 10) @ [digit_char (numeral k mod 10)])"
  by (subst show_nat.simps; simp)+

lemma digit_val_0 [simp]: "digit_val (CHR ''0'') = Some 0"
  by (simp add: digit_val_def)

definition decimal :: "string \<Rightarrow> bool" where
  "decimal s \<longleftrightarrow> (\<forall>c \<in> set s. \<exists>d < 10. c = digit_char d)"

lemma decimal_append [simp]: "decimal (s @ t) \<longleftrightarrow> decimal s \<and> decimal t"
  by (auto simp: decimal_def)

lemma decimal_Cons [simp]: "decimal (c # s) \<longleftrightarrow> (\<exists>d < 10. c = digit_char d) \<and> decimal s"
  by (auto simp: decimal_def)

lemma decimal_Nil [simp]: "decimal []"
  by (simp add: decimal_def)

lemma decimal_replicate_0 [simp]: "decimal (replicate n (CHR ''0''))"
  unfolding decimal_def by (auto intro!: exI [of _ "0::nat"])

lemma decimal_show_nat [simp]: "decimal (show_nat n)"
proof (induction n rule: show_nat.induct)
  case (1 n)
  have "\<exists>d < 10. digit_char (n mod 10) = digit_char d"
    by (rule exI [of _ "n mod 10"]) simp
  with 1 show ?case
    by (subst show_nat.simps) auto
qed

lemma show_nat_nonempty [simp]: "show_nat n \<noteq> []"
  by (subst show_nat.simps) simp

lemma decimal_pad8 [simp]: "decimal s \<Longrightarrow> decimal (pad8 s)"
  by (simp add: pad8_def)

lemma digit_char_code:
  assumes "d < 10"
  shows "of_char (digit_char d) \<in> {48..57::nat}"
  using assms by (simp add: of_char_digit_char)

lemma digit_char_neq:
  assumes "d < 10" and "of_char c \<notin> {48..57::nat}"
  shows "digit_char d \<noteq> c"
  using digit_char_code [OF assms(1)] assms(2) by auto

lemma decimal_nul_free [simp]: "decimal s \<Longrightarrow> nul_free s"
proof (induction s)
  case (Cons c s)
  then obtain d where "d < 10" "c = digit_char d" by auto
  then have "c \<noteq> CHR 0x00" using digit_char_neq [of d "CHR 0x00"] by simp
  with Cons show ?case by simp
qed simp

lemma digit_not_space: "d < 10 \<Longrightarrow> \<not> is_space (digit_char d)"
  using digit_char_neq [of d] by (auto simp: is_space_def)

lemma digit_not_sign:
  assumes "d < 10"
  shows "digit_char d \<noteq> CHR ''-''" "digit_char d \<noteq> CHR ''+''"
    "digit_char d \<noteq> CHR ''x''" "digit_char d \<noteq> CHR ''X''"
  using assms digit_char_neq [of d] by simp_all

lemma dropWhile_space_decimal [simp]: "decimal s \<Longrightarrow> dropWhile is_space s = s"
  by (cases s) (auto simp: digit_not_space)

lemma skip_0x_decimal [simp]: "decimal s \<Longrightarrow> skip_0x base s = s"
  by (induction base s rule: skip_0x.induct) (auto simp: digit_not_sign)

section \<open>Reading what was printed\<close>

lemma digits_val_snoc:
  "decimal s \<Longrightarrow> 10 \<le> base \<Longrightarrow> d < 10 \<Longrightarrow>
   digits_val base acc (s @ [digit_char d]) = digits_val base acc s * int base + int d"
  by (induction s arbitrary: acc) auto

lemma digits_val_show_nat: "digits_val 10 0 (show_nat n) = int n"
proof (induction n rule: show_nat.induct)
  case (1 n)
  show ?case
  proof (cases "n < 10")
    case True
    then show ?thesis by (subst show_nat.simps) simp
  next
    case False
    with 1 have "digits_val 10 0 (show_nat n) = int (n div 10) * 10 + int (n mod 10)"
      by (subst show_nat.simps) (simp add: digits_val_snoc)
    also have "\<dots> = int (n div 10 * 10 + n mod 10)" by (simp only: of_nat_add of_nat_mult of_nat_numeral)
    also have "\<dots> = int n" by (simp only: div_mult_mod_eq)
    finally show ?thesis .
  qed
qed

lemma digits_val_zeros: "0 < base \<Longrightarrow> digits_val base 0 (replicate k (CHR ''0'') @ s) = digits_val base 0 s"
  by (induction k) auto

lemma digits_val_pad8 [simp]: "0 < base \<Longrightarrow> digits_val base 0 (pad8 s) = digits_val base 0 s"
  by (simp add: pad8_def digits_val_zeros)

lemma digits_val_acc:
  "decimal s \<Longrightarrow> 10 \<le> base \<Longrightarrow> digits_val base acc s = acc * int base ^ length s + digits_val base 0 s"
proof (induction s rule: rev_induct)
  case (snoc c s)
  then obtain d where "d < 10" "c = digit_char d" "decimal s" by auto
  with snoc show ?case by (simp add: digits_val_snoc algebra_simps)
qed simp

lemma digits_val_bounds:
  "decimal s \<Longrightarrow> 10 \<le> base \<Longrightarrow>
   0 \<le> digits_val base 0 s \<and> digits_val base 0 s < int base ^ length s"
proof (induction s rule: rev_induct)
  case (snoc c s)
  then obtain d where d: "d < 10" "c = digit_char d" and s: "decimal s" by auto
  have "digits_val base 0 (s @ [c]) = digits_val base 0 s * int base + int d"
    using d s snoc.prems by (simp add: digits_val_snoc)
  moreover have "digits_val base 0 s + 1 \<le> int base ^ length s"
    using snoc s by simp
  then have "(digits_val base 0 s + 1) * int base \<le> int base ^ length s * int base"
    by (rule mult_right_mono) simp
  ultimately show ?case
    using snoc s d by (simp add: algebra_simps)
qed simp

text \<open>Digit strings of one length are determined by their value in any base above nine.\<close>

lemma digits_val_inject:
  assumes "10 \<le> base"
  shows "decimal s \<Longrightarrow> decimal t \<Longrightarrow> length s = length t \<Longrightarrow>
    digits_val base 0 s = digits_val base 0 t \<Longrightarrow> s = t"
proof (induction s arbitrary: t rule: rev_induct)
  case (snoc c s)
  then obtain c' t' where t: "t = t' @ [c']"
    by (metis append_butlast_last_id length_0_conv snoc_eq_iff_butlast)
  from snoc.prems t obtain d d' where d: "d < 10" "c = digit_char d" "d' < 10" "c' = digit_char d'"
    by auto
  have eq: "digits_val base 0 s * int base + int d = digits_val base 0 t' * int base + int d'"
    using snoc.prems t d assms by (simp add: digits_val_snoc)
  have lt: "int d < int base" "int d' < int base" using d assms by auto
  from eq have "(digits_val base 0 s * int base + int d) mod int base =
      (digits_val base 0 t' * int base + int d') mod int base" by simp
  with lt have dd: "int d = int d'" by simp
  with eq assms have "digits_val base 0 s = digits_val base 0 t'" by simp
  with snoc t have "s = t'" by simp
  with t d dd show ?case by simp
qed simp

lemma clamp_long_id [simp]: "long_range x \<Longrightarrow> clamp_long x = x"
  by (simp add: clamp_long_def long_range_def)

lemma int_long_range: "int_range x \<Longrightarrow> long_range x"
  by (simp add: int_range_def long_range_def config_defs)

lemma strtol_decimal:
  assumes "decimal s"
  shows "strtol s base = clamp_long (digits_val base 0 s)"
proof (cases s)
  case (Cons c u)
  with assms have "c \<noteq> CHR ''-''" "c \<noteq> CHR ''+''" by (auto simp: digit_not_sign)
  moreover have "dropWhile is_space (cstr s) = s" using assms by simp
  ultimately show ?thesis using Cons assms by (simp add: strtol_def Let_def)
qed (simp add: strtol_def)

lemma strtol_neg_decimal:
  "decimal s \<Longrightarrow> strtol (CHR ''-'' # s) base = clamp_long (- digits_val base 0 s)"
  by (simp add: strtol_def Let_def is_space_def)

lemma strtol_show_int: "strtol (show_int i) 10 = clamp_long i"
  by (simp add: show_int_def strtol_decimal strtol_neg_decimal digits_val_show_nat)

lemma atoi_show_int [simp]: "int_range i \<Longrightarrow> atoi (show_int i) = i"
  by (simp add: atoi_def strtol_show_int int_long_range)

lemma atol_show_int [simp]: "long_range i \<Longrightarrow> atol (show_int i) = i"
  by (simp add: atol_def strtol_show_int)

lemma nul_free_show_int [simp]: "nul_free (show_int i)"
  by (simp add: show_int_def)

lemma show_int_inject: "show_int i = show_int j \<Longrightarrow> long_range i \<Longrightarrow> long_range j \<Longrightarrow> i = j"
  by (metis atol_show_int)

text \<open>Evaluating the conversions on literals.\<close>

lemmas number_eval = atoi_def atol_def strtol_def Let_def cstr_def is_space_def digit_val_def
  is_digit_def clamp_long_def to_int_def to_uint_def show_int_def show_8_8d_def pad8_def
  INT_MAX_def INT_MIN_def LONG_MAX_def LONG_MIN_def

end
