(* ===== verification/Json_C.thy ===== *)
theory Json_C
  imports C_Numbers
begin

text \<open>
  The json-c library, which is not part of the repository, as a parameter of the model: a
  record \<open>'j json_c\<close> with one field per library function the sources call, over an
  unspecified type \<open>'j\<close> of (non-NULL) JSON objects. A \<^verbatim>\<open>json_object *\<close> is an
  \<open>'j option\<close>, with \<open>None\<close> for NULL, which is also how json-c represents a JSON null.

  A \<^verbatim>\<open>json_object\<close> owns its members, so a value of \<open>'j\<close> is the whole tree below a
  root. Where the code obtains a member with \<^verbatim>\<open>json_object_object_get_ex\<close> and then
  changes that member in place, the model writes the changed member back into its parent with
  \<open>jc_update_member\<close>.

  The predicate \<open>json_c_ok\<close> collects the documented behaviour the theorems rely on.
\<close>

datatype json_type =
    json_type_null | json_type_boolean | json_type_double | json_type_int
  | json_type_object | json_type_array | json_type_string

record 'j json_c =
  jc_type :: "'j \<Rightarrow> json_type"                            \<comment> \<open>json_object_get_type\<close>
  jc_new_object :: 'j                                     \<comment> \<open>json_object_new_object\<close>
  jc_new_array :: 'j                                      \<comment> \<open>json_object_new_array\<close>
  jc_new_string :: "string \<Rightarrow> 'j"                         \<comment> \<open>json_object_new_string\<close>
  jc_new_int :: "int \<Rightarrow> 'j"                               \<comment> \<open>json_object_new_int\<close>
  jc_new_int64 :: "int \<Rightarrow> 'j"                             \<comment> \<open>json_object_new_int64\<close>
  jc_new_boolean :: "bool \<Rightarrow> 'j"                          \<comment> \<open>json_object_new_boolean\<close>
  jc_object_add :: "'j \<Rightarrow> string \<Rightarrow> 'j \<Rightarrow> 'j"             \<comment> \<open>json_object_object_add\<close>
  jc_object_get_ex :: "'j \<Rightarrow> string \<Rightarrow> 'j option option"  \<comment> \<open>json_object_object_get_ex: the member, if present\<close>
  jc_update_member :: "'j \<Rightarrow> string \<Rightarrow> 'j \<Rightarrow> 'j"          \<comment> \<open>the parent once its member was changed in place\<close>
  jc_array_length :: "'j \<Rightarrow> nat"                          \<comment> \<open>json_object_array_length\<close>
  jc_array_get_idx :: "'j \<Rightarrow> int \<Rightarrow> 'j option"            \<comment> \<open>json_object_array_get_idx\<close>
  jc_array_add :: "'j \<Rightarrow> 'j \<Rightarrow> 'j"                        \<comment> \<open>json_object_array_add\<close>
  jc_array_put_idx :: "'j \<Rightarrow> nat \<Rightarrow> 'j \<Rightarrow> 'j"             \<comment> \<open>json_object_array_put_idx\<close>
  jc_get_string :: "'j \<Rightarrow> string"                         \<comment> \<open>json_object_get_string\<close>
  jc_get_int :: "'j option \<Rightarrow> int"                        \<comment> \<open>json_object_get_int\<close>
  jc_get_int64 :: "'j option \<Rightarrow> int"                      \<comment> \<open>json_object_get_int64\<close>
  jc_get_boolean :: "'j option \<Rightarrow> bool"                   \<comment> \<open>json_object_get_boolean\<close>
  jc_to_string :: "'j \<Rightarrow> string option"                   \<comment> \<open>json_object_to_json_string_ext, pretty\<close>
  jc_parse :: "string \<Rightarrow> 'j option"                       \<comment> \<open>json_tokener_parse\<close>

section \<open>Calls with NULL and with objects of the wrong type\<close>

text \<open>\<^verbatim>\<open>json_object_object_get_ex\<close> on NULL returns FALSE.\<close>

definition get_ex :: "'j json_c \<Rightarrow> 'j option \<Rightarrow> string \<Rightarrow> 'j option option" where
  "get_ex J p k = (case p of None \<Rightarrow> None | Some j \<Rightarrow> jc_object_get_ex J j k)"

text \<open>\<^verbatim>\<open>json_object_get_string\<close> of NULL is NULL, which no C string function accepts.\<close>

definition get_str :: "'j json_c \<Rightarrow> 'j option \<Rightarrow> string cres" where
  "get_str J p = (case p of None \<Rightarrow> Inl Null_Deref | Some j \<Rightarrow> Inr (cstr (jc_get_string J j)))"

text \<open>The array functions assert that their argument is an array, and
  \<^verbatim>\<open>json_object_object_add\<close> that it is an object.\<close>

definition arr_length :: "'j json_c \<Rightarrow> 'j option \<Rightarrow> nat cres" where
  "arr_length J p = (case p of
     Some a \<Rightarrow> if jc_type J a = json_type_array then Inr (jc_array_length J a) else Inl Json_Assert
   | None \<Rightarrow> Inl Json_Assert)"

definition arr_get_idx :: "'j json_c \<Rightarrow> 'j option \<Rightarrow> int \<Rightarrow> 'j option cres" where
  "arr_get_idx J p i = (case p of
     Some a \<Rightarrow> if jc_type J a = json_type_array then Inr (jc_array_get_idx J a i) else Inl Json_Assert
   | None \<Rightarrow> Inl Json_Assert)"

text \<open>\<^verbatim>\<open>json_object_array_put_idx (a, json_object_array_length (a), v)\<close> and
  \<^verbatim>\<open>json_object_array_add (a, v)\<close> on the member \<open>k\<close> of \<open>o'\<close>, in place.\<close>

definition arr_put_end :: "'j json_c \<Rightarrow> 'j \<Rightarrow> string \<Rightarrow> 'j option \<Rightarrow> 'j \<Rightarrow> 'j cres" where
  "arr_put_end J o' k p v =
     ebind (arr_length J p) (\<lambda>n.
       case p of
         None \<Rightarrow> Inl Json_Assert
       | Some a \<Rightarrow> Inr (jc_update_member J o' k (jc_array_put_idx J a n v)))"

definition obj_add :: "'j json_c \<Rightarrow> 'j option \<Rightarrow> string \<Rightarrow> 'j \<Rightarrow> 'j cres" where
  "obj_add J p k v = (case p of
     Some j \<Rightarrow> if jc_type J j = json_type_object then Inr (jc_object_add J j k v) else Inl Json_Assert
   | None \<Rightarrow> Inl Json_Assert)"

lemma get_ex_None [simp]: "get_ex J None k = None"
  by (simp add: get_ex_def)

lemma get_ex_Some [simp]: "get_ex J (Some j) k = jc_object_get_ex J j k"
  by (simp add: get_ex_def)

lemma get_str_simps [simp]:
  "get_str J None = Inl Null_Deref" "get_str J (Some j) = Inr (cstr (jc_get_string J j))"
  by (simp_all add: get_str_def)

lemma arr_length_array [simp]: "jc_type J a = json_type_array \<Longrightarrow> arr_length J (Some a) = Inr (jc_array_length J a)"
  by (simp add: arr_length_def)

lemma arr_get_idx_array [simp]:
  "jc_type J a = json_type_array \<Longrightarrow> arr_get_idx J (Some a) i = Inr (jc_array_get_idx J a i)"
  by (simp add: arr_get_idx_def)

section \<open>Documented behaviour\<close>

definition json_object_laws :: "'j json_c \<Rightarrow> bool" where
  "json_object_laws J \<longleftrightarrow>
     jc_type J (jc_new_object J) = json_type_object
   \<and> (\<forall>k. jc_object_get_ex J (jc_new_object J) k = None)
   \<and> (\<forall>j k v. jc_type J j = json_type_object \<longrightarrow>
        jc_type J (jc_object_add J j k v) = json_type_object
      \<and> (\<forall>k'. jc_object_get_ex J (jc_object_add J j k v) k' =
             (if k' = k then Some (Some v) else jc_object_get_ex J j k')))
   \<and> (\<forall>j k v w. jc_object_get_ex J j k = Some w \<longrightarrow>
        jc_type J (jc_update_member J j k v) = jc_type J j
      \<and> (\<forall>k'. jc_object_get_ex J (jc_update_member J j k v) k' =
             (if k' = k then Some (Some v) else jc_object_get_ex J j k')))"

definition json_array_laws :: "'j json_c \<Rightarrow> bool" where
  "json_array_laws J \<longleftrightarrow>
     jc_type J (jc_new_array J) = json_type_array
   \<and> jc_array_length J (jc_new_array J) = 0
   \<and> (\<forall>a v. jc_type J a = json_type_array \<longrightarrow>
        jc_type J (jc_array_add J a v) = json_type_array
      \<and> jc_array_length J (jc_array_add J a v) = Suc (jc_array_length J a)
      \<and> (\<forall>i. jc_array_get_idx J (jc_array_add J a v) i =
             (if i = int (jc_array_length J a) then Some v else jc_array_get_idx J a i))
      \<and> jc_array_put_idx J a (jc_array_length J a) v = jc_array_add J a v)"

definition json_scalar_laws :: "'j json_c \<Rightarrow> bool" where
  "json_scalar_laws J \<longleftrightarrow>
     (\<forall>s. nul_free s \<longrightarrow> jc_get_string J (jc_new_string J s) = s)
   \<and> (\<forall>i. int_range i \<longrightarrow>
        jc_get_int J (Some (jc_new_int J i)) = i \<and> jc_get_string J (jc_new_int J i) = show_int i)
   \<and> (\<forall>i. long_range i \<longrightarrow> jc_get_int64 J (Some (jc_new_int64 J i)) = i)
   \<and> (\<forall>b. jc_get_boolean J (Some (jc_new_boolean J b)) = b)"

definition json_c_ok :: "'j json_c \<Rightarrow> bool" where
  "json_c_ok J \<longleftrightarrow> json_object_laws J \<and> json_array_laws J \<and> json_scalar_laws J"

lemma new_object_simps [simp]:
  "json_c_ok J \<Longrightarrow> jc_type J (jc_new_object J) = json_type_object"
  "json_c_ok J \<Longrightarrow> jc_object_get_ex J (jc_new_object J) k = None"
  by (simp_all add: json_c_ok_def json_object_laws_def)

lemma object_add_simps [simp]:
  assumes "json_c_ok J" and "jc_type J j = json_type_object"
  shows "jc_type J (jc_object_add J j k v) = json_type_object"
    and "jc_object_get_ex J (jc_object_add J j k v) k' =
         (if k' = k then Some (Some v) else jc_object_get_ex J j k')"
  using assms unfolding json_c_ok_def json_object_laws_def by blast+

lemma update_member_simps:
  assumes "json_c_ok J" and "jc_object_get_ex J j k = Some w"
  shows "jc_type J (jc_update_member J j k v) = jc_type J j"
    and "jc_object_get_ex J (jc_update_member J j k v) k' =
         (if k' = k then Some (Some v) else jc_object_get_ex J j k')"
  using assms unfolding json_c_ok_def json_object_laws_def by blast+

lemma new_array_simps [simp]:
  "json_c_ok J \<Longrightarrow> jc_type J (jc_new_array J) = json_type_array"
  "json_c_ok J \<Longrightarrow> jc_array_length J (jc_new_array J) = 0"
  by (simp_all add: json_c_ok_def json_array_laws_def)

lemma array_add_simps [simp]:
  assumes "json_c_ok J" and "jc_type J a = json_type_array"
  shows "jc_type J (jc_array_add J a v) = json_type_array"
    and "jc_array_length J (jc_array_add J a v) = Suc (jc_array_length J a)"
    and "jc_array_get_idx J (jc_array_add J a v) i =
         (if i = int (jc_array_length J a) then Some v else jc_array_get_idx J a i)"
    and "jc_array_put_idx J a (jc_array_length J a) v = jc_array_add J a v"
  using assms unfolding json_c_ok_def json_array_laws_def by blast+

lemma scalar_simps [simp]:
  assumes "json_c_ok J"
  shows "nul_free s \<Longrightarrow> jc_get_string J (jc_new_string J s) = s"
    and "int_range i \<Longrightarrow> jc_get_int J (Some (jc_new_int J i)) = i"
    and "int_range i \<Longrightarrow> jc_get_string J (jc_new_int J i) = show_int i"
    and "long_range i \<Longrightarrow> jc_get_int64 J (Some (jc_new_int64 J i)) = i"
    and "jc_get_boolean J (Some (jc_new_boolean J b)) = b"
  using assms by (simp_all add: json_c_ok_def json_scalar_laws_def)

lemma arr_put_end_array:
  assumes "json_c_ok J" and "jc_type J a = json_type_array"
  shows "arr_put_end J j k (Some a) v = Inr (jc_update_member J j k (jc_array_add J a v))"
  using assms by (simp add: arr_put_end_def)

section \<open>A concrete library\<close>

text \<open>Plain JSON trees with these operations satisfy the laws: the hypotheses of the theorems
  can hold. The instance is parameterised by the text functions, which the laws do not
  constrain.\<close>

datatype json =
    JBool bool | JInt int | JString string | JArray "json option list" | JObject "(string \<times> json option) list"

fun tree_type :: "json \<Rightarrow> json_type" where
  "tree_type (JBool _) = json_type_boolean"
| "tree_type (JInt _) = json_type_int"
| "tree_type (JString _) = json_type_string"
| "tree_type (JArray _) = json_type_array"
| "tree_type (JObject _) = json_type_object"

fun tree_member :: "json \<Rightarrow> string \<Rightarrow> json option option" where
  "tree_member (JObject ms) k = map_of ms k"
| "tree_member j k = None"

fun set_member :: "(string \<times> json option) list \<Rightarrow> string \<Rightarrow> json \<Rightarrow> (string \<times> json option) list" where
  "set_member [] k v = [(k, Some v)]"
| "set_member (m # ms) k v = (if fst m = k then (k, Some v) # ms else m # set_member ms k v)"

fun tree_add :: "json \<Rightarrow> string \<Rightarrow> json \<Rightarrow> json" where
  "tree_add (JObject ms) k v = JObject (set_member ms k v)"
| "tree_add j k v = j"

fun tree_elems :: "json \<Rightarrow> json option list" where
  "tree_elems (JArray xs) = xs"
| "tree_elems j = []"

definition tree_get_idx :: "json \<Rightarrow> int \<Rightarrow> json option" where
  "tree_get_idx j i =
     (if 0 \<le> i \<and> nat i < length (tree_elems j) then tree_elems j ! nat i else None)"

fun tree_append :: "json \<Rightarrow> json \<Rightarrow> json" where
  "tree_append (JArray xs) v = JArray (xs @ [Some v])"
| "tree_append j v = j"

definition tree_put_idx :: "json \<Rightarrow> nat \<Rightarrow> json \<Rightarrow> json" where
  "tree_put_idx j n v = JArray (take n (tree_elems j) @ replicate (n - length (tree_elems j)) None
     @ [Some v] @ drop (Suc n) (tree_elems j))"

fun tree_string :: "json \<Rightarrow> string" where
  "tree_string (JString s) = s"
| "tree_string (JInt i) = show_int i"
| "tree_string (JBool b) = (if b then ''true'' else ''false'')"
| "tree_string (JArray _) = ''[ ]''"
| "tree_string (JObject _) = ''{ }''"

fun tree_int :: "json option \<Rightarrow> int" where
  "tree_int (Some (JInt i)) = i"
| "tree_int (Some (JBool b)) = (if b then 1 else 0)"
| "tree_int _ = 0"

fun tree_bool :: "json option \<Rightarrow> bool" where
  "tree_bool (Some (JBool b)) = b"
| "tree_bool (Some (JInt i)) = (i \<noteq> 0)"
| "tree_bool (Some (JString s)) = (s \<noteq> [])"
| "tree_bool _ = False"

definition tree_json :: "(json \<Rightarrow> string option) \<Rightarrow> (string \<Rightarrow> json option) \<Rightarrow> json json_c" where
  "tree_json print read = \<lparr>
     jc_type = tree_type, jc_new_object = JObject [], jc_new_array = JArray [],
     jc_new_string = JString, jc_new_int = JInt, jc_new_int64 = JInt, jc_new_boolean = JBool,
     jc_object_add = tree_add, jc_object_get_ex = tree_member, jc_update_member = tree_add,
     jc_array_length = (\<lambda>j. length (tree_elems j)), jc_array_get_idx = tree_get_idx,
     jc_array_add = tree_append, jc_array_put_idx = tree_put_idx,
     jc_get_string = tree_string, jc_get_int = tree_int, jc_get_int64 = tree_int,
     jc_get_boolean = tree_bool, jc_to_string = print, jc_parse = read\<rparr>"

lemma map_of_set_member: "map_of (set_member ms k v) k' = (if k' = k then Some (Some v) else map_of ms k')"
  by (induction ms) auto

lemma tree_member_add:
  "tree_type j = json_type_object \<Longrightarrow>
   tree_type (tree_add j k v) = json_type_object
   \<and> tree_member (tree_add j k v) k' = (if k' = k then Some (Some v) else tree_member j k')"
  by (cases j) (auto simp: map_of_set_member)

lemma tree_member_object: "tree_member j k = Some w \<Longrightarrow> tree_type j = json_type_object"
  by (cases j) auto

lemma tree_array_laws: "json_array_laws (tree_json print read)"
  unfolding json_array_laws_def tree_json_def
proof (intro conjI allI impI, goal_cases)
  case (3 a v) then show ?case by (cases a) auto
next
  case (4 a v) then show ?case by (cases a) auto
next
  case (5 a v i) then show ?case by (cases a) (auto simp: tree_get_idx_def nth_append)
next
  case (6 a v) then show ?case by (cases a) (auto simp: tree_put_idx_def)
qed simp_all

lemma tree_json_ok [simp]: "json_c_ok (tree_json print read)"
proof -
  have "json_object_laws (tree_json print read)"
    unfolding json_object_laws_def
    by (simp add: tree_json_def tree_member_add tree_member_object)
  moreover have "json_scalar_laws (tree_json print read)"
    by (simp add: json_scalar_laws_def tree_json_def)
  ultimately show ?thesis using tree_array_laws by (simp add: json_c_ok_def)
qed

end
