(* ===== verification/Rpc_Common.thy ===== *)
theory Rpc_Common
  imports Json_C
begin

text \<open>
  \<^verbatim>\<open>json-rpc-common/json_rpc_common.h\<close>: the field names and action names of the
  protocol, the buffer sizes and the timing constants both libraries share.
\<close>

abbreviation JSON_RPC_FIELD_MODULE :: string where "JSON_RPC_FIELD_MODULE \<equiv> ''module''"
abbreviation JSON_RPC_FIELD_VERSION :: string where "JSON_RPC_FIELD_VERSION \<equiv> ''version''"
abbreviation JSON_RPC_FIELD_ACTION :: string where "JSON_RPC_FIELD_ACTION \<equiv> ''action''"
abbreviation JSON_RPC_FIELD_ID :: string where "JSON_RPC_FIELD_ID \<equiv> ''reqId''"
abbreviation JSON_RPC_FIELD_PARAMS :: string where "JSON_RPC_FIELD_PARAMS \<equiv> ''params''"
abbreviation JSON_RPC_FIELD_PARAM_NAME :: string where "JSON_RPC_FIELD_PARAM_NAME \<equiv> ''name''"
abbreviation JSON_RPC_FIELD_PARAM_VALUE :: string where "JSON_RPC_FIELD_PARAM_VALUE \<equiv> ''value''"
abbreviation JSON_RPC_FIELD_PARAM_TYPE :: string where "JSON_RPC_FIELD_PARAM_TYPE \<equiv> ''type''"
abbreviation JSON_RPC_FIELD_SCHEMA_INFO :: string where "JSON_RPC_FIELD_SCHEMA_INFO \<equiv> ''SchemaInfo''"
abbreviation JSON_RPC_FIELD_SCHEMA_FILEPATH :: string where "JSON_RPC_FIELD_SCHEMA_FILEPATH \<equiv> ''FilePath''"
abbreviation JSON_RPC_FIELD_PARAM_NOTIFICATION_TYPE :: string where "JSON_RPC_FIELD_PARAM_NOTIFICATION_TYPE \<equiv> ''notificationType''"
abbreviation JSON_RPC_NOTIFICATION_ON_CHANGE :: string where "JSON_RPC_NOTIFICATION_ON_CHANGE \<equiv> ''onChange''"
abbreviation JSON_RPC_NOTIFICATION_ON_CHANGE_SYNC :: string where "JSON_RPC_NOTIFICATION_ON_CHANGE_SYNC \<equiv> ''onChangeSync''"
abbreviation JSON_RPC_NOTIFICATION_ON_CHANGE_SYNC_TIMEOUT :: string where "JSON_RPC_NOTIFICATION_ON_CHANGE_SYNC_TIMEOUT \<equiv> ''onChangeSyncTimeout''"
abbreviation JSON_RPC_FILED_RESULT :: string where "JSON_RPC_FILED_RESULT \<equiv> ''Result''"
abbreviation JSON_RPC_SUBSCRIBE_EVENT_ACTION_NAME :: string where "JSON_RPC_SUBSCRIBE_EVENT_ACTION_NAME \<equiv> ''subscribeEvent''"
abbreviation JSON_RPC_PUBLISH_EVENT_ACTION_NAME :: string where "JSON_RPC_PUBLISH_EVENT_ACTION_NAME \<equiv> ''publishEvent''"
abbreviation JSON_RPC_FIELD_TYPE_STRING :: string where "JSON_RPC_FIELD_TYPE_STRING \<equiv> ''string''"
abbreviation JSON_RPC_FIELD_TYPE_INTEGER :: string where "JSON_RPC_FIELD_TYPE_INTEGER \<equiv> ''int''"
abbreviation JSON_RPC_FIELD_TYPE_BOOLEAN :: string where "JSON_RPC_FIELD_TYPE_BOOLEAN \<equiv> ''boolean''"
abbreviation JSON_RPC_FIELD_TYPE_LONG :: string where "JSON_RPC_FIELD_TYPE_LONG \<equiv> ''long''"
abbreviation JSON_RPC_FIELD_TYPE_UNSIGNED_INTEGER :: string where "JSON_RPC_FIELD_TYPE_UNSIGNED_INTEGER \<equiv> ''unsignedInt''"
abbreviation JSON_RPC_FIELD_TYPE_UNSIGNED_LONG :: string where "JSON_RPC_FIELD_TYPE_UNSIGNED_LONG \<equiv> ''unsignedLong''"
abbreviation JSON_RPC_FIELD_TYPE_HEX_BINARY :: string where "JSON_RPC_FIELD_TYPE_HEX_BINARY \<equiv> ''hexBinary''"
abbreviation JSON_RPC_FIELD_TYPE_BASE64 :: string where "JSON_RPC_FIELD_TYPE_BASE64 \<equiv> ''base64''"
abbreviation JSON_RPC_STATUS_FAILED :: string where "JSON_RPC_STATUS_FAILED \<equiv> ''Failed''"
abbreviation JSON_RPC_STATUS_SUCCESS :: string where "JSON_RPC_STATUS_SUCCESS \<equiv> ''Success''"
abbreviation JSON_RPC_PARAM_STATUS_FIELD :: string where "JSON_RPC_PARAM_STATUS_FIELD \<equiv> ''Status''"
abbreviation JSON_RPC_STATUS_NOT_SUPPORTED :: string where "JSON_RPC_STATUS_NOT_SUPPORTED \<equiv> ''Not Supported''"
abbreviation JSON_RPC_ACTION_GET_PARAM :: string where "JSON_RPC_ACTION_GET_PARAM \<equiv> ''getParameters''"
abbreviation JSON_RPC_ACTION_GET_PARAM_RESPONSE :: string where "JSON_RPC_ACTION_GET_PARAM_RESPONSE \<equiv> ''getParametersResponse''"
abbreviation JSON_RPC_ACTION_RESULT :: string where "JSON_RPC_ACTION_RESULT \<equiv> ''result''"
abbreviation JSON_RPC_ACTION_GET_SCHEMA :: string where "JSON_RPC_ACTION_GET_SCHEMA \<equiv> ''getSchema''"
abbreviation JSON_RPC_ACTION_GET_SCHEMA_RESPONSE :: string where "JSON_RPC_ACTION_GET_SCHEMA_RESPONSE \<equiv> ''getSchemaResponse''"
abbreviation (input) JSON_RPC_PARAM_ARR_INDEX :: int where "JSON_RPC_PARAM_ARR_INDEX \<equiv> (0::int)"
abbreviation (input) BUF_64 :: nat where "BUF_64 \<equiv> (64::nat)"
abbreviation (input) BUF_256 :: nat where "BUF_256 \<equiv> (256::nat)"
abbreviation (input) BUF_512 :: nat where "BUF_512 \<equiv> (512::nat)"
abbreviation (input) MAX_BUFFER_SIZE :: nat where "MAX_BUFFER_SIZE \<equiv> (65536::nat)"
abbreviation (input) MAX_FUNCTION_LEN :: nat where "MAX_FUNCTION_LEN \<equiv> (64::nat)"
abbreviation (input) DEFAULT_SEQ_START_NUMBER :: int where "DEFAULT_SEQ_START_NUMBER \<equiv> (100::int)"
abbreviation (input) IDLE_TIMEOUT_PERIOD :: nat where "IDLE_TIMEOUT_PERIOD \<equiv> (2000::nat)"
abbreviation (input) INVALD_LENGTH :: int where "INVALD_LENGTH \<equiv> (-1::int)"

text \<open>\<^verbatim>\<open>strncmp (s, lit, strlen (lit)) == 0\<close> against one of these literals.\<close>

definition starts_with :: "string \<Rightarrow> string \<Rightarrow> bool" where
  "starts_with s lit \<longleftrightarrow> strncmp_eq s lit (length lit)"

lemma starts_with_prefix: "starts_with s lit \<longleftrightarrow> prefix lit s"
  by (simp add: starts_with_def strncmp_eq_prefix)

lemma starts_with_code [code]:
  "starts_with s [] = True"
  "starts_with [] (c # lit) = False"
  "starts_with (d # s) (c # lit) = (d = c \<and> starts_with s lit)"
  by (auto simp: starts_with_prefix)

lemmas starts_with_simps [simp] = starts_with_code

lemma starts_with_self [simp]: "starts_with s s"
  by (simp add: starts_with_prefix)

text \<open>How both libraries wait for their socket thread to stop: at most
  \<^verbatim>\<open>IDLE_TIMEOUT_PERIOD\<close> polls; \<open>stopped n\<close> tells whether the \<open>n\<close>th poll finds the
  thread gone. The result is the number of polls.\<close>

fun await_stop :: "(nat \<Rightarrow> bool) \<Rightarrow> nat \<Rightarrow> nat \<Rightarrow> nat" where
  "await_stop stopped n 0 = n"
| "await_stop stopped n (Suc counter) =
     (if stopped n then Suc n else await_stop stopped (Suc n) counter)"

lemma await_stop_bound: "n \<le> await_stop stopped n k \<and> await_stop stopped n k \<le> n + k"
proof (induction k arbitrary: n)
  case (Suc k)
  from Suc.IH [of "Suc n"] show ?case by auto
qed simp

lemma await_stop_first:
  "n \<le> m \<Longrightarrow> m < n + k \<Longrightarrow> stopped m \<Longrightarrow> \<forall>i. n \<le> i \<and> i < m \<longrightarrow> \<not> stopped i \<Longrightarrow> await_stop stopped n k = Suc m"
proof (induction k arbitrary: n)
  case (Suc k)
  show ?case
  proof (cases "stopped n")
    case True
    with Suc.prems have "m = n" by (metis le_neq_implies_less le_refl)
    with True show ?thesis by simp
  next
    case False
    then have "n \<noteq> m" using Suc.prems by auto
    then have "await_stop stopped (Suc n) k = Suc m" using Suc.prems by (intro Suc.IH) auto
    with False show ?thesis by simp
  qed
qed simp

end
