(* ===== verification/Hal_Common.thy ===== *)
theory Hal_Common
  imports Rpc_Common
begin

text \<open>
  \<^verbatim>\<open>json_hal_common.c\<close> and \<^verbatim>\<open>json_hal_common.h\<close>: packing a parameter into a JSON
  message, unpacking it again, and loading the configuration of a client or server. Output
  parameters are returned: a function with a \<^verbatim>\<open>hal_param_t *\<close> argument returns the return
  code together with the pointed-to structure after the call, also when the code is
  \<open>RETURN_ERR\<close>.
\<close>

section \<open>Data\<close>

datatype eParamType =
    PARAM_BOOLEAN | PARAM_STRING | PARAM_INTEGER | PARAM_UNSIGNED_INTEGER
  | PARAM_LONG | PARAM_UNSIGNED_LONG | PARAM_HEXBINARY | PARAM_BASE64

datatype eResult_t = RESULT_SUCCESS | RESULT_FAILURE

datatype eActionType =
    GET_REQUEST_MESSAGE | GET_RESPONSE_MESSAGE | SET_REQUEST_MESSAGE
  | DELETE_REQUEST_MESSAGE | PUBLISHEVENT_RESPONSE_MESSAGE

text \<open>\<open>hp_name\<close> is a \<^verbatim>\<open>char[256]\<close>, \<open>hp_value\<close> a \<^verbatim>\<open>char[2048]\<close>. The
  enumeration starts at 1; \<open>None\<close> is the 0 that \<^verbatim>\<open>memset\<close> leaves in the field.\<close>

record hal_param_t =
  hp_name :: string
  hp_value :: string
  hp_type :: "eParamType option"

definition NAME_SIZE :: nat where [config_defs]: "NAME_SIZE = 256"
definition VALUE_SIZE :: nat where [config_defs]: "VALUE_SIZE = 2048"

definition zero_param :: hal_param_t where
  "zero_param = \<lparr>hp_name = [], hp_value = [], hp_type = None\<rparr>"

text \<open>A parameter a caller may pass in: both arrays hold C strings.\<close>

definition wf_param :: "hal_param_t \<Rightarrow> bool" where
  "wf_param p \<longleftrightarrow> nul_free (hp_name p) \<and> length (hp_name p) < NAME_SIZE
     \<and> nul_free (hp_value p) \<and> length (hp_value p) < VALUE_SIZE"

section \<open>Unpacking: json_hal_get_param\<close>

text \<open>\<^verbatim>\<open>snprintf (param->value, sizeof (param->value), ...)\<close> always terminates.\<close>

definition snprintf_value :: "string \<Rightarrow> string" where
  "snprintf_value s = take (VALUE_SIZE - 1) s"

text \<open>The name: \<open>Inr None\<close> is the early return with \<open>RETURN_ERR\<close>.\<close>

definition get_param_name :: "'j json_c \<Rightarrow> 'j option \<Rightarrow> hal_param_t \<Rightarrow> hal_param_t option cres" where
  "get_param_name J jparam p =
     (case get_ex J jparam JSON_RPC_FIELD_PARAM_NAME of
        Some o' \<Rightarrow> ebind (get_str J o') (\<lambda>s. Inr (Some (p\<lparr>hp_name := strncpy NAME_SIZE s\<rparr>)))
      | None \<Rightarrow> Inr None)"

text \<open>The three textual types copy the value and fail without one.\<close>

definition get_text_value ::
  "'j json_c \<Rightarrow> 'j option \<Rightarrow> eParamType \<Rightarrow> hal_param_t \<Rightarrow> (int \<times> hal_param_t) cres" where
  "get_text_value J jparam t p =
     (case get_ex J jparam JSON_RPC_FIELD_PARAM_VALUE of
        Some o' \<Rightarrow> ebind (get_str J o') (\<lambda>s.
          Inr (RETURN_OK, p\<lparr>hp_value := strncpy VALUE_SIZE s, hp_type := Some t\<rparr>))
      | None \<Rightarrow> Inr (RETURN_ERR, p))"

text \<open>The scalar types print the value when there is one and succeed in any case.\<close>

definition get_scalar_value ::
  "'j json_c \<Rightarrow> 'j option \<Rightarrow> eParamType \<Rightarrow> ('j option \<Rightarrow> string) \<Rightarrow> hal_param_t \<Rightarrow> (int \<times> hal_param_t) cres" where
  "get_scalar_value J jparam t pr p =
     (case get_ex J jparam JSON_RPC_FIELD_PARAM_VALUE of
        Some o' \<Rightarrow> Inr (RETURN_OK, p\<lparr>hp_value := snprintf_value (pr o'), hp_type := Some t\<rparr>)
      | None \<Rightarrow> Inr (RETURN_OK, p\<lparr>hp_type := Some t\<rparr>))"

definition get_typed_value ::
  "'j json_c \<Rightarrow> 'j option \<Rightarrow> string \<Rightarrow> hal_param_t \<Rightarrow> (int \<times> hal_param_t) cres" where
  "get_typed_value J jparam param_type p =
     (if starts_with param_type JSON_RPC_FIELD_TYPE_STRING then get_text_value J jparam PARAM_STRING p
      else if starts_with param_type JSON_RPC_FIELD_TYPE_HEX_BINARY then get_text_value J jparam PARAM_HEXBINARY p
      else if starts_with param_type JSON_RPC_FIELD_TYPE_BASE64 then get_text_value J jparam PARAM_BASE64 p
      else if starts_with param_type JSON_RPC_FIELD_TYPE_BOOLEAN then
        get_scalar_value J jparam PARAM_BOOLEAN (\<lambda>v. show_int (if jc_get_boolean J v then 1 else 0)) p
      else if starts_with param_type JSON_RPC_FIELD_TYPE_INTEGER then
        get_scalar_value J jparam PARAM_INTEGER (\<lambda>v. show_int (jc_get_int J v)) p
      else if starts_with param_type JSON_RPC_FIELD_TYPE_UNSIGNED_INTEGER then
        get_scalar_value J jparam PARAM_UNSIGNED_INTEGER (\<lambda>v. show_int (to_int (to_uint (jc_get_int J v)))) p
      else if starts_with param_type JSON_RPC_FIELD_TYPE_LONG then
        get_scalar_value J jparam PARAM_LONG (\<lambda>v. show_int (jc_get_int64 J v)) p
      else if starts_with param_type JSON_RPC_FIELD_TYPE_UNSIGNED_LONG then
        get_scalar_value J jparam PARAM_UNSIGNED_LONG (\<lambda>v. show_int (jc_get_int64 J v)) p
      else Inr (RETURN_OK, p))"

definition get_param_fields ::
  "'j json_c \<Rightarrow> 'j option \<Rightarrow> eActionType \<Rightarrow> hal_param_t \<Rightarrow> (int \<times> hal_param_t) cres" where
  "get_param_fields J jparam action p =
     (case action of
        GET_REQUEST_MESSAGE \<Rightarrow> ebind (get_param_name J jparam p) (\<lambda>r.
          case r of None \<Rightarrow> Inr (RETURN_ERR, p) | Some p' \<Rightarrow> Inr (RETURN_OK, p'))
      | DELETE_REQUEST_MESSAGE \<Rightarrow> ebind (get_param_name J jparam p) (\<lambda>r.
          case r of None \<Rightarrow> Inr (RETURN_ERR, p) | Some p' \<Rightarrow> Inr (RETURN_OK, p'))
      | PUBLISHEVENT_RESPONSE_MESSAGE \<Rightarrow> Inr (RETURN_OK, p)
      | _ \<Rightarrow> ebind (get_param_name J jparam p) (\<lambda>r.
          case r of
            None \<Rightarrow> Inr (RETURN_ERR, p)
          | Some p' \<Rightarrow>
              (case get_ex J jparam JSON_RPC_FIELD_PARAM_TYPE of
                 Some o' \<Rightarrow> ebind (get_str J o') (\<lambda>param_type. get_typed_value J jparam param_type p')
               | None \<Rightarrow> Inr (RETURN_ERR, p'))))"

text \<open>The third component of the result is the structure behind \<^verbatim>\<open>param\<close>.\<close>

definition json_hal_get_param ::
  "'j json_c \<Rightarrow> 'j option \<Rightarrow> int \<Rightarrow> eActionType \<Rightarrow> hal_param_t option \<Rightarrow> (int \<times> hal_param_t option) cres" where
  "json_hal_get_param J jmsg index action param =
     (if jmsg = None \<or> param = None then Inr (RETURN_ERR, param)
      else
        (case get_ex J jmsg JSON_RPC_FIELD_PARAMS of
           Some jparams \<Rightarrow> ebind (arr_get_idx J jparams index) (\<lambda>jparam.
             ebind (get_param_fields J jparam action zero_param) (\<lambda>(rc, p). Inr (rc, Some p)))
         | None \<Rightarrow> Inr (RETURN_ERR, Some zero_param)))"

section \<open>Packing: json_hal_add_param\<close>

text \<open>The parameter object with its name, type and value; \<open>Inr None\<close> is the early return for
  a boolean that is neither true nor false.\<close>

definition named_param :: "'j json_c \<Rightarrow> string \<Rightarrow> 'j" where
  "named_param J name = jc_object_add J (jc_new_object J) JSON_RPC_FIELD_PARAM_NAME (jc_new_string J name)"

definition typed_param :: "'j json_c \<Rightarrow> 'j \<Rightarrow> string \<Rightarrow> 'j \<Rightarrow> 'j" where
  "typed_param J jparam t v =
     jc_object_add J (jc_object_add J jparam JSON_RPC_FIELD_PARAM_TYPE (jc_new_string J t))
       JSON_RPC_FIELD_PARAM_VALUE v"

definition pack_value :: "'j json_c \<Rightarrow> 'j \<Rightarrow> eParamType \<Rightarrow> string \<Rightarrow> 'j option" where
  "pack_value J jparam t value =
     (case t of
        PARAM_STRING \<Rightarrow> Some (typed_param J jparam JSON_RPC_FIELD_TYPE_STRING (jc_new_string J value))
      | PARAM_HEXBINARY \<Rightarrow> Some (typed_param J jparam JSON_RPC_FIELD_TYPE_HEX_BINARY (jc_new_string J value))
      | PARAM_BASE64 \<Rightarrow> Some (typed_param J jparam JSON_RPC_FIELD_TYPE_BASE64 (jc_new_string J value))
      | PARAM_BOOLEAN \<Rightarrow>
          if strcmp_eq value ''true'' \<or> strcmp_eq value ''TRUE'' then
            Some (typed_param J jparam JSON_RPC_FIELD_TYPE_BOOLEAN (jc_new_boolean J True))
          else if strcmp_eq value ''false'' \<or> strcmp_eq value ''FALSE'' then
            Some (typed_param J jparam JSON_RPC_FIELD_TYPE_BOOLEAN (jc_new_boolean J False))
          else None
      | PARAM_INTEGER \<Rightarrow>
          Some (typed_param J jparam JSON_RPC_FIELD_TYPE_INTEGER (jc_new_int J (atoi value)))
      | PARAM_UNSIGNED_INTEGER \<Rightarrow>
          Some (typed_param J jparam JSON_RPC_FIELD_TYPE_UNSIGNED_INTEGER
            (jc_new_int J (to_int (to_uint (atoi value)))))
      | PARAM_LONG \<Rightarrow>
          Some (typed_param J jparam JSON_RPC_FIELD_TYPE_LONG (jc_new_int64 J (atol value)))
      | PARAM_UNSIGNED_LONG \<Rightarrow>
          Some (typed_param J jparam JSON_RPC_FIELD_TYPE_UNSIGNED_LONG
            (jc_new_int64 J (to_uint (atol value)))))"

text \<open>The object that is appended to the array; without a type it carries the name only.\<close>

definition pack_param :: "'j json_c \<Rightarrow> string \<Rightarrow> hal_param_t \<Rightarrow> 'j option cres" where
  "pack_param J name p =
     (case hp_type p of
        None \<Rightarrow> Inr (Some (named_param J name))
      | Some t \<Rightarrow> ebind (read_buf VALUE_SIZE (hp_value p)) (\<lambda>value.
          Inr (pack_value J (named_param J name) t value)))"

definition json_hal_add_param ::
  "'j json_c \<Rightarrow> 'j option \<Rightarrow> eActionType \<Rightarrow> hal_param_t option \<Rightarrow> (int \<times> 'j option) cres" where
  "json_hal_add_param J jreply action param =
     (case (jreply, param) of
        (Some r, Some p) \<Rightarrow>
          (case get_ex J jreply JSON_RPC_FIELD_PARAMS of
             None \<Rightarrow> Inr (RETURN_ERR, jreply)
           | Some jparams \<Rightarrow>
               ebind (read_buf NAME_SIZE (hp_name p)) (\<lambda>name.
               (case action of
                  PUBLISHEVENT_RESPONSE_MESSAGE \<Rightarrow>
                    ebind (obj_add J jparams JSON_RPC_FIELD_PARAM_NAME (jc_new_string J name)) (\<lambda>j1.
                    ebind (read_buf VALUE_SIZE (hp_value p)) (\<lambda>value.
                    ebind (obj_add J (Some j1) JSON_RPC_FIELD_PARAM_VALUE (jc_new_string J value)) (\<lambda>j2.
                      Inr (RETURN_OK, Some (jc_update_member J r JSON_RPC_FIELD_PARAMS j2)))))
                | GET_REQUEST_MESSAGE \<Rightarrow>
                    ebind (arr_put_end J r JSON_RPC_FIELD_PARAMS jparams (named_param J name)) (\<lambda>r'.
                      Inr (RETURN_OK, Some r'))
                | DELETE_REQUEST_MESSAGE \<Rightarrow>
                    ebind (arr_put_end J r JSON_RPC_FIELD_PARAMS jparams (named_param J name)) (\<lambda>r'.
                      Inr (RETURN_OK, Some r'))
                | _ \<Rightarrow>
                    ebind (pack_param J name p) (\<lambda>q.
                    (case q of
                       None \<Rightarrow> Inr (RETURN_ERR, jreply)
                     | Some jparam \<Rightarrow>
                         ebind (arr_put_end J r JSON_RPC_FIELD_PARAMS jparams jparam) (\<lambda>r'.
                           Inr (RETURN_OK, Some r')))))))
      | _ \<Rightarrow> Inr (RETURN_ERR, jreply))"

section \<open>Configuration: json_hal_load_config\<close>

text \<open>The arrays of the structure hold 64, 64 and 256 characters.\<close>

record hal_config_t =
  hal_module_name :: string
  hal_module_version :: string
  hal_schema_path :: string
  server_port_number :: int
  request_timeout_period :: int

definition zero_config :: hal_config_t where
  "zero_config = \<lparr>hal_module_name = [], hal_module_version = [], hal_schema_path = [],
     server_port_number = 0, request_timeout_period = 0\<rparr>"

definition wf_config :: "hal_config_t \<Rightarrow> bool" where
  "wf_config c \<longleftrightarrow> length (hal_module_name c) < 64 \<and> length (hal_module_version c) < 64
     \<and> length (hal_schema_path c) < 256 \<and> nul_free (hal_module_name c)
     \<and> nul_free (hal_module_version c) \<and> nul_free (hal_schema_path c)"

text \<open>The files a call can see: \<^verbatim>\<open>stat\<close> gives the size of a file, \<^verbatim>\<open>fopen\<close> and
  \<^verbatim>\<open>fread\<close> its content.\<close>

record files =
  fs_stat :: "string \<Rightarrow> nat option"
  fs_open :: "string \<Rightarrow> string option"

text \<open>\<^verbatim>\<open>json_object_object_get_ex\<close> with the flag ignored: the out pointer is NULL when the
  member is missing.\<close>

definition member :: "'j json_c \<Rightarrow> 'j option \<Rightarrow> string \<Rightarrow> 'j option" where
  "member J p k = (case get_ex J p k of None \<Rightarrow> None | Some q \<Rightarrow> q)"

text \<open>The \<^verbatim>\<open>"const"\<close> text below a definition of the schema file.\<close>

definition schema_const :: "'j json_c \<Rightarrow> 'j option \<Rightarrow> string \<Rightarrow> 'j option" where
  "schema_const J jdefinitions key =
     (case member J jdefinitions key of None \<Rightarrow> None | Some jkey \<Rightarrow> member J (Some jkey) ''const'')"

definition load_schema ::
  "'j json_c \<Rightarrow> files \<Rightarrow> hal_config_t \<Rightarrow> (int \<times> hal_config_t) cres" where
  "load_schema J fs c =
     (case (fs_stat fs (hal_schema_path c), fs_open fs (hal_schema_path c)) of
        (Some len, Some content) \<Rightarrow>
          (case jc_parse J (cstr (take len content)) of
             None \<Rightarrow> Inr (RETURN_ERR, c)
           | Some jparsed \<Rightarrow>
               (case member J (Some jparsed) ''definitions'' of
                  None \<Rightarrow> Inr (RETURN_ERR, c)
                | Some jdefinitions \<Rightarrow>
                    (case schema_const J (Some jdefinitions) ''schemaVersion'' of
                       None \<Rightarrow> Inr (RETURN_ERR, c)
                     | Some jversion \<Rightarrow>
                         ebind (strcpy 64 (jc_get_string J jversion)) (\<lambda>version.
                         let c1 = c\<lparr>hal_module_version := version\<rparr> in
                         (case schema_const J (Some jdefinitions) ''moduleName'' of
                            None \<Rightarrow> Inr (RETURN_ERR, c1)
                          | Some jname \<Rightarrow>
                              ebind (strcpy 64 (jc_get_string J jname)) (\<lambda>name.
                                Inr (RETURN_OK, c1\<lparr>hal_module_name := name\<rparr>)))))))
      | _ \<Rightarrow> Inr (RETURN_ERR, c))"

definition json_hal_load_config ::
  "'j json_c \<Rightarrow> files \<Rightarrow> string option \<Rightarrow> hal_config_t option \<Rightarrow> (int \<times> hal_config_t option) cres" where
  "json_hal_load_config J fs config_file config =
     (case (config_file, config) of
        (Some path, Some c) \<Rightarrow>
          (case fs_open fs path of
             None \<Rightarrow> Inr (RETURN_ERR, config)
           | Some content \<Rightarrow>
               ebind (read_buf BUF_256 (strncpy BUF_256 content)) (\<lambda>buffer.
               (case jc_parse J buffer of
                  None \<Rightarrow> Inr (RETURN_ERR, config)
                | Some parsed_json \<Rightarrow>
                    (case get_ex J (Some parsed_json) ''hal_schema_path'' of
                       None \<Rightarrow> Inr (RETURN_ERR, config)
                     | Some schema \<Rightarrow>
                         ebind (get_str J schema) (\<lambda>s.
                         ebind (strcpy 256 s) (\<lambda>schema_path.
                         let c1 = c\<lparr>hal_schema_path := schema_path\<rparr> in
                         (case get_ex J (Some parsed_json) ''server_port'' of
                            None \<Rightarrow> Inr (RETURN_ERR, Some c1)
                          | Some port \<Rightarrow>
                              ebind (load_schema J fs (c1\<lparr>server_port_number := jc_get_int J port\<rparr>))
                                (\<lambda>(rc, c2). Inr (rc, Some c2)))))))))
      | _ \<Rightarrow> Inr (RETURN_ERR, config))"

section \<open>Packing and unpacking agree\<close>

lemma show_nat_length: "n < 10 ^ Suc k \<Longrightarrow> length (show_nat n) \<le> Suc k"
proof (induction k arbitrary: n)
  case 0
  then show ?case by (subst show_nat.simps) simp
next
  case (Suc k)
  show ?case
  proof (cases "n < 10")
    case True
    then show ?thesis by (subst show_nat.simps) simp
  next
    case False
    from Suc.prems have "n div 10 < 10 ^ Suc k" by simp
    with Suc.IH have "length (show_nat (n div 10)) \<le> Suc k" by blast
    with False show ?thesis by (subst show_nat.simps) simp
  qed
qed

lemma show_int_length:
  assumes "long_range i"
  shows "length (show_int i) \<le> 20"
proof -
  from assms have "nat (- i) < 10 ^ Suc 18" "nat i < 10 ^ Suc 18"
    by (auto simp: long_range_def config_defs)
  then have "length (show_nat (nat (- i))) \<le> Suc 18" "length (show_nat (nat i)) \<le> Suc 18"
    by (blast intro: show_nat_length)+
  then show ?thesis by (simp add: show_int_def)
qed

lemma snprintf_show_int [simp]: "long_range i \<Longrightarrow> snprintf_value (show_int i) = show_int i"
  using show_int_length [of i] by (simp add: snprintf_value_def VALUE_SIZE_def)

lemma to_uint_long_range [simp]: "long_range (to_uint i)"
proof -
  have "0 \<le> i mod 4294967296" "i mod 4294967296 < 4294967296" by simp_all
  then show ?thesis unfolding to_uint_def long_range_def LONG_MAX_def LONG_MIN_def by linarith
qed

lemma atol_long_range [simp]: "long_range (atol s)"
  by (simp add: atol_def strtol_def long_range_def clamp_long_def Let_def config_defs)

lemma atoi_int_range [simp]: "int_range (atoi s)"
  by (simp add: atoi_def)

text \<open>What unpacking returns for a packed value.\<close>

definition canon_value :: "eParamType \<Rightarrow> string \<Rightarrow> string" where
  "canon_value t v =
     (case t of
        PARAM_BOOLEAN \<Rightarrow> if v \<in> {''true'', ''TRUE''} then ''1'' else ''0''
      | PARAM_INTEGER \<Rightarrow> show_int (atoi v)
      | PARAM_UNSIGNED_INTEGER \<Rightarrow> show_int (atoi v)
      | PARAM_LONG \<Rightarrow> show_int (atol v)
      | PARAM_UNSIGNED_LONG \<Rightarrow> show_int (to_uint (atol v))
      | _ \<Rightarrow> v)"

definition packable :: "eParamType \<Rightarrow> string \<Rightarrow> bool" where
  "packable t v \<longleftrightarrow> (t = PARAM_BOOLEAN \<longrightarrow> v \<in> {''true'', ''TRUE'', ''false'', ''FALSE''})"

lemma named_param_simps [simp]:
  assumes "json_c_ok J"
  shows "jc_type J (named_param J n) = json_type_object"
    and "jc_object_get_ex J (named_param J n) k =
         (if k = JSON_RPC_FIELD_PARAM_NAME then Some (Some (jc_new_string J n)) else None)"
  using assms by (simp_all add: named_param_def)

lemma typed_param_simps [simp]:
  assumes "json_c_ok J" and "jc_type J q = json_type_object"
  shows "jc_object_get_ex J (typed_param J q t v) k =
     (if k = JSON_RPC_FIELD_PARAM_VALUE then Some (Some v)
      else if k = JSON_RPC_FIELD_PARAM_TYPE then Some (Some (jc_new_string J t))
      else jc_object_get_ex J q k)"
  using assms by (simp add: typed_param_def)

text \<open>The type names the packing side writes select their own branch.\<close>

lemma get_typed_value_names:
  "get_typed_value J q JSON_RPC_FIELD_TYPE_STRING p = get_text_value J q PARAM_STRING p"
  "get_typed_value J q JSON_RPC_FIELD_TYPE_HEX_BINARY p = get_text_value J q PARAM_HEXBINARY p"
  "get_typed_value J q JSON_RPC_FIELD_TYPE_BASE64 p = get_text_value J q PARAM_BASE64 p"
  "get_typed_value J q JSON_RPC_FIELD_TYPE_BOOLEAN p =
     get_scalar_value J q PARAM_BOOLEAN (\<lambda>v. show_int (if jc_get_boolean J v then 1 else 0)) p"
  "get_typed_value J q JSON_RPC_FIELD_TYPE_INTEGER p =
     get_scalar_value J q PARAM_INTEGER (\<lambda>v. show_int (jc_get_int J v)) p"
  "get_typed_value J q JSON_RPC_FIELD_TYPE_UNSIGNED_INTEGER p =
     get_scalar_value J q PARAM_UNSIGNED_INTEGER (\<lambda>v. show_int (to_int (to_uint (jc_get_int J v)))) p"
  "get_typed_value J q JSON_RPC_FIELD_TYPE_LONG p =
     get_scalar_value J q PARAM_LONG (\<lambda>v. show_int (jc_get_int64 J v)) p"
  "get_typed_value J q JSON_RPC_FIELD_TYPE_UNSIGNED_LONG p =
     get_scalar_value J q PARAM_UNSIGNED_LONG (\<lambda>v. show_int (jc_get_int64 J v)) p"
  by (simp_all only: get_typed_value_def starts_with_simps) simp_all

lemma get_param_fields_set:
  assumes "json_c_ok J" and "jc_type J q0 = json_type_object"
    and "jc_object_get_ex J q0 JSON_RPC_FIELD_PARAM_NAME = Some (Some (jc_new_string J n))"
    and "nul_free n" and "length n < NAME_SIZE" and "nul_free t"
  shows "get_param_fields J (Some (typed_param J q0 t v)) SET_REQUEST_MESSAGE p =
    get_typed_value J (Some (typed_param J q0 t v)) t (p\<lparr>hp_name := n\<rparr>)"
  using assms by (simp add: get_param_fields_def get_param_name_def)

lemma get_value_typed:
  assumes "json_c_ok J" and "jc_type J q0 = json_type_object"
  shows "nul_free s \<Longrightarrow> length s < VALUE_SIZE \<Longrightarrow>
      get_text_value J (Some (typed_param J q0 t (jc_new_string J s))) ty p =
        Inr (RETURN_OK, p\<lparr>hp_value := s, hp_type := Some ty\<rparr>)"
    and "get_scalar_value J (Some (typed_param J q0 t v)) ty pr p =
        Inr (RETURN_OK, p\<lparr>hp_value := snprintf_value (pr (Some v)), hp_type := Some ty\<rparr>)"
  using assms by (simp_all add: get_text_value_def get_scalar_value_def)

lemma snprintf_bool: "snprintf_value (show_int 1) = ''1''" "snprintf_value (show_int 0) = ''0''"
  by (simp_all add: show_int_def snprintf_value_def VALUE_SIZE_def)

lemma pack_bool:
  "pack_value J q0 PARAM_BOOLEAN v = Some q \<Longrightarrow>
   q = typed_param J q0 JSON_RPC_FIELD_TYPE_BOOLEAN (jc_new_boolean J (v = ''true'' \<or> v = ''TRUE''))"
  by (simp only: pack_value_def strcmp_eq_def eParamType.case split: if_split_asm) simp_all

lemma pack_value_unpack_set:
  assumes J: "json_c_ok J" and q: "pack_value J (named_param J n) t v = Some q"
    and "nul_free n" and "nul_free v" and "length n < NAME_SIZE" and "length v < VALUE_SIZE"
  shows "get_param_fields J (Some q) SET_REQUEST_MESSAGE p =
    Inr (RETURN_OK, p\<lparr>hp_name := n, hp_value := canon_value t v, hp_type := Some t\<rparr>)"
proof -
  have name: "jc_object_get_ex J (named_param J n) JSON_RPC_FIELD_PARAM_NAME = Some (Some (jc_new_string J n))"
    using J by simp
  note fields = get_param_fields_set [OF J named_param_simps(1) [OF J] name assms(3,5)]
  note vals = get_value_typed [OF J named_param_simps(1) [OF J]]
  have bool: "get_param_fields J (Some (typed_param J (named_param J n) JSON_RPC_FIELD_TYPE_BOOLEAN
      (jc_new_boolean J b))) SET_REQUEST_MESSAGE p =
      Inr (RETURN_OK, p\<lparr>hp_name := n, hp_value := (if b then ''1'' else ''0''), hp_type := Some PARAM_BOOLEAN\<rparr>)" for b
    using J by (simp add: fields vals get_typed_value_names snprintf_bool del: typed_param_simps)
  show ?thesis
  proof (cases "t = PARAM_BOOLEAN")
    case True
    with q have "q = typed_param J (named_param J n) JSON_RPC_FIELD_TYPE_BOOLEAN
        (jc_new_boolean J (v = ''true'' \<or> v = ''TRUE''))" by (simp only: pack_bool)
    then show ?thesis using True by (simp only: bool canon_value_def eParamType.case insert_iff empty_iff simp_thms)
  next
    case False
    with q J assms(4,6) show ?thesis
      by (cases t)
        (auto simp: pack_value_def canon_value_def fields vals get_typed_value_names int_long_range
          simp del: typed_param_simps)
  qed
qed

lemma pack_value_unpack:
  assumes "json_c_ok J" and "pack_value J (named_param J n) t v = Some q"
    and "nul_free n" and "nul_free v" and "length n < NAME_SIZE" and "length v < VALUE_SIZE"
    and "action = SET_REQUEST_MESSAGE \<or> action = GET_RESPONSE_MESSAGE"
  shows "get_param_fields J (Some q) action p =
    Inr (RETURN_OK, p\<lparr>hp_name := n, hp_value := canon_value t v, hp_type := Some t\<rparr>)"
proof -
  have "get_param_fields J (Some q) action p = get_param_fields J (Some q) SET_REQUEST_MESSAGE p"
    using assms(7) by (auto simp: get_param_fields_def)
  with pack_value_unpack_set [OF assms(1-6)] show ?thesis by simp
qed

lemma pack_value_packable:
  "packable t v \<Longrightarrow> \<exists>q. pack_value J q0 t v = Some q"
  by (cases t) (auto simp: packable_def pack_value_def strcmp_eq_def)

text \<open>Reading the message after the array member was extended.\<close>

lemma get_param_extended:
  assumes "json_c_ok J" and "jc_object_get_ex J r JSON_RPC_FIELD_PARAMS = Some (Some a)"
    and "jc_type J a = json_type_array"
  shows "json_hal_get_param J (Some (jc_update_member J r JSON_RPC_FIELD_PARAMS (jc_array_add J a q))) i act (Some x) =
    (if i = int (jc_array_length J a)
     then ebind (get_param_fields J (Some q) act zero_param) (\<lambda>(rc, p). Inr (rc, Some p))
     else json_hal_get_param J (Some r) i act (Some x))"
  using assms by (simp add: json_hal_get_param_def update_member_simps)

lemma add_param_appends:
  assumes "json_c_ok J" and "jc_object_get_ex J r JSON_RPC_FIELD_PARAMS = Some (Some a)"
    and "jc_type J a = json_type_array" and "wf_param p" and "hp_type p = Some t"
    and "pack_value J (named_param J (hp_name p)) t (hp_value p) = Some q"
    and "act = SET_REQUEST_MESSAGE \<or> act = GET_RESPONSE_MESSAGE"
  shows "json_hal_add_param J (Some r) act (Some p) =
    Inr (RETURN_OK, Some (jc_update_member J r JSON_RPC_FIELD_PARAMS (jc_array_add J a q)))"
  using assms by (auto simp: json_hal_add_param_def wf_param_def pack_param_def arr_put_end_array)

lemma add_get_param:
  assumes "json_c_ok J" and "jc_object_get_ex J r JSON_RPC_FIELD_PARAMS = Some (Some a)"
    and "jc_type J a = json_type_array" and "wf_param p" and "hp_type p = Some t"
    and "packable t (hp_value p)"
    and "act = SET_REQUEST_MESSAGE \<or> act = GET_RESPONSE_MESSAGE"
  shows "\<exists>r'. json_hal_add_param J (Some r) act (Some p) = Inr (RETURN_OK, Some r')
    \<and> json_hal_get_param J (Some r') (int (jc_array_length J a)) act (Some x) =
        Inr (RETURN_OK, Some \<lparr>hp_name = hp_name p, hp_value = canon_value t (hp_value p), hp_type = Some t\<rparr>)
    \<and> (\<forall>i. i \<noteq> int (jc_array_length J a) \<longrightarrow>
        json_hal_get_param J (Some r') i act (Some x) = json_hal_get_param J (Some r) i act (Some x))"
proof -
  obtain q where q: "pack_value J (named_param J (hp_name p)) t (hp_value p) = Some q"
    by (rule exE [OF pack_value_packable [OF assms(6)]])
  let ?r' = "jc_update_member J r JSON_RPC_FIELD_PARAMS (jc_array_add J a q)"
  have "get_param_fields J (Some q) act zero_param =
      Inr (RETURN_OK, \<lparr>hp_name = hp_name p, hp_value = canon_value t (hp_value p), hp_type = Some t\<rparr>)"
    using pack_value_unpack [OF assms(1) q] assms(4,7) by (simp add: wf_param_def zero_param_def)
  with add_param_appends [OF assms(1-5) q assms(7)] get_param_extended [OF assms(1-3)]
  show ?thesis by (intro exI [of _ ?r']) simp
qed

text \<open>
  C16: packing and unpacking agree. A well-formed parameter that is packed into a message
  with a \<^verbatim>\<open>params\<close> array of length \<open>n\<close> is accepted, and unpacking index \<open>n\<close> of
  the result gives back its name, its type and its value in canonical form (text unchanged,
  numbers as \<^verbatim>\<open>atoi\<close>/\<^verbatim>\<open>atol\<close> read them, booleans as 1 or 0), whatever the output
  structure held before; every other index unpacks as it did before.
\<close>

theorem add_get_param_roundtrip:
  assumes "json_c_ok J" and "jc_object_get_ex J r JSON_RPC_FIELD_PARAMS = Some (Some a)"
    and "jc_type J a = json_type_array" and "wf_param p" and "hp_type p = Some t"
    and "packable t (hp_value p)"
    and "act = SET_REQUEST_MESSAGE \<or> act = GET_RESPONSE_MESSAGE"
  shows "\<exists>r'. json_hal_add_param J (Some r) act (Some p) = Inr (RETURN_OK, Some r')
    \<and> json_hal_get_param J (Some r') (int (jc_array_length J a)) act (Some x) =
        Inr (RETURN_OK, Some \<lparr>hp_name = hp_name p, hp_value = canon_value t (hp_value p), hp_type = Some t\<rparr>)
    \<and> (\<forall>i. i \<noteq> int (jc_array_length J a) \<longrightarrow>
        json_hal_get_param J (Some r') i act (Some x) = json_hal_get_param J (Some r) i act (Some x))"
  using assms by (rule add_get_param)

definition example_params :: json where
  "example_params = JObject [(JSON_RPC_FIELD_PARAMS, Some (JArray []))]"

definition no_text :: "json json_c" where
  "no_text = tree_json (\<lambda>_. None) (\<lambda>_. None)"

lemma no_text_ok [simp]: "json_c_ok no_text"
  by (simp add: no_text_def)

theorem add_get_param_roundtrip_witness:
  "\<exists>r'. json_hal_add_param no_text (Some example_params) SET_REQUEST_MESSAGE
      (Some \<lparr>hp_name = ''Device.X'', hp_value = '' -17z'', hp_type = Some PARAM_INTEGER\<rparr>) = Inr (RETURN_OK, Some r')
    \<and> json_hal_get_param no_text (Some r') 0 SET_REQUEST_MESSAGE (Some zero_param) =
        Inr (RETURN_OK, Some \<lparr>hp_name = ''Device.X'', hp_value = ''-17'', hp_type = Some PARAM_INTEGER\<rparr>)"
proof -
  let ?p = "\<lparr>hp_name = ''Device.X'', hp_value = '' -17z'', hp_type = Some PARAM_INTEGER\<rparr>"
  have a: "jc_object_get_ex no_text example_params JSON_RPC_FIELD_PARAMS = Some (Some (JArray []))"
    "jc_type no_text (JArray []) = json_type_array" "jc_array_length no_text (JArray []) = 0"
    by (simp_all add: no_text_def tree_json_def example_params_def)
  have p: "wf_param ?p" "hp_type ?p = Some PARAM_INTEGER" "packable PARAM_INTEGER (hp_value ?p)"
    by (simp_all add: wf_param_def packable_def config_defs)
  have v: "canon_value PARAM_INTEGER '' -17z'' = ''-17''" by (simp add: canon_value_def number_eval)
  show ?thesis
    using add_get_param_roundtrip [OF no_text_ok a(1,2) p, of SET_REQUEST_MESSAGE zero_param] a(3) v
    by auto
qed

lemma canon_value_numbers:
  "(int_range i \<longrightarrow> canon_value PARAM_INTEGER (show_int i) = show_int i
      \<and> canon_value PARAM_UNSIGNED_INTEGER (show_int i) = show_int i)
   \<and> (long_range i \<longrightarrow> canon_value PARAM_LONG (show_int i) = show_int i
      \<and> canon_value PARAM_UNSIGNED_LONG (show_int i) = show_int (i mod 2 ^ 32)
      \<and> (canon_value PARAM_UNSIGNED_LONG (show_int i) = show_int i \<longleftrightarrow> 0 \<le> i \<and> i < 2 ^ 32))"
proof -
  have "show_int (i mod 4294967296) = show_int i \<longleftrightarrow> 0 \<le> i \<and> i < 4294967296" if "long_range i"
  proof
    assume "show_int (i mod 4294967296) = show_int i"
    then have "i mod 4294967296 = i"
      using that to_uint_long_range [of i] by (auto simp: to_uint_def dest: show_int_inject)
    then show "0 \<le> i \<and> i < 4294967296"
      by (metis pos_mod_bound pos_mod_sign zero_less_numeral)
  qed simp
  then show ?thesis by (simp add: canon_value_def to_uint_def)
qed



text \<open>
  A boolean does not survive a second round. What unpacking returns for any boolean is a
  text that packing refuses with \<open>RETURN_ERR\<close>, leaving the message as it was.
\<close>

theorem unpacked_boolean_not_packable:
  assumes "jc_object_get_ex J r JSON_RPC_FIELD_PARAMS = Some params"
    and "get_scalar_value J jparam PARAM_BOOLEAN (\<lambda>v. show_int (if jc_get_boolean J v then 1 else 0)) zero_param =
      Inr (rc, p)"
    and "length n < NAME_SIZE"
  shows "json_hal_add_param J (Some r) SET_REQUEST_MESSAGE (Some (p\<lparr>hp_name := n\<rparr>)) = Inr (RETURN_ERR, Some r)"
proof -
  have t: "hp_type p = Some PARAM_BOOLEAN" and v: "hp_value p = [] \<or> hp_value p = ''0'' \<or> hp_value p = ''1''"
    using assms(2) by (auto simp: get_scalar_value_def zero_param_def snprintf_bool split: option.splits)
  have "pack_value J q PARAM_BOOLEAN (hp_value p) = None" for q
    using v by (elim disjE) (simp_all add: pack_value_def strcmp_eq_def)
  moreover have "length (hp_value p) < VALUE_SIZE" using v by (auto simp: VALUE_SIZE_def)
  ultimately show ?thesis
    using assms(1,3) t by (simp add: json_hal_add_param_def pack_param_def)
qed

theorem unpacked_boolean_not_packable_witness:
  "json_hal_add_param no_text (Some example_params) SET_REQUEST_MESSAGE
     (Some \<lparr>hp_name = ''Enable'', hp_value = ''1'', hp_type = Some PARAM_BOOLEAN\<rparr>) =
   Inr (RETURN_ERR, Some example_params)"
proof -
  let ?q = "JObject [(JSON_RPC_FIELD_PARAM_VALUE, Some (JBool True))]"
  have a: "jc_object_get_ex no_text example_params JSON_RPC_FIELD_PARAMS = Some (Some (JArray []))"
    by (simp add: no_text_def tree_json_def example_params_def)
  have b: "get_scalar_value no_text (Some ?q) PARAM_BOOLEAN
      (\<lambda>v. show_int (if jc_get_boolean no_text v then 1 else 0)) zero_param =
      Inr (RETURN_OK, \<lparr>hp_name = [], hp_value = ''1'', hp_type = Some PARAM_BOOLEAN\<rparr>)"
    by (simp add: get_scalar_value_def no_text_def tree_json_def zero_param_def snprintf_bool)
  have c: "length ''Enable'' < NAME_SIZE" by (simp add: NAME_SIZE_def)
  show ?thesis
    using unpacked_boolean_not_packable [OF a b c] by simp
qed

section \<open>Loading the configuration\<close>

lemma load_schema_wf:
  assumes "wf_config c" and "load_schema J fs c = Inr (rc, c')"
  shows "wf_config c' \<and> hal_schema_path c' = hal_schema_path c
    \<and> server_port_number c' = server_port_number c
    \<and> (rc = RETURN_OK \<or> rc = RETURN_ERR)
    \<and> (rc = RETURN_OK \<longrightarrow> fs_stat fs (hal_schema_path c) \<noteq> None \<and> fs_open fs (hal_schema_path c) \<noteq> None)"
  using assms
  by (auto simp: load_schema_def result_simps strcpy_Inr_iff wf_config_def Let_def
      split: option.splits)

lemma load_config_keeps_wf:
  assumes "wf_config c" and "json_hal_load_config J fs (Some path) (Some c) = Inr (rc, r)"
  shows "\<exists>c'. r = Some c' \<and> wf_config c' \<and> (rc = RETURN_OK \<or> rc = RETURN_ERR)
    \<and> (rc = RETURN_OK \<longrightarrow> fs_open fs path \<noteq> None \<and> fs_stat fs (hal_schema_path c') \<noteq> None
        \<and> fs_open fs (hal_schema_path c') \<noteq> None)"
  using assms
  by (auto simp: json_hal_load_config_def result_simps strcpy_Inr_iff Let_def wf_config_def
      split: option.splits dest!: load_schema_wf [rotated])

text \<open>
  C32: what loading a configuration does, sizes included. Let the configuration file hold a JSON
  object with a schema path and a port, and let the schema file it names hold a version and a module name. If the
  configuration file has fewer than 256 bytes, the path fewer than 256, and version and name fewer than 64
  characters, the call succeeds and the structure holds exactly these four values, its other field
  unchanged. A longer configuration file is read beyond the end of the buffer, and a longer path, version or name is
  written beyond the end of its array.
\<close>

theorem load_config_outcome:
  assumes "fs_open fs path = Some content" and "jc_parse J (cstr content) = Some jc"
    and "jc_object_get_ex J jc ''hal_schema_path'' = Some (Some js)" and "jc_object_get_ex J jc ''server_port'' = Some jp"
    and "sp = cstr (jc_get_string J js)" and "fs_stat fs sp = Some n" and "fs_open fs sp = Some text"
    and "jc_parse J (cstr (take n text)) = Some jd" and "member J (Some jd) ''definitions'' = Some d"
    and "schema_const J (Some d) ''schemaVersion'' = Some jv" and "schema_const J (Some d) ''moduleName'' = Some jm"
    and "version = cstr (jc_get_string J jv)" and "name = cstr (jc_get_string J jm)"
  shows "json_hal_load_config J fs (Some path) (Some c) =
    (if 256 \<le> length (cstr content) then Inl Unterminated
     else if 256 \<le> length sp \<or> 64 \<le> length version \<or> 64 \<le> length name then Inl Buffer_Overflow
     else Inr (RETURN_OK, Some (c\<lparr>hal_schema_path := sp, server_port_number := jc_get_int J jp,
            hal_module_version := version, hal_module_name := name\<rparr>)))"
proof (cases "256 \<le> length (cstr content)")
  case True
  with assms(1) show ?thesis by (simp add: json_hal_load_config_def read_strncpy)
next
  case False
  let ?c = "c\<lparr>hal_schema_path := sp, server_port_number := jc_get_int J jp\<rparr>"
  have "load_schema J fs ?c = (if 64 \<le> length version \<or> 64 \<le> length name then Inl Buffer_Overflow
      else Inr (RETURN_OK, ?c\<lparr>hal_module_version := version, hal_module_name := name\<rparr>))"
    using assms(6-13) by (simp add: load_schema_def strcpy_def Let_def)
  with False assms(1-5) show ?thesis
    by (simp add: json_hal_load_config_def read_strncpy strcpy_def Let_def)
qed

definition example_files :: files where
  "example_files = \<lparr>fs_stat = (\<lambda>p. if p = ''s.json'' then Some 1 else None),
     fs_open = (\<lambda>p. if p = ''c.json'' then Some ''c'' else if p = ''s.json'' then Some ''s'' else None)\<rparr>"

definition example_read :: "string \<Rightarrow> json option" where
  "example_read s =
    (if s = ''c'' then Some (JObject [(''hal_schema_path'', Some (JString ''s.json'')), (''server_port'', Some (JInt 40100))])
     else if s = ''s'' then Some (JObject [(''definitions'', Some (JObject
       [(''schemaVersion'', Some (JObject [(''const'', Some (JString ''0.0.1''))])),
        (''moduleName'', Some (JObject [(''const'', Some (JString ''xdslhal''))]))]))])
     else None)"

definition example_config_json :: "json json_c" where
  "example_config_json = tree_json (\<lambda>_. None) example_read"

definition example_config :: hal_config_t where
  "example_config = zero_config\<lparr>hal_module_name := ''xdslhal'', hal_module_version := ''0.0.1'',
     hal_schema_path := ''s.json'', server_port_number := 40100\<rparr>"

lemma example_config_read:
  assumes "read ''c'' = example_read ''c''" and "read ''s'' = example_read ''s''"
  shows "json_hal_load_config (tree_json pr read) example_files (Some ''c.json'') (Some zero_config) =
   Inr (RETURN_OK, Some example_config)"
proof -
  have s: "load_schema (tree_json pr read) example_files
      (zero_config\<lparr>hal_schema_path := ''s.json'', server_port_number := 40100\<rparr>) = Inr (RETURN_OK, example_config)"
    by (simp add: load_schema_def assms example_read_def tree_json_def example_files_def
        example_config_def zero_config_def member_def schema_const_def Let_def)
  show ?thesis
    using s by (simp add: json_hal_load_config_def assms example_read_def tree_json_def example_files_def
        zero_config_def Let_def)
qed

lemma example_config_loads:
  "json_hal_load_config example_config_json example_files (Some ''c.json'') (Some zero_config) =
   Inr (RETURN_OK, Some example_config)"
  by (simp add: example_config_json_def example_config_read)

theorem load_config_outcome_witness:
  "json_hal_load_config example_config_json example_files (Some ''c.json'') (Some zero_config) =
     Inr (RETURN_OK, Some (zero_config\<lparr>hal_schema_path := ''s.json'', server_port_number := 40100,
       hal_module_version := ''0.0.1'', hal_module_name := ''xdslhal''\<rparr>))"
proof -
  let ?J = example_config_json
  let ?d = "JObject [(''schemaVersion'', Some (JObject [(''const'', Some (JString ''0.0.1''))])),
        (''moduleName'', Some (JObject [(''const'', Some (JString ''xdslhal''))]))]"
  let ?c = "JObject [(''hal_schema_path'', Some (JString ''s.json'')), (''server_port'', Some (JInt 40100))]"
  have files: "fs_open example_files ''c.json'' = Some ''c''" "fs_stat example_files ''s.json'' = Some 1"
    "fs_open example_files ''s.json'' = Some ''s''" by (simp_all add: example_files_def)
  have conf: "jc_parse ?J ''c'' = Some ?c" "jc_object_get_ex ?J ?c ''hal_schema_path'' = Some (Some (JString ''s.json''))"
    "jc_object_get_ex ?J ?c ''server_port'' = Some (Some (JInt 40100))" "jc_get_int ?J (Some (JInt 40100)) = 40100"
    by (simp_all add: example_config_json_def tree_json_def example_read_def)
  have schema: "jc_parse ?J ''s'' = Some (JObject [(''definitions'', Some ?d)])"
    "member ?J (Some (JObject [(''definitions'', Some ?d)])) ''definitions'' = Some ?d"
    "schema_const ?J (Some ?d) ''schemaVersion'' = Some (JString ''0.0.1'')" "schema_const ?J (Some ?d) ''moduleName'' = Some (JString ''xdslhal'')"
    by (simp_all add: example_config_json_def tree_json_def example_read_def member_def schema_const_def)
  have str: "jc_get_string ?J (JString s) = s" for s by (simp add: example_config_json_def tree_json_def)
  show ?thesis
    using load_config_outcome [OF files(1) _ conf(2,3) HOL.refl _ _ _ schema(2-4) HOL.refl HOL.refl, of 1 "''s''" zero_config]
      files(2,3) conf(1,4) schema(1) by (simp add: str)
qed

end
