(* ===== verification/Tcp_Send.thy ===== *)
theory Tcp_Send
  imports Rpc_Common
begin

text \<open>
  Sending a message over a socket: \<^verbatim>\<open>json_rpc_server_send_data\<close> of
  \<^verbatim>\<open>tcp_server.c\<close> and \<^verbatim>\<open>json_rpc_client_send_data\<close> of \<^verbatim>\<open>tcp_client.c\<close>,
  which share one loop. The operating system is a parameter: \<open>os_send\<close> takes the state of
  the outside world, a descriptor and the bytes handed over, and returns the result of
  \<^verbatim>\<open>send\<close> and the new state. Next to the return code the model returns the final
  value of \<^verbatim>\<open>total_bytes_sent\<close>, the number of bytes the system has taken.
\<close>

record 'w os =
  os_send :: "'w \<Rightarrow> int \<Rightarrow> string \<Rightarrow> int \<times> 'w"

section \<open>The loop\<close>

text \<open>
  Each turn offers the \<open>left\<close> bytes from offset \<open>sent\<close>. A \<^verbatim>\<open>send\<close> that takes no
  byte and reports no error would repeat the turn, so the loop carries fuel; running out
  is \<open>No_Return\<close>. One unit per byte is enough (\<open>send_loop_total\<close>).
\<close>

fun send_loop :: "nat \<Rightarrow> 'w os \<Rightarrow> 'w \<Rightarrow> int \<Rightarrow> string \<Rightarrow> int \<Rightarrow> int \<Rightarrow> (int \<times> int \<times> 'w) cres" where
  "send_loop 0 os w fd buffer sent left = Inl No_Return"
| "send_loop (Suc fuel) os w fd buffer sent left =
     (if sent < left
      then (let (ret, w') = os_send os w fd (take (nat left) (drop (nat sent) buffer)) in
            if ret = RETURN_ERR then Inr (RETURN_ERR, sent, w')
            else send_loop fuel os w' fd buffer (sent + ret) (left - ret))
      else Inr (RETURN_OK, sent, w))"

definition json_rpc_server_send_data ::
  "'w os \<Rightarrow> 'w \<Rightarrow> int \<Rightarrow> string option \<Rightarrow> (int \<times> int \<times> 'w) cres" where
  "json_rpc_server_send_data os w sockfd buffer =
     (case buffer of
        None \<Rightarrow> Inr (RETURN_ERR, 0, w)
      | Some b \<Rightarrow> send_loop (Suc (length (cstr b))) os w sockfd (cstr b) 0 (int (length (cstr b))))"

definition json_rpc_client_send_data ::
  "'w os \<Rightarrow> 'w \<Rightarrow> int \<Rightarrow> string option \<Rightarrow> (int \<times> int \<times> 'w) cres" where
  "json_rpc_client_send_data os w sockfd buffer =
     (case buffer of
        None \<Rightarrow> Inr (RETURN_ERR, 0, w)
      | Some b \<Rightarrow> send_loop (Suc (length (cstr b))) os w sockfd (cstr b) 0 (int (length (cstr b))))"

text \<open>The documented behaviour of \<^verbatim>\<open>send\<close> on a non-empty message: \<open>-1\<close>, or the
  number of bytes taken, at least one and at most all.\<close>

definition send_documented :: "'w os \<Rightarrow> bool" where
  "send_documented os \<longleftrightarrow> (\<forall>w fd d. d \<noteq> [] \<longrightarrow>
     fst (os_send os w fd d) = -1
     \<or> (0 < fst (os_send os w fd d) \<and> fst (os_send os w fd d) \<le> int (length d)))"

lemma send_documentedD:
  assumes "send_documented os" and "d \<noteq> []" and "os_send os w fd d = (ret, w')"
  shows "ret = RETURN_ERR \<or> (0 < ret \<and> ret \<le> int (length d))"
  using assms unfolding send_documented_def RETURN_ERR_def by (metis fst_conv)

section \<open>What the loop guarantees\<close>

text \<open>The number of bytes sent and left always add up to the length of the message, so no
  byte outside it is offered; when the loop ends normally, at least half was taken.\<close>

lemma send_loop_total:
  assumes "send_documented os" and "0 \<le> sent" and "0 \<le> left"
    and "sent + left = int (length buffer)" and "nat left < fuel"
  shows "\<exists>rc n w'. send_loop fuel os w fd buffer sent left = Inr (rc, n, w')
    \<and> (rc = RETURN_OK \<or> rc = RETURN_ERR) \<and> sent \<le> n \<and> n \<le> int (length buffer)
    \<and> (rc = RETURN_OK \<longrightarrow> int (length buffer) \<le> 2 * n)"
  using assms
proof (induction fuel arbitrary: w sent left)
  case (Suc fuel)
  show ?case
  proof (cases "sent < left")
    case False
    then show ?thesis using Suc.prems by simp
  next
    case True
    let ?d = "take (nat left) (drop (nat sent) buffer)"
    obtain ret w' where send: "os_send os w fd ?d = (ret, w')" by (cases "os_send os w fd ?d")
    have len: "int (length ?d) = left" using Suc.prems by simp
    then have "?d \<noteq> []" using True Suc.prems(2) by auto
    from send_documentedD [OF Suc.prems(1) this send] len
    consider "ret = RETURN_ERR" | "ret \<noteq> RETURN_ERR" "0 < ret" "ret \<le> left" by auto
    then show ?thesis
    proof cases
      case 1
      then show ?thesis using True send Suc.prems by simp
    next
      case 2
      then have "\<exists>rc n w''. send_loop fuel os w' fd buffer (sent + ret) (left - ret) = Inr (rc, n, w'')
          \<and> (rc = RETURN_OK \<or> rc = RETURN_ERR) \<and> sent + ret \<le> n \<and> n \<le> int (length buffer)
          \<and> (rc = RETURN_OK \<longrightarrow> int (length buffer) \<le> 2 * n)"
        using Suc.prems by (intro Suc.IH) auto
      then obtain rc n w'' where "send_loop fuel os w' fd buffer (sent + ret) (left - ret) = Inr (rc, n, w'')"
        "rc = RETURN_OK \<or> rc = RETURN_ERR" "sent + ret \<le> n" "n \<le> int (length buffer)"
        "rc = RETURN_OK \<longrightarrow> int (length buffer) \<le> 2 * n" by blast
      with 2 True send show ?thesis by simp
    qed
  qed
qed simp

section \<open>The sender interface\<close>

text \<open>What the HAL libraries rely on: a call always returns, a NULL message is refused, the
  code is one of the two, and success means that at least half of the message was taken.\<close>

locale message_sender =
  fixes send_data :: "'w os \<Rightarrow> 'w \<Rightarrow> int \<Rightarrow> string option \<Rightarrow> (int \<times> int \<times> 'w) cres"
  assumes send_null: "send_data os w fd None = Inr (RETURN_ERR, 0, w)"
    and send_total: "send_documented os \<Longrightarrow> \<exists>rc n w'. send_data os w fd (Some b) = Inr (rc, n, w')
      \<and> (rc = RETURN_OK \<or> rc = RETURN_ERR) \<and> 0 \<le> n \<and> n \<le> int (length (cstr b))
      \<and> (rc = RETURN_OK \<longrightarrow> int (length (cstr b)) \<le> 2 * n)"
    and send_whole: "cstr b \<noteq> [] \<Longrightarrow> os_send os w fd (cstr b) = (int (length (cstr b)), w') \<Longrightarrow>
      send_data os w fd (Some b) = Inr (RETURN_OK, int (length (cstr b)), w')"
begin

lemma send_returns: "send_documented os \<Longrightarrow> \<exists>rc n w'. send_data os w fd m = Inr (rc, n, w')"
  using send_null send_total by (cases m) blast+

lemma send_code:
  assumes "send_documented os" and "send_data os w fd m = Inr (rc, n, w')"
  shows "rc = RETURN_OK \<or> rc = RETURN_ERR"
proof (cases m)
  case None
  with assms send_null show ?thesis by simp
next
  case (Some b)
  with send_total [OF assms(1), of w fd b] assms(2) show ?thesis by auto
qed

end

lemma send_loop_whole:
  assumes "b \<noteq> []" and "os_send os w fd b = (int (length b), w')"
  shows "send_loop (Suc (length b)) os w fd b 0 (int (length b)) = Inr (RETURN_OK, int (length b), w')"
proof (cases b)
  case (Cons c s)
  then show ?thesis using assms by (simp add: RETURN_ERR_def)
qed (use assms in simp)

interpretation server_send: message_sender json_rpc_server_send_data
proof unfold_locales
  fix os :: "'a os" and w fd b
  assume "send_documented os"
  from send_loop_total [OF this, of 0 "int (length (cstr b))" "cstr b" "Suc (length (cstr b))" w fd]
  show "\<exists>rc n w'. json_rpc_server_send_data os w fd (Some b) = Inr (rc, n, w')
      \<and> (rc = RETURN_OK \<or> rc = RETURN_ERR) \<and> 0 \<le> n \<and> n \<le> int (length (cstr b))
      \<and> (rc = RETURN_OK \<longrightarrow> int (length (cstr b)) \<le> 2 * n)"
    by (simp add: json_rpc_server_send_data_def)
qed (simp_all add: json_rpc_server_send_data_def send_loop_whole del: send_loop.simps)

lemma client_send_eq: "json_rpc_client_send_data = json_rpc_server_send_data"
  by (intro ext) (simp add: json_rpc_client_send_data_def json_rpc_server_send_data_def)

interpretation client_send: message_sender json_rpc_client_send_data
  unfolding client_send_eq by (rule server_send.message_sender_axioms)

lemma send_stops_early:
  assumes "os_send os w fd (cstr b) = (k, w')" and "0 < k" and "k < int (length (cstr b))"
    and "int (length (cstr b)) \<le> 2 * k"
  shows "json_rpc_server_send_data os w fd (Some b) = Inr (RETURN_OK, k, w')"
proof -
  have "cstr b \<noteq> []" using assms(2,3) by auto
  then obtain c s where "cstr b = c # s" by (cases "cstr b") auto
  then show ?thesis using assms by (simp add: json_rpc_server_send_data_def RETURN_ERR_def)
qed

text \<open>
  C31: sending a message always ends, and success does not mean that it was sent. If
  \<^verbatim>\<open>send\<close> behaves as documented, both send routines return for every message: with
  \<open>RETURN_ERR\<close>, or with \<open>RETURN_OK\<close> after the system has taken at least half of the message
  and never more than the message. When the first \<^verbatim>\<open>send\<close> takes \<open>k\<close> bytes, at least half
  of the message but not all of it, the loop stops there, because it compares the bytes sent with
  the bytes left: the routine reports \<open>RETURN_OK\<close> with \<open>k\<close> bytes sent and never offers the rest.
\<close>

theorem send_data_returns:
  assumes "send_documented os"
  shows "\<exists>rc n w'. json_rpc_server_send_data os w fd (Some b) = Inr (rc, n, w')
      \<and> json_rpc_client_send_data os w fd (Some b) = Inr (rc, n, w')
      \<and> (rc = RETURN_OK \<or> rc = RETURN_ERR) \<and> 0 \<le> n \<and> n \<le> int (length (cstr b))
      \<and> (rc = RETURN_OK \<longrightarrow> int (length (cstr b)) \<le> 2 * n)
      \<and> (\<forall>k w1. os_send os w fd (cstr b) = (k, w1) \<and> 0 < k \<and> k < int (length (cstr b)) \<and> int (length (cstr b)) \<le> 2 * k
          \<longrightarrow> rc = RETURN_OK \<and> n = k \<and> w' = w1)"
proof -
  obtain rc n w' where r: "json_rpc_server_send_data os w fd (Some b) = Inr (rc, n, w')"
    "rc = RETURN_OK \<or> rc = RETURN_ERR" "0 \<le> n" "n \<le> int (length (cstr b))"
    "rc = RETURN_OK \<longrightarrow> int (length (cstr b)) \<le> 2 * n"
    using server_send.send_total [OF assms, of w fd b] by blast
  have "rc = RETURN_OK \<and> n = k \<and> w' = w1"
    if "os_send os w fd (cstr b) = (k, w1)" "0 < k" "k < int (length (cstr b))" "int (length (cstr b)) \<le> 2 * k" for k w1
    using send_stops_early [OF that] r(1) by simp
  with r show ?thesis by (auto simp: client_send_eq)
qed

text \<open>An operating system that takes at most \<open>k\<close> bytes per call and records what it took.\<close>

definition chunk_os :: "nat \<Rightarrow> string os" where
  "chunk_os k = \<lparr>os_send = (\<lambda>w fd d. (int (min k (length d)), w @ take k d))\<rparr>"

lemma chunk_os_documented: "0 < k \<Longrightarrow> send_documented (chunk_os k)"
  by (simp add: send_documented_def chunk_os_def)

theorem send_data_returns_witness:
  "(\<exists>rc n w'. json_rpc_server_send_data (chunk_os 2) [] 7 (Some ''abcdef'') = Inr (rc, n, w')
      \<and> (rc = RETURN_OK \<or> rc = RETURN_ERR) \<and> 0 \<le> n \<and> n \<le> 6 \<and> (rc = RETURN_OK \<longrightarrow> 6 \<le> 2 * n))
   \<and> json_rpc_server_send_data (chunk_os 6) [] 7 (Some ''{reqId:1}'') = Inr (RETURN_OK, 6, ''{reqId'')"
proof -
  have os: "send_documented (chunk_os 2)" "send_documented (chunk_os 6)" by (simp_all add: chunk_os_documented)
  have "os_send (chunk_os 6) [] 7 (cstr ''{reqId:1}'') = (6, ''{reqId'')" by (simp add: chunk_os_def)
  with send_data_returns [OF os(1), of "[]" 7 "''abcdef''"] send_data_returns [OF os(2), of "[]" 7 "''{reqId:1}''"]
  show ?thesis by auto
qed

end
