(* ===== verification/Validator.thy ===== *)
theory Validator
  imports Rpc_Common
begin

text \<open>
  \<^verbatim>\<open>json-schema-validator-wrapper/json_schema_validator_wrapper.cpp\<close>: the C interface to
  a JSON schema validator. The validator library (nlohmann json and json-schema) is a
  parameter: parsing a text, reading a schema file's text, creating a validator object,
  setting its root schema and validating a document; \<open>None\<close> is a thrown exception. The
  state of the component is its global pointer \<^verbatim>\<open>validator\<close>.
\<close>

record ('s, 'v) nlohmann =
  nl_parse :: "string \<Rightarrow> 's option"            \<comment> \<open>json::parse, and operator >> on a stream\<close>
  nl_new :: 'v                                 \<comment> \<open>new json_validator ()\<close>
  nl_set_root :: "'v \<Rightarrow> 's \<Rightarrow> 'v option"        \<comment> \<open>set_root_schema\<close>
  nl_validate :: "'v \<Rightarrow> 's \<Rightarrow> bool option"      \<comment> \<open>validate: whether the error handler was called\<close>

definition VALIDATOR_RETURN_OK :: int where [config_defs]: "VALIDATOR_RETURN_OK = 0"
definition VALIDATOR_RETURN_ERR :: int where [config_defs]: "VALIDATOR_RETURN_ERR = 1"
definition VALIDATOR_RETURN_INVALID_ARGUMENTS :: int where
  [config_defs]: "VALIDATOR_RETURN_INVALID_ARGUMENTS = 2"

text \<open>\<^verbatim>\<open>open_text\<close> is the content of a readable file.\<close>

definition json_validator_populate_schema ::
  "('s, 'v) nlohmann \<Rightarrow> (string \<Rightarrow> string option) \<Rightarrow> 'v option \<Rightarrow> string option \<Rightarrow> int \<times> 'v option" where
  "json_validator_populate_schema N open_text validator json_schema_path =
     (case json_schema_path of
        None \<Rightarrow> (VALIDATOR_RETURN_INVALID_ARGUMENTS, validator)
      | Some path \<Rightarrow>
          (case open_text path of
             None \<Rightarrow> (VALIDATOR_RETURN_ERR, validator)
           | Some content \<Rightarrow>
               (case nl_parse N content of
                  None \<Rightarrow> (VALIDATOR_RETURN_ERR, validator)
                | Some schema \<Rightarrow>
                    (case validator of
                       None \<Rightarrow> (VALIDATOR_RETURN_ERR, validator)
                     | Some v \<Rightarrow>
                         (case nl_set_root N v schema of
                            None \<Rightarrow> (VALIDATOR_RETURN_ERR, validator)
                          | Some v' \<Rightarrow> (VALIDATOR_RETURN_OK, Some v'))))))"

definition json_validator_init ::
  "('s, 'v) nlohmann \<Rightarrow> (string \<Rightarrow> string option) \<Rightarrow> 'v option \<Rightarrow> string option \<Rightarrow> int \<times> 'v option" where
  "json_validator_init N open_text validator json_schema_path =
     (if json_schema_path = None then (VALIDATOR_RETURN_INVALID_ARGUMENTS, validator)
      else json_validator_populate_schema N open_text (Some (nl_new N)) json_schema_path)"

definition json_validator_terminate :: "'v option \<Rightarrow> int \<times> 'v option" where
  "json_validator_terminate validator = (VALIDATOR_RETURN_OK, None)"

definition json_validator_validate_request ::
  "('s, 'v) nlohmann \<Rightarrow> 'v option \<Rightarrow> string option \<Rightarrow> int cres" where
  "json_validator_validate_request N validator json_string =
     (case json_string of
        None \<Rightarrow> Inr VALIDATOR_RETURN_INVALID_ARGUMENTS
      | Some s \<Rightarrow>
          (case nl_parse N (cstr s) of
             None \<Rightarrow> Inl Uncaught_Exception
           | Some json_request \<Rightarrow>
               (case validator of
                  None \<Rightarrow> Inl Null_Deref
                | Some v \<Rightarrow>
                    (case nl_validate N v json_request of
                       None \<Rightarrow> Inl Uncaught_Exception
                     | Some json_err \<Rightarrow>
                         Inr (if json_err then VALIDATOR_RETURN_ERR else VALIDATOR_RETURN_OK)))))"

text \<open>After a successful initialisation the validator is there, and a text is accepted
  exactly when it parses and validates against the schema that was loaded.\<close>

lemma validate_after_init:
  assumes "json_validator_init N open_text v0 (Some path) = (VALIDATOR_RETURN_OK, v)"
  obtains content schema w where "open_text path = Some content" "nl_parse N content = Some schema"
    "nl_set_root N (nl_new N) schema = Some w" "v = Some w"
  using assms
  by (auto simp: json_validator_init_def json_validator_populate_schema_def config_defs
      split: option.splits dest: sym)

lemma validate_accepts_iff:
  "json_validator_validate_request N (Some v) (Some s) = Inr VALIDATOR_RETURN_OK \<longleftrightarrow>
   (\<exists>d. nl_parse N (cstr s) = Some d \<and> nl_validate N v d = Some False)"
  by (auto simp: json_validator_validate_request_def config_defs split: option.splits)

section \<open>The test driver\<close>

text \<open>\<^verbatim>\<open>test_json_schema_validator.c\<close>: a schema and a sample are named on the command line. The
  sample is read into a buffer of exactly its length, which is then printed and validated as a C
  string. The result is how the program ends and the verdict it prints, if there is one.\<close>

definition test_validator_main ::
  "('s, 'v) nlohmann \<Rightarrow> (string \<Rightarrow> string option) \<Rightarrow> string list \<Rightarrow> (unit process \<times> int option) cres" where
  "test_validator_main N open_text argv =
     (if length argv \<noteq> 3 then Inr (Exited 0, None)
      else
        (case json_validator_init N open_text None (Some (argv ! 1)) of (ret, validator) \<Rightarrow>
           if ret \<noteq> VALIDATOR_RETURN_OK then Inr (Aborted, None)
           else
             (case open_text (argv ! 2) of
                None \<Rightarrow> Inr (Exited 0, None)
              | Some content \<Rightarrow>
                  ebind (read_buf (length content) (cstr content)) (\<lambda>buffer.
                  ebind (json_validator_validate_request N validator (Some buffer)) (\<lambda>ret.
                    Inr (Exited 0, Some ret))))))"

text \<open>The buffer has no room for a terminator: an ordinary sample, with no NUL in it, is read
  beyond its end.\<close>

lemma test_validator_unterminated:
  assumes "fst (json_validator_init N open_text None (Some schema)) = VALIDATOR_RETURN_OK"
    and "open_text sample = Some content" and "nul_free content"
  shows "test_validator_main N open_text [prog, schema, sample] = Inl Unterminated"
  using assms by (simp add: test_validator_main_def read_buf_def case_prod_beta)

end
