(* ===== verification/Json_Tokener.thy ===== *)
theory Json_Tokener
  imports Rpc_Common
begin

text \<open>
  The incremental parser of json-c, a parameter of the model like the rest of the library, and
  what the receive loops of both sides rely on: progress (\<open>tokener_progress\<close>), and how a
  strict tokener treats messages glued together (\<open>strict_tokener\<close>). \<open>parse_all\<close> is the
  reference: the objects of a buffer, in order.
\<close>

text \<open>The json-c tokener: its state, the object parsed if any, the error code and the number
  of characters consumed.\<close>

datatype json_tokener_error =
    json_tokener_success | json_tokener_continue
  | json_tokener_error_parse_unexpected | json_tokener_error_other

record ('j, 't) tokener =
  tok_new :: "'t option"
  tok_parse_ex :: "'t \<Rightarrow> string \<Rightarrow> int \<Rightarrow> 't \<times> 'j option \<times> json_tokener_error \<times> int"

text \<open>What the loop relies on: a call of the tokener on a non-empty rest that finds an object or
  wants more input has consumed something.\<close>

definition tokener_progress :: "('j, 't) tokener \<Rightarrow> bool" where
  "tokener_progress T \<longleftrightarrow> (\<forall>t s n. 0 < n \<longrightarrow>
     (case tok_parse_ex T t s n of (t', jobj, jerr, parse_end) \<Rightarrow>
        jobj \<noteq> None \<or> jerr = json_tokener_continue \<longrightarrow> 1 \<le> parse_end))"

text \<open>The objects of a buffer and the code the loop ends with, when it is only parsed.\<close>

fun parse_all :: "nat \<Rightarrow> ('j, 't) tokener \<Rightarrow> string \<Rightarrow> int \<Rightarrow> 't \<Rightarrow> int \<Rightarrow> ('j list \<times> int) option" where
  "parse_all 0 T buffer len t start_pos = None"
| "parse_all (Suc fuel) T buffer len t start_pos =
     (if start_pos < len
      then
        (case tok_parse_ex T t (drop (nat start_pos) buffer) (len - start_pos) of
           (t', None, jerr, parse_end) \<Rightarrow>
             if jerr \<noteq> json_tokener_continue then Some ([], RETURN_ERR)
             else parse_all fuel T buffer len t' (start_pos + parse_end)
         | (t', Some jobj, jerr, parse_end) \<Rightarrow>
             map_option (\<lambda>(js, rc). (jobj # js, rc)) (parse_all fuel T buffer len t' (start_pos + parse_end)))
      else Some ([], RETURN_OK))"

lemma tokener_progressD:
  assumes "tokener_progress T" and "0 < n" and "tok_parse_ex T t s n = (t', jobj, jerr, p)"
    and "jobj \<noteq> None \<or> jerr = json_tokener_continue"
  shows "1 \<le> p"
  using assms(1) [unfolded tokener_progress_def, rule_format, OF assms(2), of t s] assms(3,4) by auto

lemma parse_all_total:
  assumes "tokener_progress T" and "nat (len - start) < fuel"
  shows "parse_all fuel T buffer len t start \<noteq> None"
  using assms(2)
proof (induction fuel arbitrary: t start)
  case (Suc fuel)
  show ?case
  proof (cases "start < len")
    case True
    obtain t' jobj jerr p where tk: "tok_parse_ex T t (drop (nat start) buffer) (len - start) = (t', jobj, jerr, p)"
      by (metis prod_cases4)
    have prog: "jobj \<noteq> None \<or> jerr = json_tokener_continue \<Longrightarrow> 1 \<le> p"
      using tokener_progressD [OF assms(1) _ tk] True by simp
    have "1 \<le> p \<Longrightarrow> parse_all fuel T buffer len t' (start + p) \<noteq> None"
      using Suc.prems True by (intro Suc.IH) linarith
    with prog tk True show ?thesis by (cases jobj) auto
  qed simp
qed simp

text \<open>
  A tokener in strict mode without \<^verbatim>\<open>JSON_TOKENER_ALLOW_TRAILING_CHARS\<close>, on texts
  \<open>m\<close> that hold the object \<open>j\<close>: given exactly \<open>m\<close> it returns \<open>j\<close>; given more, with an
  opening brace behind \<open>m\<close>, it reports an unexpected character at that place; given nothing
  it asks for more input. \<open>ready\<close> are the states in which it starts on a new object.
\<close>

definition strict_tokener ::
  "('j, 't) tokener \<Rightarrow> ('t \<Rightarrow> bool) \<Rightarrow> (string \<Rightarrow> 'j option) \<Rightarrow> bool" where
  "strict_tokener T ready value \<longleftrightarrow>
     (\<exists>t. tok_new T = Some t \<and> ready t)
   \<and> (\<forall>t m j rest. ready t \<longrightarrow> value m = Some j \<longrightarrow>
        m \<noteq> [] \<and> (\<exists>t'. ready t' \<and>
          tok_parse_ex T t (m @ rest) (int (length m)) = (t', Some j, json_tokener_success, int (length m))))
   \<and> (\<forall>t m j rest n. ready t \<longrightarrow> value m = Some j \<longrightarrow> int (length m) < n \<longrightarrow>
        (\<exists>t'. tok_parse_ex T t (m @ CHR ''{'' # rest) n =
           (t', None, json_tokener_error_parse_unexpected, int (length m))))
   \<and> (\<forall>t s. ready t \<longrightarrow> (\<exists>t'. ready t' \<and> tok_parse_ex T t s 0 = (t', None, json_tokener_continue, 0)))"

lemma strict_tokenerD:
  assumes "strict_tokener T ready value"
  shows "\<exists>t. tok_new T = Some t \<and> ready t"
    and "ready t \<Longrightarrow> value m = Some j \<Longrightarrow> m \<noteq> [] \<and> (\<exists>t'. ready t' \<and>
      tok_parse_ex T t (m @ rest) (int (length m)) = (t', Some j, json_tokener_success, int (length m)))"
    and "ready t \<Longrightarrow> value m = Some j \<Longrightarrow> int (length m) < n \<Longrightarrow>
      \<exists>t'. tok_parse_ex T t (m @ CHR ''{'' # rest) n = (t', None, json_tokener_error_parse_unexpected, int (length m))"
    and "ready t \<Longrightarrow> \<exists>t'. ready t' \<and> tok_parse_ex T t s 0 = (t', None, json_tokener_continue, 0)"
  using assms unfolding strict_tokener_def by blast+

text \<open>A concrete strict tokener, for the one text \<^verbatim>\<open>{}\<close>.\<close>

definition brace_value :: "string \<Rightarrow> json option" where
  "brace_value m = (if m = ''{}'' then Some (JObject []) else None)"

definition brace_tokener :: "(json, unit) tokener" where
  "brace_tokener = \<lparr>tok_new = Some (), tok_parse_ex = (\<lambda>t s n.
     if n = 0 then ((), None, json_tokener_continue, 0)
     else if take 2 s \<noteq> ''{}'' then ((), None, json_tokener_error_other, 0)
     else if n = 2 then ((), Some (JObject []), json_tokener_success, 2)
     else ((), None, json_tokener_error_parse_unexpected, 2))\<rparr>"

lemma brace_tokener_strict: "strict_tokener brace_tokener (\<lambda>_. True) brace_value"
  by (simp add: strict_tokener_def brace_tokener_def brace_value_def)

end
