(* ===== verification/Hal_Server.thy ===== *)
theory Hal_Server
  imports Hal_Common Tcp_Send Validator Json_Tokener
begin

text \<open>
  \<^verbatim>\<open>json_hal_server.c\<close>: the HAL server library. Its state (\<open>server\<close>) holds the global
  variables of the file; the operations are the functions of the file in state-passing form.
  Three compile-time switches are flags of the \<open>platform\<close>, next to the libraries the code
  calls. Linked lists are HOL lists: \<^verbatim>\<open>LL_APPEND\<close>, \<^verbatim>\<open>LL_FOREACH\<close> and the removal
  loop are list operations by the theorems of \<open>Utlist\<close>.
\<close>

section \<open>Data\<close>

datatype event_subscription_status_t =
  NO_EVENT_MSG | WAIT_EVENT_REPLY_MSG | EVENT_REPLY_SUCCESS | EVENT_REPLY_ERROR

datatype eNotificationType_t =
    NOTIFICATION_TYPE_ON_CHANGE | NOTIFICATION_TYPE_ON_CHANGE_SYNC
  | NOTIFICATION_TYPE_ON_CHANGE_SYNC_TIMEOUT | NOTIFICATION_TYPE_INVALID

datatype response_msg_type_t = RESPONSE_SUCCESS | RESPONSE_FAILURE | RESPONSE_NOT_SUPPORTED

text \<open>A registered callback is vendor software: it sees the request, the number of its
  parameters and the prepared reply, and may change the outside world and the reply. Its body
  may fault like any other C code.\<close>

type_synonym ('j, 'w) action_callback = "'w \<Rightarrow> 'j \<Rightarrow> int \<Rightarrow> 'j \<Rightarrow> (int \<times> 'j \<times> 'w) cres"

record ('j, 'w) action_callback_list_t =
  function_name :: string
  acl_cb :: "('j, 'w) action_callback option"

text \<open>\<open>es_event\<close> is a \<^verbatim>\<open>char[512]\<close>; \<open>es_req_id\<close> (a \<^verbatim>\<open>char[64]\<close>) and
  \<open>es_status\<close> are the members of \<^verbatim>\<open>last_msg\<close>.\<close>

record event_subscriptions_list_t =
  es_fd :: int
  es_event :: string
  es_event_type :: eNotificationType_t
  es_req_id :: string
  es_status :: event_subscription_status_t

record hal_subscribe_event_request_t =
  sr_name :: string
  sr_type :: eNotificationType_t

record hal_schema_response_t =
  filepath :: string

record ('j, 't, 'w, 's, 'v) platform =
  json :: "'j json_c"
  tok :: "('j, 't) tokener"
  net :: "'w os"
  nlohmann :: "('s, 'v) nlohmann"
  blocking :: bool      \<comment> \<open>JSON_BLOCKING_SUBSCRIBE_EVENT\<close>
  validation :: bool    \<comment> \<open>JSON_SCHEMA_VALIDATION_ENABLED\<close>

text \<open>The globals of the file. \<open>subscription_mutex\<close> tells whether \<^verbatim>\<open>gm_subscription_mutex\<close>
  is held; \<open>sent\<close> records every message handed to the send routine with its result, for
  the theorems only.\<close>

record ('j, 'w, 'v) server =
  g_server_config :: hal_config_t
  g_hal_functions_list :: "('j, 'w) action_callback_list_t list"
  g_event_subscriptions_list :: "event_subscriptions_list_t list"
  g_seqnumber :: int
  rpc_port :: int
  rpc_running :: bool
  validator :: "'v option"
  subscription_mutex :: bool
  world :: 'w
  sent :: "(int \<times> 'j \<times> int) list"

text \<open>The values the globals start with.\<close>

definition initial_server :: "'w \<Rightarrow> ('j, 'w, 'v) server" where
  "initial_server w = \<lparr>g_server_config = zero_config, g_hal_functions_list = [],
     g_event_subscriptions_list = [], g_seqnumber = DEFAULT_SEQ_START_NUMBER, rpc_port = 0,
     rpc_running = False, validator = None, subscription_mutex = False, world = w, sent = []\<rparr>"

definition lock_subscriptions :: "('j, 'w, 'v) server \<Rightarrow> ('j, 'w, 'v) server cres" where
  "lock_subscriptions s =
     (if subscription_mutex s then Inl Deadlock else Inr (s\<lparr>subscription_mutex := True\<rparr>))"

definition unlock_subscriptions :: "('j, 'w, 'v) server \<Rightarrow> ('j, 'w, 'v) server" where
  "unlock_subscriptions s = s\<lparr>subscription_mutex := False\<rparr>"

text \<open>\<^verbatim>\<open>json_object_put\<close> on an object with \<open>n\<close> references left.\<close>

definition json_object_put :: "nat \<Rightarrow> nat cres" where
  "json_object_put n = (if n = 0 then Inl Double_Free else Inr (n - 1))"

section \<open>Messages\<close>

definition status_object :: "'j json_c \<Rightarrow> string \<Rightarrow> 'j" where
  "status_object J st = jc_object_add J (jc_new_object J) JSON_RPC_PARAM_STATUS_FIELD (jc_new_string J st)"

fun status_text :: "response_msg_type_t \<Rightarrow> string" where
  "status_text RESPONSE_SUCCESS = JSON_RPC_STATUS_SUCCESS"
| "status_text RESPONSE_NOT_SUPPORTED = JSON_RPC_STATUS_NOT_SUPPORTED"
| "status_text RESPONSE_FAILURE = JSON_RPC_STATUS_FAILED"

text \<open>The members module and version every message starts with.\<close>

definition message_header :: "'j json_c \<Rightarrow> hal_config_t \<Rightarrow> 'j" where
  "message_header J c =
     jc_object_add J (jc_object_add J (jc_new_object J)
       JSON_RPC_FIELD_MODULE (jc_new_string J (hal_module_name c)))
       JSON_RPC_FIELD_VERSION (jc_new_string J (hal_module_version c))"

definition create_json_reply_msg :: "'j json_c \<Rightarrow> hal_config_t \<Rightarrow> string \<Rightarrow> response_msg_type_t \<Rightarrow> 'j" where
  "create_json_reply_msg J c req_id type =
     jc_object_add J (jc_object_add J (jc_object_add J (message_header J c)
       JSON_RPC_FIELD_ACTION (jc_new_string J JSON_RPC_ACTION_RESULT))
       JSON_RPC_FIELD_ID (jc_new_string J req_id))
       JSON_RPC_FILED_RESULT (status_object J (status_text type))"

definition prepare_json_response_header :: "'j json_c \<Rightarrow> hal_config_t \<Rightarrow> string \<Rightarrow> string \<Rightarrow> 'j" where
  "prepare_json_response_header J c action_name req_id =
     (let jmsg = jc_object_add J (message_header J c) JSON_RPC_FIELD_ID (jc_new_string J req_id) in
      if starts_with action_name JSON_RPC_ACTION_GET_PARAM then
        jc_object_add J
          (jc_object_add J jmsg JSON_RPC_FIELD_ACTION (jc_new_string J JSON_RPC_ACTION_GET_PARAM_RESPONSE))
          JSON_RPC_FIELD_PARAMS (jc_new_array J)
      else if starts_with action_name JSON_RPC_ACTION_GET_SCHEMA then
        jc_object_add J
          (jc_object_add J jmsg JSON_RPC_FIELD_ACTION (jc_new_string J JSON_RPC_ACTION_GET_SCHEMA_RESPONSE))
          JSON_RPC_FIELD_SCHEMA_INFO (jc_new_object J)
      else
        jc_object_add J
          (jc_object_add J jmsg JSON_RPC_FIELD_ACTION (jc_new_string J JSON_RPC_ACTION_RESULT))
          JSON_RPC_FILED_RESULT (jc_new_object J))"

definition json_hal_add_result_status :: "'j json_c \<Rightarrow> 'j option \<Rightarrow> eResult_t \<Rightarrow> (int \<times> 'j option) cres" where
  "json_hal_add_result_status J jreply result =
     (case jreply of
        None \<Rightarrow> Inr (RETURN_ERR, jreply)
      | Some r \<Rightarrow>
          ebind (obj_add J (Some r) JSON_RPC_FILED_RESULT
            (status_object J (case result of
               RESULT_SUCCESS \<Rightarrow> JSON_RPC_STATUS_SUCCESS | RESULT_FAILURE \<Rightarrow> JSON_RPC_STATUS_FAILED)))
            (\<lambda>r'. Inr (RETURN_OK, Some r')))"

definition json_hal_add_schema_response ::
  "'j json_c \<Rightarrow> 'j option \<Rightarrow> hal_schema_response_t option \<Rightarrow> (int \<times> 'j option) cres" where
  "json_hal_add_schema_response J jreply param =
     (case (jreply, param) of
        (Some r, Some p) \<Rightarrow>
          (case get_ex J jreply JSON_RPC_FIELD_SCHEMA_INFO of
             None \<Rightarrow> Inr (RETURN_ERR, jreply)
           | Some jschemainfo \<Rightarrow>
               ebind (read_buf 2048 (filepath p)) (\<lambda>path.
               ebind (obj_add J jschemainfo JSON_RPC_FIELD_SCHEMA_FILEPATH (jc_new_string J path)) (\<lambda>j'.
                 Inr (RETURN_OK, Some (jc_update_member J r JSON_RPC_FIELD_SCHEMA_INFO j')))))
      | _ \<Rightarrow> Inr (RETURN_ERR, jreply))"

text \<open>The sequence number: the increment of a signed variable, then the test for the
  upper limit.\<close>

definition get_sequence_number :: "('j, 'w, 'v) server \<Rightarrow> (int \<times> ('j, 'w, 'v) server) cres" where
  "get_sequence_number s =
     (if g_seqnumber s = INT_MAX then Inl Signed_Overflow
      else
        (let n = g_seqnumber s + 1;
             n' = (if n > INT_MAX then DEFAULT_SEQ_START_NUMBER else n)
         in Inr (n', s\<lparr>g_seqnumber := n'\<rparr>)))"

text \<open>\<^verbatim>\<open>create_publish_event_msg\<close>; a NULL value gives no message.\<close>

definition publish_event_body :: "'j json_c \<Rightarrow> hal_config_t \<Rightarrow> int \<Rightarrow> string \<Rightarrow> string \<Rightarrow> 'j" where
  "publish_event_body J c seq event_name event_val =
     jc_object_add J (jc_object_add J (jc_object_add J (message_header J c)
       JSON_RPC_FIELD_ACTION (jc_new_string J JSON_RPC_PUBLISH_EVENT_ACTION_NAME))
       JSON_RPC_FIELD_ID (jc_new_int J seq))
       JSON_RPC_FIELD_PARAMS (jc_array_add J (jc_new_array J)
         (jc_object_add J (jc_object_add J (jc_new_object J)
            JSON_RPC_FIELD_PARAM_NAME (jc_new_string J event_name))
            JSON_RPC_FIELD_PARAM_VALUE (jc_new_string J event_val)))"

definition create_publish_event_msg ::
  "'j json_c \<Rightarrow> ('j, 'w, 'v) server \<Rightarrow> string \<Rightarrow> string option \<Rightarrow> ('j option \<times> ('j, 'w, 'v) server) cres" where
  "create_publish_event_msg J s event_name event_val =
     (case event_val of
        None \<Rightarrow> Inr (None, s)
      | Some v \<Rightarrow> ebind (get_sequence_number s) (\<lambda>(seq, s').
          Inr (Some (publish_event_body J (g_server_config s) seq event_name v), s')))"

definition socket_send ::
  "('j, 't, 'w, 's, 'v) platform \<Rightarrow> ('j, 'w, 'v) server \<Rightarrow> int \<Rightarrow> 'j option \<Rightarrow> (int \<times> ('j, 'w, 'v) server) cres" where
  "socket_send P s sockfd jmsg =
     (case jmsg of
        None \<Rightarrow> Inr (RETURN_ERR, s)
      | Some j \<Rightarrow>
          (case jc_to_string (json P) j of
             None \<Rightarrow> Inr (RETURN_ERR, s)
           | Some b \<Rightarrow>
               ebind (json_rpc_server_send_data (net P) (world s) sockfd (Some b)) (\<lambda>(rc, n, w).
                 Inr (rc, s\<lparr>world := w, sent := sent s @ [(sockfd, j, rc)]\<rparr>))))"

lemma message_header_object [simp]:
  "json_c_ok J \<Longrightarrow> jc_type J (message_header J c) = json_type_object"
  by (simp add: message_header_def)

lemma json_object_put_simps [simp]:
  "json_object_put 0 = Inl Double_Free" "json_object_put (Suc n) = Inr n" "json_object_put 1 = Inr 0"
  by (simp_all add: json_object_put_def)

end
