(* ===== verification/Server_Events.thy ===== *)
theory Server_Events
  imports Hal_Server
begin

text \<open>
  The two lists of \<^verbatim>\<open>json_hal_server.c\<close>: the registered actions and the event
  subscriptions, with publishing an event to the subscribers and, in the blocking build,
  waiting for their replies.
\<close>

section \<open>Registered actions\<close>

definition get_registered_rpc_action_by_name ::
  "('j, 'w, 'v) server \<Rightarrow> string \<Rightarrow> ('j, 'w) action_callback_list_t option" where
  "get_registered_rpc_action_by_name s func_name =
     find (\<lambda>rpc. strcmp_eq (function_name rpc) func_name) (g_hal_functions_list s)"

definition json_hal_server_register_action_callback ::
  "('j, 'w, 'v) server \<Rightarrow> string \<Rightarrow> ('j, 'w) action_callback option \<Rightarrow> (int \<times> ('j, 'w, 'v) server) cres" where
  "json_hal_server_register_action_callback s action_name callback =
     (if \<exists>temp \<in> set (g_hal_functions_list s). strcmp_eq (function_name temp) action_name
      then Inr (RETURN_ERR, s)
      else
        ebind (strcpy MAX_FUNCTION_LEN action_name) (\<lambda>name.
          Inr (RETURN_OK, s\<lparr>g_hal_functions_list :=
            g_hal_functions_list s @ [\<lparr>function_name = name, acl_cb = callback\<rparr>]\<rparr>)))"

section \<open>Event subscriptions\<close>

definition add_event_subscription_to_list ::
  "('j, 'w, 'v) server \<Rightarrow> event_subscriptions_list_t \<Rightarrow> ('j, 'w, 'v) server cres" where
  "add_event_subscription_to_list s data =
     ebind (ebind (read_buf BUF_512 (es_event data)) (strcpy BUF_512)) (\<lambda>event.
     ebind (ebind (read_buf BUF_64 (es_req_id data)) (strcpy BUF_64)) (\<lambda>req_id.
     ebind (lock_subscriptions s) (\<lambda>s.
       Inr (unlock_subscriptions (s\<lparr>g_event_subscriptions_list := g_event_subscriptions_list s @
         [\<lparr>es_fd = es_fd data, es_event = event, es_event_type = es_event_type data,
           es_req_id = req_id, es_status = es_status data\<rparr>]\<rparr>)))))"

definition remove_event_subscription_from_list ::
  "('j, 'w, 'v) server \<Rightarrow> int \<Rightarrow> ('j, 'w, 'v) server cres" where
  "remove_event_subscription_from_list s fd =
     ebind (lock_subscriptions s) (\<lambda>s.
       Inr (unlock_subscriptions (s\<lparr>g_event_subscriptions_list :=
         filter (\<lambda>subs. es_fd subs \<noteq> fd) (g_event_subscriptions_list s)\<rparr>)))"

definition client_connected_cb :: "('j, 'w, 'v) server \<Rightarrow> int \<Rightarrow> (int \<times> ('j, 'w, 'v) server) cres" where
  "client_connected_cb s fd = Inr (RETURN_OK, s)"

definition client_disconnected_cb :: "('j, 'w, 'v) server \<Rightarrow> int \<Rightarrow> (int \<times> ('j, 'w, 'v) server) cres" where
  "client_disconnected_cb s fd =
     ebind (remove_event_subscription_from_list s fd) (\<lambda>s. Inr (RETURN_OK, s))"

section \<open>Publishing\<close>

definition is_blocking_type :: "eNotificationType_t \<Rightarrow> bool" where
  "is_blocking_type t \<longleftrightarrow>
     t = NOTIFICATION_TYPE_ON_CHANGE_SYNC_TIMEOUT \<or> t = NOTIFICATION_TYPE_ON_CHANGE_SYNC"

text \<open>The blocking build notes in the subscription that a reply to this message is awaited.
  The second component is the new value of \<^verbatim>\<open>publish_event_blocking\<close>.\<close>

definition note_awaited_reply ::
  "('j, 't, 'w, 's, 'v) platform \<Rightarrow> event_subscriptions_list_t \<Rightarrow> 'j \<Rightarrow> bool
   \<Rightarrow> (event_subscriptions_list_t \<times> bool) cres" where
  "note_awaited_reply P subs jevent_msg publish_event_blocking =
     (if blocking P \<and> is_blocking_type (es_event_type subs)
      then ebind (get_str (json P)
              (case get_ex (json P) (Some jevent_msg) JSON_RPC_FIELD_ID of None \<Rightarrow> None | Some o' \<Rightarrow> o'))
             (\<lambda>id. Inr (subs\<lparr>es_req_id := strncpy BUF_64 id, es_status := WAIT_EVENT_REPLY_MSG\<rparr>, True))
      else Inr (subs, publish_event_blocking))"

text \<open>The loop over the subscriptions, returning the updated list. \<open>None\<close> is the early
  return of \<^verbatim>\<open>POINTER_ASSERT\<close> when no message could be made.\<close>

fun publish_loop ::
  "('j, 't, 'w, 's, 'v) platform \<Rightarrow> string \<Rightarrow> string option \<Rightarrow> int \<Rightarrow> bool \<Rightarrow> ('j, 'w, 'v) server
   \<Rightarrow> event_subscriptions_list_t list
   \<Rightarrow> ((int \<times> bool) option \<times> event_subscriptions_list_t list \<times> ('j, 'w, 'v) server) cres" where
  "publish_loop P event_name event_value ret blk s [] = Inr (Some (ret, blk), [], s)"
| "publish_loop P event_name event_value ret blk s (subs # rest) =
     (if starts_with (es_event subs) event_name
      then
        ebind (create_publish_event_msg (json P) s event_name event_value) (\<lambda>(msg, s1).
          case msg of
            None \<Rightarrow> Inr (None, subs # rest, s1)
          | Some jevent_msg \<Rightarrow>
              ebind (note_awaited_reply P subs jevent_msg blk) (\<lambda>(subs', blk1).
              ebind (socket_send P s1 (es_fd subs') (Some jevent_msg)) (\<lambda>(rc, s2).
              ebind (publish_loop P event_name event_value
                       (if rc = RETURN_OK then ret else RETURN_ERR)
                       (if rc = RETURN_OK then blk1 else False) s2 rest)
                (\<lambda>(r, rest', s3). Inr (r, subs' # rest', s3)))))
      else
        ebind (publish_loop P event_name event_value ret blk s rest)
          (\<lambda>(r, rest', s1). Inr (r, subs # rest', s1)))"

text \<open>
  Waiting for the replies. Other threads change the state between two polls, so the model
  is given the states the polls find, each with the values \<^verbatim>\<open>clock_gettime\<close> returns
  while the poll visits the subscriptions. Running out of polls is \<open>No_Return\<close>: the loop
  had not ended by then.
\<close>

fun scan_event_replies ::
  "string \<Rightarrow> int \<Rightarrow> (nat \<Rightarrow> int) \<Rightarrow> nat \<Rightarrow> event_subscriptions_list_t list
   \<Rightarrow> bool \<times> bool \<times> int \<Rightarrow> bool \<times> bool \<times> int" where
  "scan_event_replies event_name t0 clock i [] acc = acc"
| "scan_event_replies event_name t0 clock i (subs # rest) (waiting_event_reply, msg_timeout, ret) =
     scan_event_replies event_name t0 clock (Suc i) rest
       (if starts_with (es_event subs) event_name \<and> is_blocking_type (es_event_type subs)
        then
          if es_status subs = WAIT_EVENT_REPLY_MSG
          then (True,
                if es_event_type subs = NOTIFICATION_TYPE_ON_CHANGE_SYNC then False
                else if clock i - t0 \<le> 10 then False
                else msg_timeout,
                ret)
          else if es_status subs \<noteq> EVENT_REPLY_SUCCESS
          then (waiting_event_reply, msg_timeout, RETURN_ERR)
          else (waiting_event_reply, msg_timeout, ret)
        else (waiting_event_reply, msg_timeout, ret))"

fun wait_publish_event_reply ::
  "string \<Rightarrow> int \<Rightarrow> int \<Rightarrow> (('j, 'w, 'v) server \<times> (nat \<Rightarrow> int)) list
   \<Rightarrow> (int \<times> ('j, 'w, 'v) server) cres" where
  "wait_publish_event_reply event_name t0 ret [] = Inl No_Return"
| "wait_publish_event_reply event_name t0 ret ((s, clock) # polls) =
     ebind (lock_subscriptions s) (\<lambda>s.
       let (waiting_event_reply, msg_timeout, ret') =
             scan_event_replies event_name t0 clock 0 (g_event_subscriptions_list s) (False, True, ret);
           s = unlock_subscriptions s
       in if waiting_event_reply \<and> \<not> msg_timeout
          then wait_publish_event_reply event_name t0 ret' polls
          else Inr (if waiting_event_reply \<and> msg_timeout then RETURN_ERR else ret', s))"

text \<open>\<^verbatim>\<open>json_hal_server_publish_event\<close> up to the release of the lock: the messages. The result
  is \<open>None\<close> for the early return, with the lock held, and otherwise the return code and
  \<^verbatim>\<open>publish_event_blocking\<close>.\<close>

definition publish_messages ::
  "('j, 't, 'w, 's, 'v) platform \<Rightarrow> ('j, 'w, 'v) server \<Rightarrow> string \<Rightarrow> string option
   \<Rightarrow> ((int \<times> bool) option \<times> ('j, 'w, 'v) server) cres" where
  "publish_messages P s event_name event_value =
     ebind (lock_subscriptions s) (\<lambda>s.
     ebind (publish_loop P event_name event_value RETURN_OK False s (g_event_subscriptions_list s))
       (\<lambda>(r, subs, s).
         let s = s\<lparr>g_event_subscriptions_list := subs\<rparr> in
         Inr (r, case r of None \<Rightarrow> s | Some _ \<Rightarrow> unlock_subscriptions s)))"

text \<open>The whole function; \<open>t0\<close> and \<open>polls\<close> are what the waiting loop observes. The result of
  waiting is not used.\<close>

definition json_hal_server_publish_event ::
  "('j, 't, 'w, 's, 'v) platform \<Rightarrow> ('j, 'w, 'v) server \<Rightarrow> string \<Rightarrow> string option
   \<Rightarrow> int \<Rightarrow> (('j, 'w, 'v) server \<times> (nat \<Rightarrow> int)) list \<Rightarrow> (int \<times> ('j, 'w, 'v) server) cres" where
  "json_hal_server_publish_event P s event_name event_value t0 polls =
     ebind (publish_messages P s event_name event_value) (\<lambda>(r, s).
       case r of
         None \<Rightarrow> Inr (RETURN_ERR, s)
       | Some (ret, publish_event_blocking) \<Rightarrow>
           if blocking P \<and> publish_event_blocking
           then ebind (wait_publish_event_reply event_name t0 RETURN_OK polls) (\<lambda>(_, s'). Inr (ret, s'))
           else Inr (ret, s))"

lemmas publish_event_defs = json_hal_server_publish_event_def publish_messages_def

section \<open>The registry as a map\<close>

text \<open>The abstract registry: a finite map from names to callbacks.\<close>

definition registry_map :: "('j, 'w, 'v) server \<Rightarrow> string \<rightharpoonup> ('j, 'w) action_callback option" where
  "registry_map s name = map_option acl_cb (get_registered_rpc_action_by_name s name)"

lemma registry_map_map_of:
  "registry_map s = map_of (map (\<lambda>rpc. (function_name rpc, acl_cb rpc)) (g_hal_functions_list s))"
proof
  fix name
  have "map_option acl_cb (find (\<lambda>rpc. strcmp_eq (function_name rpc) name) xs)
      = map_of (map (\<lambda>rpc. (function_name rpc, acl_cb rpc)) xs) name" for xs
    by (induction xs) (auto simp: strcmp_eq_def)
  then show "registry_map s name = map_of (map (\<lambda>rpc. (function_name rpc, acl_cb rpc)) (g_hal_functions_list s)) name"
    by (simp add: registry_map_def get_registered_rpc_action_by_name_def)
qed

lemma registry_dom: "name \<in> dom (registry_map s) \<longleftrightarrow> name \<in> function_name ` set (g_hal_functions_list s)"
  by (simp add: registry_map_map_of dom_map_of_conv_image_fst image_image)

lemma register_cases:
  assumes "nul_free name" and "length name < 64"
  shows "json_hal_server_register_action_callback s name cb =
    (if name \<in> dom (registry_map s) then Inr (RETURN_ERR, s)
     else Inr (RETURN_OK, s\<lparr>g_hal_functions_list :=
       g_hal_functions_list s @ [\<lparr>function_name = name, acl_cb = cb\<rparr>]\<rparr>))"
  using assms
  by (auto simp: json_hal_server_register_action_callback_def registry_dom strcmp_eq_def)

lemma registry_map_append:
  "name \<notin> dom (registry_map s) \<Longrightarrow>
   registry_map (s\<lparr>g_hal_functions_list := g_hal_functions_list s @ [\<lparr>function_name = name, acl_cb = cb\<rparr>]\<rparr>)
     = (registry_map s)(name \<mapsto> cb)"
  by (auto simp: registry_map_map_of map_add_def fun_eq_iff domIff split: option.splits)

primrec add_all :: "('st \<Rightarrow> 'k \<Rightarrow> 'e \<Rightarrow> (int \<times> 'st) cres) \<Rightarrow> 'st \<Rightarrow> ('k \<times> 'e) list \<Rightarrow> 'st cres" where
  "add_all add s [] = Inr s"
| "add_all add s (kv # kvs) = ebind (add s (fst kv) (snd kv)) (\<lambda>(rc, s'). add_all add s' kvs)"

text \<open>The contract of a write-once table: adding returns and refuses a key that is there,
  a new key can be looked up at once, and nothing else changes.\<close>

locale write_once_table =
  fixes keys_ok :: "'k \<Rightarrow> bool"
    and look :: "'st \<Rightarrow> 'k \<rightharpoonup> 'e"
    and add :: "'st \<Rightarrow> 'k \<Rightarrow> 'e \<Rightarrow> (int \<times> 'st) cres"
  assumes add_new: "keys_ok k \<Longrightarrow> look s k = None \<Longrightarrow>
      \<exists>s'. add s k v = Inr (RETURN_OK, s') \<and> look s' = (look s)(k \<mapsto> v)"
    and add_old: "keys_ok k \<Longrightarrow> look s k \<noteq> None \<Longrightarrow> add s k v = Inr (RETURN_ERR, s)"
begin

lemma add_lookup:
  assumes "keys_ok k"
  obtains rc s' where "add s k v = Inr (rc, s')"
    and "look s' = (if look s k = None then (look s)(k \<mapsto> v) else look s)"
    and "rc = (if look s k = None then RETURN_OK else RETURN_ERR)"
  using add_new [OF assms, of s v] add_old [OF assms, of s v] by (cases "look s k") auto

lemma add_all_first_wins:
  "(\<forall>kv \<in> set kvs. keys_ok (fst kv)) \<Longrightarrow>
   \<exists>s'. add_all add s kvs = Inr s' \<and> look s' = map_of kvs ++ look s"
proof (induction kvs arbitrary: s)
  case (Cons kv kvs)
  have "keys_ok (fst kv)" using Cons.prems by simp
  then obtain rc s1 where a: "add s (fst kv) (snd kv) = Inr (rc, s1)"
    "look s1 = (if look s (fst kv) = None then (look s)(fst kv \<mapsto> snd kv) else look s)"
    by (rule add_lookup)
  have "map_of kvs ++ look s1 = map_of (kv # kvs) ++ look s"
    unfolding a(2) by (auto simp: fun_eq_iff map_add_def split: option.splits)
  moreover obtain s' where "add_all add s1 kvs = Inr s'" "look s' = map_of kvs ++ look s1"
    using Cons.IH [of s1] Cons.prems by auto
  ultimately have "add_all add s (kv # kvs) = Inr s' \<and> look s' = map_of (kv # kvs) ++ look s"
    using a(1) by simp
  then show ?case by blast
qed simp

end

definition action_name_ok :: "string \<Rightarrow> bool" where
  "action_name_ok name \<longleftrightarrow> nul_free name \<and> length name < 64"

interpretation registry: write_once_table action_name_ok registry_map json_hal_server_register_action_callback
  by unfold_locales (auto simp: action_name_ok_def register_cases registry_map_append)

text \<open>
  C27: the registry is a write-once map. From a server without registrations, registering any
  sequence of names that fit their array succeeds, and afterwards looking up a name (as the
  request handler does) finds exactly the callback it was first registered with.
\<close>

theorem register_first_wins:
  assumes "g_hal_functions_list s = []" and "\<forall>kv \<in> set kvs. action_name_ok (fst kv)"
  shows "\<exists>s'. add_all json_hal_server_register_action_callback s kvs = Inr s'
    \<and> (\<forall>name. map_option acl_cb (get_registered_rpc_action_by_name s' name) = map_of kvs name)"
proof -
  have "registry_map s = Map.empty" using assms(1) by (simp add: registry_map_map_of)
  with registry.add_all_first_wins [OF assms(2), of s] show ?thesis
    by (auto simp: registry_map_def [symmetric])
qed

text \<open>Concrete instances for the examples: json-c trees with a trivial printer, a system that
  sends messages in pieces, no schema validation.\<close>

definition example_platform :: "(json, unit, string, unit, unit) platform" where
  "example_platform = \<lparr>json = tree_json (\<lambda>_. Some ''{}'') (\<lambda>_. None),
     tok = \<lparr>tok_new = Some (), tok_parse_ex = (\<lambda>t s n. (t, None, json_tokener_error_other, 0))\<rparr>,
     net = chunk_os 1,
     nlohmann = \<lparr>nl_parse = (\<lambda>_. Some ()), nl_new = (), nl_set_root = (\<lambda>_ _. Some ()), nl_validate = (\<lambda>_ _. Some False)\<rparr>,
     blocking = False, validation = False\<rparr>"

definition echo_callback :: "(json, string) action_callback" where
  "echo_callback = (\<lambda>w jobj n jreply. Inr (RETURN_OK, jreply, w))"

theorem register_first_wins_witness:
  "\<exists>s'. add_all json_hal_server_register_action_callback (initial_server [] :: (json, string, unit) server)
       [(''getParameters'', None), (''setParameters'', Some echo_callback), (''getParameters'', Some echo_callback)] = Inr s'
     \<and> map_option acl_cb (get_registered_rpc_action_by_name s' ''getParameters'') = Some None
     \<and> map_option acl_cb (get_registered_rpc_action_by_name s' ''setParameters'') = Some (Some echo_callback)
     \<and> map_option acl_cb (get_registered_rpc_action_by_name s' ''getSchema'') = None"
proof -
  let ?kvs = "[(''getParameters'', None), (''setParameters'', Some echo_callback), (''getParameters'', Some echo_callback)]"
  have "\<forall>kv \<in> set ?kvs. action_name_ok (fst kv)" by (simp add: action_name_ok_def)
  from register_first_wins [OF _ this, of "initial_server [] :: (json, string, unit) server"]
  obtain s' where "add_all json_hal_server_register_action_callback (initial_server [] :: (json, string, unit) server) ?kvs = Inr s'"
    "\<forall>name. map_option acl_cb (get_registered_rpc_action_by_name s' name) = map_of ?kvs name"
    by (auto simp only: initial_server_def server.simps)
  then show ?thesis by (intro exI [of _ s']) simp
qed

section \<open>Subscriptions: invariant and delivery\<close>

text \<open>Every stored event name and awaited id fits its array.\<close>

definition wf_subscription :: "event_subscriptions_list_t \<Rightarrow> bool" where
  "wf_subscription e \<longleftrightarrow> length (es_event e) < 512 \<and> nul_free (es_event e)
     \<and> length (es_req_id e) < 64 \<and> nul_free (es_req_id e)"

definition wf_subscriptions :: "('j, 'w, 'v) server \<Rightarrow> bool" where
  "wf_subscriptions s \<longleftrightarrow> (\<forall>e \<in> set (g_event_subscriptions_list s). wf_subscription e)"

lemma lock_free [simp]:
  "\<not> subscription_mutex s \<Longrightarrow> lock_subscriptions s = Inr (s\<lparr>subscription_mutex := True\<rparr>)"
  by (simp add: lock_subscriptions_def)

lemma lock_held [simp]: "subscription_mutex s \<Longrightarrow> lock_subscriptions s = Inl Deadlock"
  by (simp add: lock_subscriptions_def)

text \<open>What the messages of one call need of the environment: a system whose \<^verbatim>\<open>send\<close>
  behaves as documented and json-c able to print the message.\<close>

definition sends_ok :: "('j, 't, 'w, 's, 'v) platform \<Rightarrow> bool" where
  "sends_ok P \<longleftrightarrow> json_c_ok (json P) \<and> send_documented (net P) \<and> (\<forall>j. jc_to_string (json P) j \<noteq> None)"

lemma sends_ok_json [simp]: "sends_ok P \<Longrightarrow> json_c_ok (json P)"
  by (simp add: sends_ok_def)

lemma socket_send_total:
  assumes "sends_ok P"
  obtains rc w where "socket_send P s fd (Some j) = Inr (rc, s\<lparr>world := w, sent := sent s @ [(fd, j, rc)]\<rparr>)"
    and "rc = RETURN_OK \<or> rc = RETURN_ERR"
proof -
  from assms obtain b where b: "jc_to_string (json P) j = Some b" by (auto simp: sends_ok_def)
  from assms obtain rc n w where "json_rpc_server_send_data (net P) (world s) fd (Some b) = Inr (rc, n, w)"
    "rc = RETURN_OK \<or> rc = RETURN_ERR"
    using server_send.send_total [of "net P" "world s" fd b] by (auto simp: sends_ok_def)
  with b show thesis by (intro that [of rc w]) (simp_all add: socket_send_def)
qed

lemma publish_body_id [simp]:
  "json_c_ok J \<Longrightarrow> jc_object_get_ex J (publish_event_body J c n e v) ''reqId'' = Some (Some (jc_new_int J n))"
  by (simp add: publish_event_body_def)

text \<open>The subscription once message \<open>n\<close> was sent to it.\<close>

definition awaiting :: "('j, 't, 'w, 's, 'v) platform \<Rightarrow> int \<Rightarrow> event_subscriptions_list_t \<Rightarrow> event_subscriptions_list_t" where
  "awaiting P n e = (if blocking P \<and> is_blocking_type (es_event_type e)
     then e\<lparr>es_req_id := strncpy 64 (show_int n), es_status := WAIT_EVENT_REPLY_MSG\<rparr> else e)"

lemma awaiting_simps [simp]:
  "es_fd (awaiting P n e) = es_fd e" "es_event (awaiting P n e) = es_event e"
  "es_event_type (awaiting P n e) = es_event_type e"
  by (simp_all add: awaiting_def)

lemma note_awaited_eq:
  assumes "sends_ok P" and "int_range n"
  shows "note_awaited_reply P e (publish_event_body (json P) c n ev v) b =
    Inr (awaiting P n e, b \<or> blocking P \<and> is_blocking_type (es_event_type e))"
  using assms by (auto simp: note_awaited_reply_def awaiting_def strncpy_def)

lemma get_sequence_number_step:
  "g_seqnumber s < INT_MAX \<Longrightarrow>
   get_sequence_number s = Inr (g_seqnumber s + 1, s\<lparr>g_seqnumber := g_seqnumber s + 1\<rparr>)"
  by (simp add: get_sequence_number_def Let_def)

text \<open>The subscriptions after an event was published, when \<open>n\<close> was the last number used.\<close>

fun mark_published ::
  "('j, 't, 'w, 's, 'v) platform \<Rightarrow> string \<Rightarrow> int \<Rightarrow> event_subscriptions_list_t list \<Rightarrow> event_subscriptions_list_t list" where
  "mark_published P ev n [] = []"
| "mark_published P ev n (e # es) =
     (if starts_with (es_event e) ev then awaiting P (n + 1) e # mark_published P ev (n + 1) es
      else e # mark_published P ev n es)"

abbreviation subscribers :: "string \<Rightarrow> event_subscriptions_list_t list \<Rightarrow> event_subscriptions_list_t list" where
  "subscribers ev es \<equiv> filter (\<lambda>e. starts_with (es_event e) ev) es"

definition addressed :: "(int \<times> 'j \<times> int) list \<Rightarrow> (int \<times> 'j) list" where
  "addressed ms = map (\<lambda>(fd, j, rc). (fd, j)) ms"

definition all_sent :: "(int \<times> 'j \<times> int) list \<Rightarrow> bool" where
  "all_sent ms \<longleftrightarrow> (\<forall>(fd, j, rc) \<in> set ms. rc = RETURN_OK)"

lemma addressed_simps [simp]:
  "addressed [] = []" "addressed ((fd, j, rc) # ms) = (fd, j) # addressed ms"
  "addressed (ms @ ms') = addressed ms @ addressed ms'"
  by (simp_all add: addressed_def)

lemma all_sent_simps [simp]:
  "all_sent []" "all_sent ((fd, j, rc) # ms) \<longleftrightarrow> rc = RETURN_OK \<and> all_sent ms"
  by (auto simp: all_sent_def)

lemma publish_loop_delivers:
  assumes "sends_ok P" and "0 \<le> g_seqnumber s"
    and "g_seqnumber s + int (length (subscribers ev es)) \<le> INT_MAX"
  shows "\<exists>blk' w ms. publish_loop P ev (Some v) ret blk s es =
      Inr (Some (if all_sent ms then ret else RETURN_ERR, blk'),
           mark_published P ev (g_seqnumber s) es,
           s\<lparr>g_seqnumber := g_seqnumber s + int (length (subscribers ev es)), world := w, sent := sent s @ ms\<rparr>)
    \<and> addressed ms = map (\<lambda>(i, e). (es_fd e, publish_event_body (json P) (g_server_config s) (g_seqnumber s + 1 + int i) ev v))
        (enumerate 0 (subscribers ev es))
    \<and> (all_sent ms \<longrightarrow> blk' = (blk \<or> blocking P \<and> (\<exists>e \<in> set (subscribers ev es). is_blocking_type (es_event_type e))))"
  using assms(2,3)
proof (induction es arbitrary: s ret blk)
  case Nil
  show ?case by (rule exI [of _ blk], rule exI [of _ "world s"], rule exI [of _ "[]"]) simp
next
  case (Cons e es)
  let ?J = "json P" and ?n = "g_seqnumber s + 1"
  show ?case
  proof (cases "starts_with (es_event e) ev")
    case False
    then have "\<exists>blk' w ms. publish_loop P ev (Some v) ret blk s es =
        Inr (Some (if all_sent ms then ret else RETURN_ERR, blk'), mark_published P ev (g_seqnumber s) es,
             s\<lparr>g_seqnumber := g_seqnumber s + int (length (subscribers ev es)), world := w, sent := sent s @ ms\<rparr>)
      \<and> addressed ms = map (\<lambda>(i, e). (es_fd e, publish_event_body ?J (g_server_config s) (g_seqnumber s + 1 + int i) ev v))
          (enumerate 0 (subscribers ev es))
      \<and> (all_sent ms \<longrightarrow> blk' = (blk \<or> blocking P \<and> (\<exists>e \<in> set (subscribers ev es). is_blocking_type (es_event_type e))))"
      using Cons.prems by (intro Cons.IH) auto
    then show ?thesis using False by force
  next
    case True
    let ?body = "publish_event_body ?J (g_server_config s) ?n ev v"
    let ?s1 = "s\<lparr>g_seqnumber := ?n\<rparr>"
    have lim: "g_seqnumber s < INT_MAX" and range: "int_range ?n"
      using Cons.prems True by (auto simp: int_range_def config_defs)
    have msg: "create_publish_event_msg ?J s ev (Some v) = Inr (Some ?body, ?s1)"
      using lim by (simp add: create_publish_event_msg_def get_sequence_number_step)
    obtain rc w where snd: "socket_send P ?s1 (es_fd (awaiting P ?n e)) (Some ?body) =
        Inr (rc, ?s1\<lparr>world := w, sent := sent ?s1 @ [(es_fd (awaiting P ?n e), ?body, rc)]\<rparr>)"
      and rc: "rc = RETURN_OK \<or> rc = RETURN_ERR"
      using socket_send_total [OF assms(1)] by blast
    let ?s2 = "s\<lparr>g_seqnumber := ?n, world := w, sent := sent s @ [(es_fd e, ?body, rc)]\<rparr>"
    let ?ret = "if rc = RETURN_OK then ret else RETURN_ERR"
    let ?blk = "if rc = RETURN_OK then blk \<or> blocking P \<and> is_blocking_type (es_event_type e) else False"
    have "g_seqnumber ?s2 + int (length (subscribers ev es)) \<le> INT_MAX" "0 \<le> g_seqnumber ?s2"
      using Cons.prems True by simp_all
    from Cons.IH [OF this(2,1), of ?ret ?blk]
    obtain blk' w' ms where ih: "publish_loop P ev (Some v) ?ret ?blk ?s2 es =
        Inr (Some (if all_sent ms then ?ret else RETURN_ERR, blk'), mark_published P ev ?n es,
             ?s2\<lparr>g_seqnumber := ?n + int (length (subscribers ev es)), world := w', sent := sent ?s2 @ ms\<rparr>)"
      "addressed ms = map (\<lambda>(i, e). (es_fd e, publish_event_body ?J (g_server_config s) (?n + 1 + int i) ev v))
          (enumerate 0 (subscribers ev es))"
      "all_sent ms \<longrightarrow> blk' = (?blk \<or> blocking P \<and> (\<exists>e \<in> set (subscribers ev es). is_blocking_type (es_event_type e)))" by auto
    have tail: "map (\<lambda>(i, e). (es_fd e, publish_event_body ?J (g_server_config s) (g_seqnumber s + 1 + int i) ev v))
          (enumerate (Suc 0) xs)
      = map (\<lambda>(i, e). (es_fd e, publish_event_body ?J (g_server_config s) (?n + 1 + int i) ev v))
          (enumerate 0 xs)" for xs
      by (simp add: enumerate_Suc_eq [of 0] o_def split_def algebra_simps)
    have step: "publish_loop P ev (Some v) ret blk s (e # es) =
        ebind (publish_loop P ev (Some v) ?ret ?blk ?s2 es) (\<lambda>(r, es', s3). Inr (r, awaiting P ?n e # es', s3))"
      using True snd by (simp add: msg note_awaited_eq [OF assms(1) range])
    show ?thesis
      by (rule exI [of _ blk'], rule exI [of _ w'], rule exI [of _ "(es_fd e, ?body, rc) # ms"])
        (unfold step ih(1), use True rc ih(2,3) in \<open>auto simp: tail\<close>)
  qed
qed

lemma mark_published_plain: "\<not> blocking P \<Longrightarrow> mark_published P ev n es = es"
  by (induction es arbitrary: n) (simp_all add: awaiting_def)

lemma mark_published_fds [simp]:
  "map es_fd (mark_published P ev n es) = map es_fd es"
  "map es_event (mark_published P ev n es) = map es_event es"
  "map es_event_type (mark_published P ev n es) = map es_event_type es"
  by (induction es arbitrary: n) simp_all

abbreviation event_messages ::
  "('j, 't, 'w, 's, 'v) platform \<Rightarrow> ('j, 'w, 'v) server \<Rightarrow> string \<Rightarrow> string \<Rightarrow> (int \<times> 'j) list" where
  "event_messages P s ev v \<equiv>
     map (\<lambda>(i, e). (es_fd e, publish_event_body (json P) (g_server_config s) (g_seqnumber s + 1 + int i) ev v))
       (enumerate 0 (subscribers ev (g_event_subscriptions_list s)))"

lemma publish_messages_deliver:
  assumes "sends_ok P" and "\<not> subscription_mutex s" and "0 \<le> g_seqnumber s"
    and "g_seqnumber s + int (length (subscribers ev (g_event_subscriptions_list s))) \<le> INT_MAX"
  shows "\<exists>ms blk s'. publish_messages P s ev (Some v) = Inr (Some (if all_sent ms then RETURN_OK else RETURN_ERR, blk), s')
    \<and> sent s' = sent s @ ms \<and> addressed ms = event_messages P s ev v
    \<and> g_event_subscriptions_list s' = mark_published P ev (g_seqnumber s) (g_event_subscriptions_list s)
    \<and> \<not> subscription_mutex s' \<and> g_server_config s' = g_server_config s
    \<and> g_seqnumber s' = g_seqnumber s + int (length (subscribers ev (g_event_subscriptions_list s)))
    \<and> (all_sent ms \<longrightarrow> blk = (blocking P \<and> (\<exists>e \<in> set (subscribers ev (g_event_subscriptions_list s)). is_blocking_type (es_event_type e))))"
proof -
  let ?s = "s\<lparr>subscription_mutex := True\<rparr>" and ?es = "g_event_subscriptions_list s"
  obtain blk w ms where l: "publish_loop P ev (Some v) RETURN_OK False ?s ?es =
      Inr (Some (if all_sent ms then RETURN_OK else RETURN_ERR, blk), mark_published P ev (g_seqnumber s) ?es,
        ?s\<lparr>g_seqnumber := g_seqnumber s + int (length (subscribers ev ?es)), world := w, sent := sent s @ ms\<rparr>)"
    "addressed ms = event_messages P s ev v"
    "all_sent ms \<longrightarrow> blk = (blocking P \<and> (\<exists>e \<in> set (subscribers ev ?es). is_blocking_type (es_event_type e)))"
    using publish_loop_delivers [OF assms(1), of ?s ev ?es v RETURN_OK False] assms(3,4) by auto
  then show ?thesis using assms(2)
    by (intro exI [of _ ms] exI [of _ blk]) (simp add: publish_messages_def unlock_subscriptions_def Let_def)
qed

lemma publish_plain:
  assumes "sends_ok P" and "\<not> blocking P" and "\<not> subscription_mutex s" and "0 \<le> g_seqnumber s"
    and "g_seqnumber s + int (length (subscribers ev (g_event_subscriptions_list s))) \<le> INT_MAX"
  shows "\<exists>ms s'. json_hal_server_publish_event P s ev (Some v) t0 polls =
      Inr (if all_sent ms then RETURN_OK else RETURN_ERR, s')
    \<and> sent s' = sent s @ ms \<and> addressed ms = event_messages P s ev v
    \<and> g_event_subscriptions_list s' = g_event_subscriptions_list s \<and> \<not> subscription_mutex s'
    \<and> g_server_config s' = g_server_config s
    \<and> g_seqnumber s' = g_seqnumber s + int (length (subscribers ev (g_event_subscriptions_list s)))"
  using publish_messages_deliver [OF assms(1,3-5), of v] assms(2)
  by (auto simp: json_hal_server_publish_event_def mark_published_plain)

text \<open>
  C13: publishing delivers an event to its subscribers. Publishing an event with a value sends
  one message to each subscription whose event name starts with the published name, in the
  order of subscription, with consecutive new sequence numbers, and no other message, and
  releases the lock; it reports success exactly when every message was sent. Without the blocking
  extension it then returns and the subscriptions are as before. With it, the subscriptions of a
  blocking type are marked as waiting for the reply to their message; if every message was sent and there is
  such a subscription, the call waits before it returns, and what the wait reports does not
  change its result.
\<close>

theorem publish_delivers:
  assumes "sends_ok P" and "\<not> subscription_mutex s" and "0 \<le> g_seqnumber s"
    and "g_seqnumber s + int (length (subscribers ev (g_event_subscriptions_list s))) \<le> INT_MAX"
  shows "\<exists>ms blk s'. publish_messages P s ev (Some v) = Inr (Some (if all_sent ms then RETURN_OK else RETURN_ERR, blk), s')
    \<and> sent s' = sent s @ ms \<and> addressed ms = event_messages P s ev v \<and> \<not> subscription_mutex s'
    \<and> g_event_subscriptions_list s' =
        (if blocking P then mark_published P ev (g_seqnumber s) (g_event_subscriptions_list s) else g_event_subscriptions_list s)
    \<and> json_hal_server_publish_event P s ev (Some v) t0 polls =
        (if blocking P \<and> blk
         then ebind (wait_publish_event_reply ev t0 RETURN_OK polls)
                (\<lambda>(_, s2). Inr (if all_sent ms then RETURN_OK else RETURN_ERR, s2))
         else Inr (if all_sent ms then RETURN_OK else RETURN_ERR, s'))
    \<and> (all_sent ms \<and> blocking P \<longrightarrow>
        blk = (\<exists>e \<in> set (subscribers ev (g_event_subscriptions_list s)). is_blocking_type (es_event_type e)))"
proof -
  obtain ms blk s' where m: "publish_messages P s ev (Some v) = Inr (Some (if all_sent ms then RETURN_OK else RETURN_ERR, blk), s')"
    "sent s' = sent s @ ms" "addressed ms = event_messages P s ev v"
    "g_event_subscriptions_list s' = mark_published P ev (g_seqnumber s) (g_event_subscriptions_list s)"
    "\<not> subscription_mutex s'"
    "all_sent ms \<longrightarrow> blk = (blocking P \<and> (\<exists>e \<in> set (subscribers ev (g_event_subscriptions_list s)). is_blocking_type (es_event_type e)))"
    using publish_messages_deliver [OF assms, of v] by blast
  then show ?thesis
    by (intro exI [of _ ms] exI [of _ blk] exI [of _ s']) (simp add: json_hal_server_publish_event_def mark_published_plain)
qed

definition example_subscription :: "int \<Rightarrow> string \<Rightarrow> event_subscriptions_list_t" where
  "example_subscription fd ev = \<lparr>es_fd = fd, es_event = ev, es_event_type = NOTIFICATION_TYPE_ON_CHANGE,
     es_req_id = '''', es_status = NO_EVENT_MSG\<rparr>"

definition example_subscribed :: "(json, string, unit) server" where
  "example_subscribed = (initial_server [])\<lparr>g_event_subscriptions_list :=
     [example_subscription 7 ''Dsl.Line.1'', example_subscription 8 ''Xtm'', example_subscription 9 ''Dsl.Line.2'']\<rparr>"

lemma example_sends_ok [simp]: "sends_ok example_platform"
  by (simp add: sends_ok_def example_platform_def chunk_os_documented) (simp add: tree_json_def)

definition example_blocking_platform :: "(json, unit, string, unit, unit) platform" where
  "example_blocking_platform = example_platform\<lparr>blocking := True\<rparr>"

lemma example_blocking_sends_ok [simp]: "sends_ok example_blocking_platform"
  using example_sends_ok by (simp add: sends_ok_def example_blocking_platform_def)

theorem publish_delivers_witness:
  "\<exists>ms blk s'. publish_messages example_blocking_platform example_subscribed ''Dsl.Line'' (Some ''Up'') =
      Inr (Some (if all_sent ms then RETURN_OK else RETURN_ERR, blk), s')
    \<and> map fst (addressed ms) = [7, 9] \<and> sent s' = ms \<and> (all_sent ms \<longrightarrow> \<not> blk)"
proof -
  have "\<not> subscription_mutex example_subscribed" "0 \<le> g_seqnumber example_subscribed"
    "g_seqnumber example_subscribed + int (length (subscribers ''Dsl.Line'' (g_event_subscriptions_list example_subscribed))) \<le> INT_MAX"
    by (simp_all add: example_subscribed_def initial_server_def example_subscription_def config_defs)
  from publish_delivers [OF example_blocking_sends_ok this, of "''Up''" 0 "[]"]
  obtain ms blk s' where m: "publish_messages example_blocking_platform example_subscribed ''Dsl.Line'' (Some ''Up'') =
      Inr (Some (if all_sent ms then RETURN_OK else RETURN_ERR, blk), s')" "sent s' = sent example_subscribed @ ms"
    "addressed ms = event_messages example_blocking_platform example_subscribed ''Dsl.Line'' ''Up''"
    "all_sent ms \<and> blocking example_blocking_platform \<longrightarrow>
        blk = (\<exists>e \<in> set (subscribers ''Dsl.Line'' (g_event_subscriptions_list example_subscribed)). is_blocking_type (es_event_type e))"
    by blast
  have "all_sent ms \<longrightarrow> \<not> blk"
    using m(4) by (auto simp: example_blocking_platform_def example_subscribed_def example_subscription_def is_blocking_type_def)
  moreover have "map fst (addressed ms) = [7, 9]" "sent s' = ms"
    using m(2,3) by (simp_all add: example_subscribed_def initial_server_def example_subscription_def)
  ultimately show ?thesis using m(1) by (intro exI [of _ ms] exI [of _ blk] exI [of _ s']) simp
qed

lemma publish_loop_null:
  "e \<in> set es \<Longrightarrow> starts_with (es_event e) ev \<Longrightarrow> publish_loop P ev None ret blk s es = Inr (None, es, s)"
  by (induction es) (auto simp: create_publish_event_msg_def)

text \<open>
  C36: an event without a value leaves the server locked. Publishing with a NULL value while
  some subscription matches reports an error after the lock was taken and before it is
  released: every later subscription, disconnection or publication waits for ever.
\<close>

theorem publish_null_value_locks:
  assumes "\<not> subscription_mutex s" and "e \<in> set (g_event_subscriptions_list s)" and "starts_with (es_event e) ev"
  shows "\<exists>s'. json_hal_server_publish_event P s ev None t0 polls = Inr (RETURN_ERR, s')
    \<and> (\<forall>fd. client_disconnected_cb s' fd = Inl Deadlock)
    \<and> (\<forall>data. wf_subscription data \<longrightarrow> add_event_subscription_to_list s' data = Inl Deadlock)
    \<and> (\<forall>ev' v' t0' polls'. json_hal_server_publish_event P s' ev' v' t0' polls' = Inl Deadlock)"
proof -
  let ?s = "s\<lparr>subscription_mutex := True\<rparr>"
  have "json_hal_server_publish_event P s ev None t0 polls = Inr (RETURN_ERR, ?s)"
    using assms(1) by (simp add: publish_event_defs publish_loop_null [OF assms(2,3)])
  then show ?thesis
    by (intro exI [of _ ?s]) (simp add: client_disconnected_cb_def remove_event_subscription_from_list_def
      add_event_subscription_to_list_def publish_event_defs wf_subscription_def)
qed

theorem publish_null_value_locks_witness:
  "\<exists>s'. json_hal_server_publish_event example_platform example_subscribed ''Xtm'' None 0 [] = Inr (RETURN_ERR, s')
    \<and> client_disconnected_cb s' 8 = Inl Deadlock"
  using publish_null_value_locks [of example_subscribed "example_subscription 8 ''Xtm''" "''Xtm''" example_platform 0 "[]"]
  by (auto simp: example_subscribed_def initial_server_def example_subscription_def)

section \<open>Disconnection\<close>

lemma addressed_fds:
  assumes "addressed ms = map (\<lambda>(i, e). (es_fd e, f i)) (enumerate n es)"
  shows "fst ` set (addressed ms) = es_fd ` set es"
proof -
  have "set (addressed ms) = (\<lambda>(i, e). (es_fd e, f i)) ` set (enumerate n es)"
    using assms by simp
  then have "fst ` set (addressed ms) = es_fd ` set (map snd (enumerate n es))"
    by (simp only: image_image split_def fst_conv set_map)
  then show ?thesis by simp
qed

lemma client_disconnected_free:
  "\<not> subscription_mutex s \<Longrightarrow> client_disconnected_cb s fd = Inr (RETURN_OK,
     s\<lparr>g_event_subscriptions_list := filter (\<lambda>e. es_fd e \<noteq> fd) (g_event_subscriptions_list s)\<rparr>)"
  by (cases s) (simp add: client_disconnected_cb_def remove_event_subscription_from_list_def unlock_subscriptions_def)

text \<open>
  A client that has disconnected gets no more events. The disconnection callback returns
  and removes exactly the subscriptions of that descriptor; whatever is published
  afterwards is sent to other descriptors only.
\<close>

lemma disconnect_stops_delivery:
  assumes "sends_ok P" and "\<not> blocking P" and "\<not> subscription_mutex s" and "0 \<le> g_seqnumber s"
    and "g_seqnumber s + int (length (g_event_subscriptions_list s)) \<le> INT_MAX"
  shows "\<exists>s1 rc ms s2. client_disconnected_cb s fd = Inr (RETURN_OK, s1)
    \<and> g_event_subscriptions_list s1 = filter (\<lambda>e. es_fd e \<noteq> fd) (g_event_subscriptions_list s)
    \<and> json_hal_server_publish_event P s1 ev (Some v) t0 polls = Inr (rc, s2)
    \<and> sent s2 = sent s @ ms \<and> fd \<notin> fst ` set (addressed ms)"
proof -
  let ?es = "filter (\<lambda>e. es_fd e \<noteq> fd) (g_event_subscriptions_list s)"
  let ?s1 = "s\<lparr>g_event_subscriptions_list := ?es\<rparr>"
  have "length (subscribers ev ?es) \<le> length (g_event_subscriptions_list s)"
    by (simp only: filter_filter length_filter_le)
  then have "g_seqnumber ?s1 + int (length (subscribers ev (g_event_subscriptions_list ?s1))) \<le> INT_MAX"
    using assms(5) by (simp del: filter_filter)
  from publish_plain [OF assms(1,2) _ _ this, of v t0 polls] assms(3,4)
  obtain ms s2 where "json_hal_server_publish_event P ?s1 ev (Some v) t0 polls =
      Inr (if all_sent ms then RETURN_OK else RETURN_ERR, s2)" "sent s2 = sent s @ ms"
    "addressed ms = map (\<lambda>(i, e). (es_fd e, publish_event_body (json P) (g_server_config ?s1) (g_seqnumber ?s1 + 1 + int i) ev v))
        (enumerate 0 (subscribers ev ?es))" by auto
  moreover from addressed_fds [OF this(3)] have "fst ` set (addressed ms) \<subseteq> es_fd ` set ?es"
    by auto
  ultimately show ?thesis using client_disconnected_free [OF assms(3), of fd] by fastforce
qed

section \<open>The waiting loop\<close>

text \<open>A subscription whose reply to a published event is still missing, and one whose time is up.\<close>

definition unanswered :: "string \<Rightarrow> event_subscriptions_list_t \<Rightarrow> bool" where
  "unanswered ev e \<longleftrightarrow> starts_with (es_event e) ev \<and> is_blocking_type (es_event_type e)
     \<and> es_status e = WAIT_EVENT_REPLY_MSG"

definition expired :: "int \<Rightarrow> int \<Rightarrow> event_subscriptions_list_t \<Rightarrow> bool" where
  "expired t0 t e \<longleftrightarrow> es_event_type e = NOTIFICATION_TYPE_ON_CHANGE_SYNC_TIMEOUT \<and> 10 < t - t0"

lemma scan_event_replies_flags:
  "scan_event_replies ev t0 clock i es (w, t, r) =
     (w \<or> (\<exists>e \<in> set es. unanswered ev e),
      t \<and> (\<forall>k < length es. unanswered ev (es ! k) \<longrightarrow> expired t0 (clock (i + k)) (es ! k)),
      if \<exists>e \<in> set es. starts_with (es_event e) ev \<and> is_blocking_type (es_event_type e)
           \<and> (es_status e = NO_EVENT_MSG \<or> es_status e = EVENT_REPLY_ERROR)
      then RETURN_ERR else r)"
proof (induction es arbitrary: i w t r)
  case (Cons e es)
  have split_all: "(\<forall>k < length (e # es). unanswered ev ((e # es) ! k) \<longrightarrow> expired t0 (clock (i + k)) ((e # es) ! k))
    \<longleftrightarrow> (unanswered ev e \<longrightarrow> expired t0 (clock i) e)
      \<and> (\<forall>k < length es. unanswered ev (es ! k) \<longrightarrow> expired t0 (clock (Suc i + k)) (es ! k))"
    by (simp add: All_less_Suc2)
  show ?case
    unfolding split_all
    by (cases "es_status e") (auto simp: Cons.IH unanswered_def expired_def is_blocking_type_def)
qed simp

text \<open>The polls at which the loop goes on waiting.\<close>

definition still_waiting :: "string \<Rightarrow> int \<Rightarrow> ('j, 'w, 'v) server \<times> (nat \<Rightarrow> int) \<Rightarrow> bool" where
  "still_waiting ev t0 = (\<lambda>(s, clock). let es = g_event_subscriptions_list s in
     \<exists>k < length es. unanswered ev (es ! k) \<and> \<not> expired t0 (clock k) (es ! k))"

lemma unlock_lock [simp]: "\<not> subscription_mutex s \<Longrightarrow> unlock_subscriptions (s\<lparr>subscription_mutex := True\<rparr>) = s"
  by (cases s) (simp add: unlock_subscriptions_def)

lemma wait_step:
  fixes s :: "('j, 'w, 'v) server" and clock :: "nat \<Rightarrow> int" and ev :: string and t0 ret :: int
  assumes "\<not> subscription_mutex s"
  defines "ret' \<equiv> snd (snd (scan_event_replies ev t0 clock 0 (g_event_subscriptions_list s) (False, True, ret)))"
  shows "wait_publish_event_reply ev t0 ret ((s, clock) # polls) =
    (if still_waiting ev t0 (s, clock) then wait_publish_event_reply ev t0 ret' polls
     else Inr (if \<exists>e \<in> set (g_event_subscriptions_list s). unanswered ev e then RETURN_ERR else ret', s))"
proof -
  let ?es = "g_event_subscriptions_list s"
  let ?W = "\<exists>e \<in> set ?es. unanswered ev e"
  let ?T = "\<forall>k < length ?es. unanswered ev (?es ! k) \<longrightarrow> expired t0 (clock k) (?es ! k)"
  have scan: "scan_event_replies ev t0 clock 0 ?es (False, True, ret) = (?W, ?T, ret')"
    unfolding ret'_def by (simp add: scan_event_replies_flags)
  have sw: "still_waiting ev t0 (s, clock) \<longleftrightarrow> ?W \<and> \<not> ?T"
    by (auto simp: still_waiting_def Let_def)
  have "wait_publish_event_reply ev t0 ret ((s, clock) # polls) =
      (if ?W \<and> \<not> ?T then wait_publish_event_reply ev t0 ret' polls
       else Inr (if ?W \<and> ?T then RETURN_ERR else ret', s))"
    using assms(1) by (simp add: scan del: not_all)
  then show ?thesis unfolding sw by (simp del: not_all)
qed

text \<open>
  C29: the blocking publication waits for the replies, and not longer than it should. As long
  as every poll finds a subscription of the event without a reply that may still come (one
  without a time limit, or one asked at most ten seconds ago), the wait goes on; it ends at
  the first poll that finds none, with an error if some reply is missing, and with the state
  that poll found.
\<close>

theorem wait_ends_with_first_settled_poll:
  assumes "\<forall>p \<in> set (waits @ [settled]). \<not> subscription_mutex (fst p)"
    and "\<forall>p \<in> set waits. still_waiting ev t0 p" and "\<not> still_waiting ev t0 settled"
  shows "\<exists>rc. wait_publish_event_reply ev t0 ret (waits @ settled # later) = Inr (rc, fst settled)
    \<and> ((\<exists>e \<in> set (g_event_subscriptions_list (fst settled)). unanswered ev e) \<longrightarrow> rc = RETURN_ERR)
    \<and> wait_publish_event_reply ev t0 ret waits = Inl No_Return"
  using assms
proof (induction waits arbitrary: ret)
  case Nil
  obtain s clock where "settled = (s, clock)" by (cases settled)
  with Nil show ?case by (simp add: wait_step del: wait_publish_event_reply.simps(2))
next
  case (Cons p waits)
  obtain s clock where p: "p = (s, clock)" by (cases p)
  with Cons.prems have "\<not> subscription_mutex s" "still_waiting ev t0 (s, clock)" by auto
  with p Cons.IH Cons.prems show ?case by (simp add: wait_step del: wait_publish_event_reply.simps(2))
qed

definition example_waiting :: "event_subscription_status_t \<Rightarrow> (json, string, unit) server" where
  "example_waiting st = (initial_server [])\<lparr>g_event_subscriptions_list :=
     [(example_subscription 7 ''Dsl.Line.1'')\<lparr>es_event_type := NOTIFICATION_TYPE_ON_CHANGE_SYNC_TIMEOUT,
        es_req_id := ''101'', es_status := st\<rparr>]\<rparr>"

lemmas example_waiting_simps =
  still_waiting_def example_waiting_def initial_server_def example_subscription_def
  unanswered_def expired_def is_blocking_type_def

theorem wait_ends_with_first_settled_poll_witness:
  "\<exists>rc. wait_publish_event_reply ''Dsl'' 5 RETURN_OK
      [(example_waiting WAIT_EVENT_REPLY_MSG, \<lambda>_. 14), (example_waiting EVENT_REPLY_SUCCESS, \<lambda>_. 15)]
    = Inr (rc, example_waiting EVENT_REPLY_SUCCESS)"
  using wait_ends_with_first_settled_poll
    [of "[(example_waiting WAIT_EVENT_REPLY_MSG, \<lambda>_. 14)]" "(example_waiting EVENT_REPLY_SUCCESS, \<lambda>_. 15)"
      "''Dsl''" 5 RETURN_OK "[]"]
  by (simp add: example_waiting_simps)

section \<open>The invariant of the two lists\<close>

definition registry_ok :: "('j, 'w, 'v) server \<Rightarrow> bool" where
  "registry_ok s \<longleftrightarrow> distinct (map function_name (g_hal_functions_list s))
     \<and> (\<forall>r \<in> set (g_hal_functions_list s). action_name_ok (function_name r))"

text \<open>The invariant of the server between two operations: the configuration strings fit their
  arrays, no action is registered twice, the subscriptions are well-formed, the lock is free
  and the sequence number is in its range.\<close>

definition server_inv :: "('j, 'w, 'v) server \<Rightarrow> bool" where
  "server_inv s \<longleftrightarrow> wf_config (g_server_config s) \<and> registry_ok s \<and> wf_subscriptions s \<and> \<not> subscription_mutex s
     \<and> DEFAULT_SEQ_START_NUMBER \<le> g_seqnumber s \<and> g_seqnumber s \<le> INT_MAX"

lemma register_inv:
  "server_inv s \<Longrightarrow> nul_free name \<Longrightarrow> json_hal_server_register_action_callback s name cb = Inr (rc, s') \<Longrightarrow> server_inv s'"
  by (auto simp: json_hal_server_register_action_callback_def result_simps strcpy_Inr_iff server_inv_def
      registry_ok_def wf_subscriptions_def strcmp_eq_def action_name_ok_def split: if_splits)

lemma add_subscription_inv:
  "server_inv s \<Longrightarrow> add_event_subscription_to_list s data = Inr s' \<Longrightarrow> server_inv s'"
  by (auto simp: add_event_subscription_to_list_def result_simps strcpy_Inr_iff server_inv_def
      registry_ok_def wf_subscriptions_def wf_subscription_def unlock_subscriptions_def)

lemma disconnect_inv: "server_inv s \<Longrightarrow> client_disconnected_cb s fd = Inr (rc, s') \<Longrightarrow> server_inv s'"
  by (auto simp: client_disconnected_free server_inv_def registry_ok_def wf_subscriptions_def)

lemma send_keeps:
  "socket_send P s fd m = Inr (rc, s') \<Longrightarrow> \<exists>w ms. s' = s\<lparr>world := w, sent := sent s @ ms\<rparr>"
  by (cases s) (auto simp: socket_send_def result_simps split: option.splits)

lemma send_inv: "socket_send P s fd m = Inr (rc, s') \<Longrightarrow> server_inv s' = server_inv s"
  by (auto dest!: send_keeps simp: server_inv_def registry_ok_def wf_subscriptions_def)

lemma publish_msg_step:
  assumes "create_publish_event_msg J s ev (Some v) = Inr (m, s')" and "g_seqnumber s \<le> INT_MAX"
  shows "m = Some (publish_event_body J (g_server_config s) (g_seqnumber s + 1) ev v)
    \<and> s' = s\<lparr>g_seqnumber := g_seqnumber s + 1\<rparr> \<and> g_seqnumber s + 1 \<le> INT_MAX"
  using assms by (auto simp: create_publish_event_msg_def get_sequence_number_def Let_def result_simps split: if_splits)

lemma strncpy_show_int: "int_range n \<Longrightarrow> length (strncpy 64 (show_int n)) < 64"
proof -
  assume "int_range n"
  then have "long_range n" by (simp add: int_range_def long_range_def config_defs)
  then have "length (show_int n) \<le> 20" by (rule show_int_length)
  moreover have "length (strncpy 64 (show_int n)) \<le> length (show_int n)"
    by (simp add: strncpy_def)
  ultimately show ?thesis by linarith
qed

lemma note_awaited_keeps:
  assumes "json_c_ok (json P)" and "int_range n" and "wf_subscription e"
    and "note_awaited_reply P e (publish_event_body (json P) c n ev v) b = Inr (e', b')"
  shows "wf_subscription e' \<and> es_fd e' = es_fd e \<and> es_event e' = es_event e \<and> es_event_type e' = es_event_type e"
  using assms
  by (auto simp: note_awaited_reply_def wf_subscription_def strncpy_show_int split: if_splits)

lemma publish_loop_inv:
  assumes "json_c_ok (json P)" and "publish_loop P ev (Some v) ret blk s es = Inr (r, es', s')"
    and "100 \<le> g_seqnumber s" and "g_seqnumber s \<le> INT_MAX" and "\<forall>e \<in> set es. wf_subscription e"
  shows "r \<noteq> None \<and> (\<forall>e \<in> set es'. wf_subscription e)
    \<and> (\<exists>n w ms. s' = s\<lparr>g_seqnumber := n, world := w, sent := sent s @ ms\<rparr> \<and> 100 \<le> n \<and> n \<le> INT_MAX)"
  using assms(2-5)
proof (induction es arbitrary: s ret blk r es' s')
  case Nil
  have "s' = s\<lparr>g_seqnumber := g_seqnumber s, world := world s, sent := sent s @ []\<rparr>"
    using Nil by simp
  with Nil show ?case by fastforce
next
  case (Cons e es)
  show ?case
  proof (cases "starts_with (es_event e) ev")
    case False
    with Cons.prems(1) obtain es1 where l: "publish_loop P ev (Some v) ret blk s es = Inr (r, es1, s')" "es' = e # es1"
      by (auto simp: result_simps)
    with Cons.IH [OF l(1)] Cons.prems show ?thesis by simp
  next
    case True
    with Cons.prems(1) obtain m s1 where msg: "create_publish_event_msg (json P) s ev (Some v) = Inr (m, s1)"
      by (auto simp: result_simps)
    note m = publish_msg_step [OF msg Cons.prems(3)]
    then have range: "int_range (g_seqnumber s + 1)" using Cons.prems(2) by (simp add: int_range_def config_defs)
    let ?body = "publish_event_body (json P) (g_server_config s) (g_seqnumber s + 1) ev v"
    have "ebind (note_awaited_reply P e ?body blk) (\<lambda>(e1, b1).
        ebind (socket_send P s1 (es_fd e1) (Some ?body)) (\<lambda>(rc, s2).
        ebind (publish_loop P ev (Some v) (if rc = RETURN_OK then ret else RETURN_ERR)
                 (if rc = RETURN_OK then b1 else False) s2 es)
          (\<lambda>(r, es1, s3). Inr (r, e1 # es1, s3)))) = Inr (r, es', s')"
      using True Cons.prems(1) msg m by simp
    then obtain e1 b1 where aw: "note_awaited_reply P e ?body blk = Inr (e1, b1)"
      and rest: "ebind (socket_send P s1 (es_fd e1) (Some ?body)) (\<lambda>(rc, s2).
        ebind (publish_loop P ev (Some v) (if rc = RETURN_OK then ret else RETURN_ERR)
                 (if rc = RETURN_OK then b1 else False) s2 es)
          (\<lambda>(r, es1, s3). Inr (r, e1 # es1, s3))) = Inr (r, es', s')" by (rule ebind_pairE)
    from rest obtain rc s2 where snd: "socket_send P s1 (es_fd e1) (Some ?body) = Inr (rc, s2)"
      and rest: "ebind (publish_loop P ev (Some v) (if rc = RETURN_OK then ret else RETURN_ERR)
                 (if rc = RETURN_OK then b1 else False) s2 es)
          (\<lambda>(r, es1, s3). Inr (r, e1 # es1, s3)) = Inr (r, es', s')" by (rule ebind_pairE)
    from rest obtain ret2 b2 es1 where
      rest: "publish_loop P ev (Some v) ret2 b2 s2 es = Inr (r, es1, s')" and es': "es' = e1 # es1"
      by (rule ebind_tripleE) auto
    from send_keeps [OF snd] obtain w ms where s2: "s2 = s1\<lparr>world := w, sent := sent s1 @ ms\<rparr>" by blast
    have wf: "wf_subscription e1" using note_awaited_keeps [OF assms(1) range _ aw] Cons.prems(4) by simp
    have pre: "100 \<le> g_seqnumber s2" "g_seqnumber s2 \<le> INT_MAX" "\<forall>e \<in> set es. wf_subscription e"
      using s2 m Cons.prems(2,4) by simp_all
    from Cons.IH [OF rest pre] obtain n w' ms' where ih: "r \<noteq> None" "\<forall>e \<in> set es1. wf_subscription e"
      "s' = s2\<lparr>g_seqnumber := n, world := w', sent := sent s2 @ ms'\<rparr>" "100 \<le> n" "n \<le> INT_MAX" by blast
    from ih(3) have "s' = s\<lparr>g_seqnumber := n, world := w', sent := sent s @ (ms @ ms')\<rparr>"
      using s2 m by simp
    with ih(4,5) have "\<exists>n w ms. s' = s\<lparr>g_seqnumber := n, world := w, sent := sent s @ ms\<rparr> \<and> 100 \<le> n \<and> n \<le> INT_MAX"
      by blast
    with ih(1,2) wf es' show ?thesis by simp
  qed
qed

text \<open>Publishing keeps the invariant; in the blocking build the state it returns is the one the
  last poll found.\<close>

lemma wait_result: "wait_publish_event_reply ev t0 ret polls = Inr (rc, s') \<Longrightarrow>
   \<not> subscription_mutex s' \<and> (\<exists>s clock. (s, clock) \<in> set polls \<and> \<not> subscription_mutex s \<and> s' = s)"
proof (induction polls arbitrary: ret)
  case (Cons p polls)
  obtain s clock where p: "p = (s, clock)" by (cases p)
  show ?case
  proof (cases "subscription_mutex s")
    case True
    with Cons.prems p show ?thesis by simp
  next
    case False
    with Cons.prems p Cons.IH show ?thesis
      by (auto simp: wait_step simp del: wait_publish_event_reply.simps(2) split: if_splits)
  qed
qed simp

lemma publish_inv:
  assumes "json_c_ok (json P)" and "server_inv s"
    and "\<forall>p \<in> set polls. subscription_mutex (fst p) \<or> server_inv (fst p)"
    and "json_hal_server_publish_event P s ev (Some v) t0 polls = Inr (rc, s')"
  shows "server_inv s'"
proof -
  let ?s = "s\<lparr>subscription_mutex := True\<rparr>"
  from assms(2) have free: "\<not> subscription_mutex s" by (simp add: server_inv_def)
  with assms(4) obtain r es s1 where
    l: "publish_loop P ev (Some v) RETURN_OK False ?s (g_event_subscriptions_list ?s) = Inr (r, es, s1)"
    by (auto simp: publish_event_defs result_simps)
  from publish_loop_inv [OF assms(1) l] assms(2) obtain ret b n w ms where r: "r = Some (ret, b)"
    and es: "\<forall>e \<in> set es. wf_subscription e" and n: "100 \<le> n" "n \<le> INT_MAX"
    and s1: "s1 = ?s\<lparr>g_seqnumber := n, world := w, sent := sent s @ ms\<rparr>"
    by (auto simp: server_inv_def wf_subscriptions_def)
  let ?done = "unlock_subscriptions (s1\<lparr>g_event_subscriptions_list := es\<rparr>)"
  have "server_inv ?done"
    using assms(2) es n s1 by (simp add: server_inv_def wf_subscriptions_def registry_ok_def unlock_subscriptions_def)
  moreover have "s' = ?done \<or> (\<exists>rc'. wait_publish_event_reply ev t0 RETURN_OK polls = Inr (rc', s'))"
    using assms(4) free l r by (auto simp: publish_event_defs result_simps Let_def split: if_splits)
  ultimately show ?thesis using assms(3) wait_result by fastforce
qed

end
