(* ===== verification/Server_Requests.thy ===== *)
theory Server_Requests
  imports Server_Events
begin

text \<open>
  Requests: \<^verbatim>\<open>message_process_cb\<close> of \<^verbatim>\<open>json_hal_server.c\<close> with the functions it
  calls to read a subscription and an event reply, and the life cycle of the server
  (\<^verbatim>\<open>json_hal_server_init\<close>, \<^verbatim>\<open>json_hal_server_terminate\<close>).

  The handler of one request returns how the loop goes on, the new state and the number of
  references it leaves on the request object, which starts with one; releasing it once more
  is the fault \<open>Double_Free\<close>.
\<close>

section \<open>Reading a subscription\<close>

definition zero_subscription :: event_subscriptions_list_t where
  "zero_subscription = \<lparr>es_fd = 0, es_event = '''', es_event_type = NOTIFICATION_TYPE_ON_CHANGE,
     es_req_id = '''', es_status = NO_EVENT_MSG\<rparr>"

definition initialise_event_subscription_data ::
  "event_subscriptions_list_t option \<Rightarrow> int \<times> event_subscriptions_list_t option" where
  "initialise_event_subscription_data data =
     (case data of
        None \<Rightarrow> (RETURN_ERR, None)
      | Some _ \<Rightarrow> (RETURN_OK, Some (zero_subscription\<lparr>es_event_type := NOTIFICATION_TYPE_INVALID,
          es_status := NO_EVENT_MSG\<rparr>)))"

text \<open>\<^verbatim>\<open>strncmp (s, t, BUF_512) == 0\<close> on the notification type.\<close>

definition notification_type :: "string \<Rightarrow> eNotificationType_t" where
  "notification_type t =
     (if strncmp_eq t JSON_RPC_NOTIFICATION_ON_CHANGE BUF_512 then NOTIFICATION_TYPE_ON_CHANGE
      else if strncmp_eq t JSON_RPC_NOTIFICATION_ON_CHANGE_SYNC BUF_512 then NOTIFICATION_TYPE_ON_CHANGE_SYNC
      else if strncmp_eq t JSON_RPC_NOTIFICATION_ON_CHANGE_SYNC_TIMEOUT BUF_512
      then NOTIFICATION_TYPE_ON_CHANGE_SYNC_TIMEOUT
      else NOTIFICATION_TYPE_ON_CHANGE)"

definition json_hal_get_subscribe_event_request ::
  "('j, 't, 'w, 's, 'v) platform \<Rightarrow> 'j option \<Rightarrow> int \<Rightarrow> (int \<times> hal_subscribe_event_request_t) cres" where
  "json_hal_get_subscribe_event_request P jmsg index =
     (let J = json P; param = \<lparr>sr_name = '''', sr_type = NOTIFICATION_TYPE_ON_CHANGE\<rparr> in
      case get_ex J jmsg JSON_RPC_FIELD_PARAMS of
        None \<Rightarrow> Inr (RETURN_ERR, param)
      | Some jparams \<Rightarrow>
          ebind (arr_get_idx J jparams index) (\<lambda>jparam.
          case get_ex J jparam JSON_RPC_FIELD_PARAM_NAME of
            None \<Rightarrow> Inr (RETURN_ERR, param)
          | Some jname \<Rightarrow>
              ebind (get_str J jname) (\<lambda>name.
              let param = param\<lparr>sr_name := strncpy BUF_512 name\<rparr> in
              case get_ex J jparam JSON_RPC_FIELD_PARAM_NOTIFICATION_TYPE of
                None \<Rightarrow> Inr (RETURN_ERR, param)
              | Some jtype \<Rightarrow>
                  if blocking P
                  then ebind (get_str J jtype) (\<lambda>t. Inr (RETURN_OK, param\<lparr>sr_type := notification_type t\<rparr>))
                  else Inr (RETURN_OK, param\<lparr>sr_type := NOTIFICATION_TYPE_ON_CHANGE\<rparr>))))"

text \<open>A request that is not a subscription is released here, and the error reported.\<close>

definition get_event_subscription_data_from_msg ::
  "('j, 't, 'w, 's, 'v) platform \<Rightarrow> 'j \<Rightarrow> nat \<Rightarrow> event_subscriptions_list_t
   \<Rightarrow> (int \<times> event_subscriptions_list_t \<times> nat) cres" where
  "get_event_subscription_data_from_msg P jmsg refs data =
     ebind (json_hal_get_subscribe_event_request P (Some jmsg) JSON_RPC_PARAM_ARR_INDEX) (\<lambda>(ret, req_param).
       if ret = RETURN_OK
       then Inr (RETURN_OK, data\<lparr>es_event := strncpy BUF_512 (sr_name req_param), es_event_type := sr_type req_param\<rparr>, refs)
       else ebind (json_object_put refs) (\<lambda>refs. Inr (RETURN_ERR, data, refs)))"

section \<open>Reading an event reply\<close>

text \<open>Status, event name and id of a reply; \<open>None\<close> where the code logs an error, releases the
  message and returns.\<close>

definition event_reply_name ::
  "'j json_c \<Rightarrow> 'j \<Rightarrow> event_subscriptions_list_t \<Rightarrow> event_subscriptions_list_t option cres" where
  "event_reply_name J jmsg data =
     (case get_ex J (Some jmsg) JSON_RPC_FIELD_PARAMS of
        None \<Rightarrow> Inr (Some data)
      | Some jparams \<Rightarrow>
          ebind (arr_get_idx J jparams JSON_RPC_PARAM_ARR_INDEX) (\<lambda>jresponse_params.
            case get_ex J jresponse_params JSON_RPC_FIELD_PARAM_NAME of
              None \<Rightarrow> Inr None
            | Some v \<Rightarrow> ebind (get_str J v) (\<lambda>n. Inr (Some (data\<lparr>es_event := strncpy BUF_512 n\<rparr>)))))"

definition event_reply_id ::
  "'j json_c \<Rightarrow> 'j \<Rightarrow> event_subscriptions_list_t \<Rightarrow> event_subscriptions_list_t option cres" where
  "event_reply_id J jmsg data =
     (case get_ex J (Some jmsg) JSON_RPC_FIELD_ID of
        None \<Rightarrow> Inr None
      | Some v \<Rightarrow> ebind (get_str J v) (\<lambda>i. Inr (Some (data\<lparr>es_req_id := strncpy BUF_64 i\<rparr>))))"

definition event_reply_fields ::
  "'j json_c \<Rightarrow> 'j \<Rightarrow> event_subscriptions_list_t \<Rightarrow> event_subscriptions_list_t option cres" where
  "event_reply_fields J jmsg data =
     (case get_ex J (Some jmsg) JSON_RPC_FILED_RESULT of
        None \<Rightarrow> Inr None
      | Some jresult \<Rightarrow>
          (case get_ex J jresult JSON_RPC_PARAM_STATUS_FIELD of
             None \<Rightarrow> Inr None
           | Some jstatus \<Rightarrow>
               ebind (get_str J jstatus) (\<lambda>result.
               ebind (event_reply_name J jmsg (data\<lparr>es_status :=
                   if starts_with result JSON_RPC_STATUS_SUCCESS then EVENT_REPLY_SUCCESS else EVENT_REPLY_ERROR\<rparr>))
                 (\<lambda>r. case r of None \<Rightarrow> Inr None | Some data' \<Rightarrow> event_reply_id J jmsg data'))))"

definition get_event_reply_data_from_msg ::
  "'j json_c \<Rightarrow> 'j \<Rightarrow> nat \<Rightarrow> event_subscriptions_list_t \<Rightarrow> (int \<times> event_subscriptions_list_t \<times> nat) cres" where
  "get_event_reply_data_from_msg J jmsg refs data =
     ebind (event_reply_fields J jmsg data) (\<lambda>r.
       case r of
         Some data' \<Rightarrow> Inr (RETURN_OK, data', refs)
       | None \<Rightarrow> ebind (json_object_put refs) (\<lambda>refs. Inr (RETURN_ERR, data, refs)))"

text \<open>The loop that stores the status of a reply in the subscriptions it belongs to.\<close>

fun update_event_status ::
  "int \<Rightarrow> event_subscriptions_list_t \<Rightarrow> event_subscriptions_list_t list \<Rightarrow> event_subscriptions_list_t list cres" where
  "update_event_status fd data [] = Inr []"
| "update_event_status fd data (subs # rest) =
     ebind (read_buf BUF_512 (es_event data)) (\<lambda>event.
     ebind (if starts_with (es_event subs) event \<and> es_fd subs = fd
            then ebind (read_buf BUF_64 (es_req_id data)) (\<lambda>req_id.
              Inr (if starts_with (es_req_id subs) req_id then subs\<lparr>es_status := es_status data\<rparr> else subs))
            else Inr subs) (\<lambda>subs'.
     ebind (update_event_status fd data rest) (\<lambda>rest'. Inr (subs' # rest'))))"

section \<open>One request\<close>

datatype flow = Continue | Break | Return int

definition send_status_reply ::
  "('j, 't, 'w, 's, 'v) platform \<Rightarrow> ('j, 'w, 'v) server \<Rightarrow> int \<Rightarrow> string \<Rightarrow> response_msg_type_t
   \<Rightarrow> ('j, 'w, 'v) server cres" where
  "send_status_reply P s fd req_id type =
     ebind (read_buf BUF_64 req_id) (\<lambda>id.
     ebind (socket_send P s fd (Some (create_json_reply_msg (json P) (g_server_config s) id type)))
       (\<lambda>(_, s). Inr s))"

text \<open>Case 1 (blocking build only): the message is the reply to an event.\<close>

definition process_event_reply ::
  "('j, 't, 'w, 's, 'v) platform \<Rightarrow> ('j, 'w, 'v) server \<Rightarrow> int \<Rightarrow> 'j \<Rightarrow> nat
   \<Rightarrow> (flow \<times> ('j, 'w, 'v) server \<times> nat) cres" where
  "process_event_reply P s fd jobj refs =
     ebind (get_event_reply_data_from_msg (json P) jobj refs zero_subscription) (\<lambda>(ret_code, data, refs).
       if ret_code \<noteq> RETURN_OK
       then ebind (json_object_put refs) (\<lambda>refs. Inr (Continue, s, refs))
       else
         ebind (lock_subscriptions s) (\<lambda>s.
         ebind (update_event_status fd data (g_event_subscriptions_list s)) (\<lambda>es.
         ebind (json_object_put refs) (\<lambda>refs.
           Inr (Continue, unlock_subscriptions (s\<lparr>g_event_subscriptions_list := es\<rparr>), refs)))))"

text \<open>Case 2: no method, or no handler, for the action.\<close>

definition process_unsupported ::
  "('j, 't, 'w, 's, 'v) platform \<Rightarrow> ('j, 'w, 'v) server \<Rightarrow> int \<Rightarrow> string \<Rightarrow> string \<Rightarrow> nat
   \<Rightarrow> (flow \<times> ('j, 'w, 'v) server \<times> nat) cres" where
  "process_unsupported P s fd req_id action_name refs =
     ebind (read_buf BUF_64 action_name) (\<lambda>_.
     ebind (send_status_reply P s fd req_id RESPONSE_NOT_SUPPORTED) (\<lambda>s.
     ebind (json_object_put refs) (\<lambda>refs. Inr (Continue, s, refs))))"

text \<open>The end of case 3: a subscription request is entered in the list.\<close>

definition process_subscription ::
  "('j, 't, 'w, 's, 'v) platform \<Rightarrow> ('j, 'w, 'v) server \<Rightarrow> int \<Rightarrow> 'j \<Rightarrow> string \<Rightarrow> nat
   \<Rightarrow> (flow \<times> ('j, 'w, 'v) server \<times> nat) cres" where
  "process_subscription P s fd jobj action_name refs =
     (if starts_with action_name JSON_RPC_SUBSCRIBE_EVENT_ACTION_NAME
      then
        (case initialise_event_subscription_data (Some zero_subscription) of
           (rc, Some event_subs) \<Rightarrow>
             if rc \<noteq> RETURN_OK
             then ebind (json_object_put refs) (\<lambda>refs. Inr (Return RETURN_ERR, s, refs))
             else
               ebind (get_event_subscription_data_from_msg P jobj refs event_subs) (\<lambda>(ret_code, event_subs, refs).
                 if ret_code \<noteq> RETURN_OK
                 then ebind (json_object_put refs) (\<lambda>refs. Inr (Break, s, refs))
                 else
                   ebind (add_event_subscription_to_list s (event_subs\<lparr>es_fd := fd\<rparr>)) (\<lambda>s.
                   ebind (json_object_put refs) (\<lambda>refs. Inr (Continue, s, refs))))
         | (rc, None) \<Rightarrow> ebind (json_object_put refs) (\<lambda>refs. Inr (Return RETURN_ERR, s, refs)))
      else ebind (json_object_put refs) (\<lambda>refs. Inr (Continue, s, refs)))"

text \<open>The number of parameters the callback is told.\<close>

definition request_param_count :: "'j json_c \<Rightarrow> 'j \<Rightarrow> nat cres" where
  "request_param_count J jobj =
     (case get_ex J (Some jobj) JSON_RPC_FIELD_PARAMS of
        None \<Rightarrow> Inr 0
      | Some jparams \<Rightarrow> arr_length J jparams)"

text \<open>Whether the reply the callback made may be sent: the schema check of the validating build.\<close>

definition reply_validates ::
  "('j, 't, 'w, 's, 'v) platform \<Rightarrow> ('j, 'w, 'v) server \<Rightarrow> 'j \<Rightarrow> bool cres" where
  "reply_validates P s jreply_msg =
     (if validation P
      then ebind (json_validator_validate_request (nlohmann P) (validator s) (jc_to_string (json P) jreply_msg))
             (\<lambda>rc. Inr (rc = RETURN_OK))
      else Inr True)"

text \<open>Case 3: a registered handler.\<close>

definition process_action ::
  "('j, 't, 'w, 's, 'v) platform \<Rightarrow> ('j, 'w, 'v) server \<Rightarrow> int \<Rightarrow> 'j \<Rightarrow> string \<Rightarrow> string
   \<Rightarrow> ('j, 'w) action_callback \<Rightarrow> nat \<Rightarrow> (flow \<times> ('j, 'w, 'v) server \<times> nat) cres" where
  "process_action P s fd jobj req_id action_name cb refs =
     ebind (request_param_count (json P) jobj) (\<lambda>req_param_count.
     ebind (read_buf BUF_64 req_id) (\<lambda>id.
     ebind (cb (world s) jobj (int req_param_count)
       (prepare_json_response_header (json P) (g_server_config s) action_name id)) (\<lambda>(cb_rc, jreply_msg, w).
     let s = s\<lparr>world := w\<rparr> in
       if cb_rc = RETURN_OK
       then
         ebind (reply_validates P s jreply_msg) (\<lambda>ok.
           if \<not> ok
           then
             ebind (send_status_reply P s fd req_id RESPONSE_NOT_SUPPORTED) (\<lambda>s.
             ebind (json_object_put refs) (\<lambda>refs. Inr (Continue, s, refs)))
           else
             ebind (socket_send P s fd (Some jreply_msg)) (\<lambda>(_, s).
               process_subscription P s fd jobj action_name refs))
       else
         ebind (send_status_reply P s fd req_id RESPONSE_FAILURE) (\<lambda>s.
         ebind (json_object_put refs) (\<lambda>refs. Inr (Continue, s, refs))))))"

text \<open>The body of the loop for an object the tokener found.\<close>

definition process_request ::
  "('j, 't, 'w, 's, 'v) platform \<Rightarrow> ('j, 'w, 'v) server \<Rightarrow> int \<Rightarrow> 'j
   \<Rightarrow> (flow \<times> ('j, 'w, 'v) server \<times> nat) cres" where
  "process_request P s fd jobj =
     (case get_ex (json P) (Some jobj) JSON_RPC_FIELD_ID of
        None \<Rightarrow> ebind (json_object_put 1) (\<lambda>refs. Inr (Continue, s, refs))
      | Some jid \<Rightarrow>
          ebind (get_str (json P) jid) (\<lambda>id.
          let req_id = strncpy BUF_64 id in
          case get_ex (json P) (Some jobj) JSON_RPC_FIELD_ACTION of
            None \<Rightarrow> ebind (json_object_put 1) (\<lambda>refs. Inr (Continue, s, refs))
          | Some jaction \<Rightarrow>
              ebind (get_str (json P) jaction) (\<lambda>action.
              let action_name = strncpy BUF_64 action in
              case get_registered_rpc_action_by_name s action_name of
                None \<Rightarrow>
                  if blocking P \<and> starts_with action_name JSON_RPC_ACTION_RESULT
                  then process_event_reply P s fd jobj 1
                  else process_unsupported P s fd req_id action_name 1
              | Some rpc \<Rightarrow>
                  (case acl_cb rpc of
                     None \<Rightarrow> process_unsupported P s fd req_id action_name 1
                   | Some cb \<Rightarrow> process_action P s fd jobj req_id action_name cb 1))))"

section \<open>The message loop\<close>

text \<open>The loop advances by what the tokener reports as consumed; the fuel bounds the number of
  turns and one unit per byte is enough (\<open>message_loop_returns\<close>).\<close>

fun message_loop ::
  "nat \<Rightarrow> ('j, 't, 'w, 's, 'v) platform \<Rightarrow> ('j, 'w, 'v) server \<Rightarrow> int \<Rightarrow> string \<Rightarrow> int \<Rightarrow> 't \<Rightarrow> int
   \<Rightarrow> (int \<times> ('j, 'w, 'v) server) cres" where
  "message_loop 0 P s fd buffer len t start_pos = Inl No_Return"
| "message_loop (Suc fuel) P s fd buffer len t start_pos =
     (if start_pos < len
      then
        (case tok_parse_ex (tok P) t (drop (nat start_pos) buffer) (len - start_pos) of
           (t', None, jerr, parse_end) \<Rightarrow>
             if jerr \<noteq> json_tokener_continue then Inr (RETURN_ERR, s)
             else message_loop fuel P s fd buffer len t' (start_pos + parse_end)
         | (t', Some jobj, jerr, parse_end) \<Rightarrow>
             ebind (process_request P s fd jobj) (\<lambda>(flow, s', refs).
               case flow of
                 Continue \<Rightarrow> message_loop fuel P s' fd buffer len t' (start_pos + parse_end)
               | Break \<Rightarrow> Inr (RETURN_OK, s')
               | Return rc \<Rightarrow> Inr (rc, s')))
      else Inr (RETURN_OK, s))"

definition message_process_cb ::
  "('j, 't, 'w, 's, 'v) platform \<Rightarrow> ('j, 'w, 'v) server \<Rightarrow> int \<Rightarrow> string option \<Rightarrow> int
   \<Rightarrow> (int \<times> ('j, 'w, 'v) server) cres" where
  "message_process_cb P s fd buffer len =
     (case buffer of
        None \<Rightarrow> Inr (RETURN_ERR, s)
      | Some b \<Rightarrow>
          (case tok_new (tok P) of
             None \<Rightarrow> Inr (RETURN_ERR, s)
           | Some t \<Rightarrow> message_loop (Suc (nat len)) P s fd b len t 0))"

section \<open>Life cycle\<close>

text \<open>Initialisation: the configuration, the parameters of the TCP server and, in the validating
  build, the validator.\<close>

definition json_hal_server_init ::
  "('j, 't, 'w, 's, 'v) platform \<Rightarrow> files \<Rightarrow> ('j, 'w, 'v) server \<Rightarrow> string option
   \<Rightarrow> (int \<times> ('j, 'w, 'v) server) cres" where
  "json_hal_server_init P fs s hal_conf_path =
     (case hal_conf_path of
        None \<Rightarrow> Inr (RETURN_ERR, s)
      | Some path \<Rightarrow>
          ebind (json_hal_load_config (json P) fs (Some path) (Some (g_server_config s))) (\<lambda>(ret_code, c).
            let s = (case c of None \<Rightarrow> s | Some c' \<Rightarrow> s\<lparr>g_server_config := c'\<rparr>) in
            if ret_code \<noteq> RETURN_OK then Inr (ret_code, s)
            else
              let s = s\<lparr>rpc_port := server_port_number (g_server_config s), rpc_running := False\<rparr> in
              if validation P
              then
                let (rc, v) = json_validator_init (nlohmann P) (fs_open fs) (validator s)
                      (Some (hal_schema_path (g_server_config s)))
                in Inr (rc, s\<lparr>validator := v\<rparr>)
              else Inr (ret_code, s)))"

text \<open>Termination asks the socket thread to stop, polls it, and frees the two lists.\<close>

definition json_hal_server_terminate ::
  "('j, 't, 'w, 's, 'v) platform \<Rightarrow> ('j, 'w, 'v) server \<Rightarrow> (nat \<Rightarrow> bool) \<Rightarrow> int \<times> nat \<times> ('j, 'w, 'v) server" where
  "json_hal_server_terminate P s stopped =
     (let s = s\<lparr>rpc_running := False\<rparr>;
          polls = await_stop stopped 0 IDLE_TIMEOUT_PERIOD;
          s = s\<lparr>g_hal_functions_list := [], g_event_subscriptions_list := []\<rparr>;
          s = (if validation P then s\<lparr>validator := snd (json_validator_terminate (validator s))\<rparr> else s)
      in (RETURN_OK, polls, s))"

section \<open>Every request is answered once and released once\<close>

text \<open>The state after one message \<open>j\<close> was sent to \<open>fd\<close>.\<close>

definition sent_one :: "('j, 'w, 'v) server \<Rightarrow> int \<Rightarrow> 'j \<Rightarrow> ('j, 'w, 'v) server \<Rightarrow> bool" where
  "sent_one s fd j s' \<longleftrightarrow> (\<exists>rc w. s' = s\<lparr>world := w, sent := sent s @ [(fd, j, rc)]\<rparr>)"

lemma sent_oneD: "sent_one s fd j s' \<Longrightarrow> addressed (sent s') = addressed (sent s) @ [(fd, j)]"
  by (auto simp: sent_one_def)

lemma sent_one_world: "sent_one (s\<lparr>world := w\<rparr>) fd j s' \<Longrightarrow> sent_one s fd j s'"
  by (auto simp: sent_one_def)

lemma sent_one_keeps:
  "sent_one s fd j s' \<Longrightarrow> g_event_subscriptions_list s' = g_event_subscriptions_list s
     \<and> g_hal_functions_list s' = g_hal_functions_list s \<and> subscription_mutex s' = subscription_mutex s
     \<and> g_seqnumber s' = g_seqnumber s \<and> g_server_config s' = g_server_config s \<and> validator s' = validator s"
  by (auto simp: sent_one_def)

lemma socket_send_one:
  assumes "sends_ok P"
  shows "\<exists>rc s'. socket_send P s fd (Some j) = Inr (rc, s') \<and> sent_one s fd j s'"
  using socket_send_total [OF assms, of s fd j] by (metis sent_one_def)

lemma send_status_reply_one:
  assumes "sends_ok P" and "length req_id < 64"
  shows "\<exists>s'. send_status_reply P s fd req_id ty = Inr s'
    \<and> sent_one s fd (create_json_reply_msg (json P) (g_server_config s) req_id ty) s'"
  using socket_send_one [OF assms(1), of s fd "create_json_reply_msg (json P) (g_server_config s) req_id ty"] assms(2)
  by (auto simp: send_status_reply_def)

lemma send_status_reply_cases:
  assumes "sends_ok P" and "send_status_reply P s fd req_id ty = Inr s'"
  shows "length req_id < 64 \<and> sent_one s fd (create_json_reply_msg (json P) (g_server_config s) req_id ty) s'"
proof -
  have "length req_id < 64" using assms(2) by (auto simp: send_status_reply_def ebind_eq_Inr_iff)
  with send_status_reply_one [OF assms(1) this, of s fd ty] assms(2) show ?thesis by auto
qed

lemma process_subscription_released:
  assumes "process_subscription P s fd jobj action 1 = Inr (flow, s', refs)"
  shows "flow = Continue \<and> refs = 0 \<and> sent s' = sent s"
  using assms
  by (auto simp: process_subscription_def initialise_event_subscription_data_def
      get_event_subscription_data_from_msg_def add_event_subscription_to_list_def lock_subscriptions_def
      unlock_subscriptions_def result_simps json_object_put_def split: if_splits)

lemma event_reply_data_refs:
  assumes "get_event_reply_data_from_msg J jobj 1 data0 = Inr (rc, data, refs)"
  shows "rc = RETURN_OK \<and> refs = 1 \<or> rc = RETURN_ERR \<and> refs = 0"
proof -
  from assms obtain r where "event_reply_fields J jobj data0 = Inr r"
    and "(case r of Some data' \<Rightarrow> Inr (RETURN_OK, data', 1)
       | None \<Rightarrow> ebind (json_object_put 1) (\<lambda>refs. Inr (RETURN_ERR, data0, refs))) = (Inr (rc, data, refs) :: _ cres)"
    unfolding get_event_reply_data_from_msg_def by (rule ebindE)
  then show ?thesis by (cases r) auto
qed

lemma process_event_reply_cases:
  assumes "process_event_reply P s fd jobj 1 = Inr (flow, s', refs)"
  obtains data es where "get_event_reply_data_from_msg (json P) jobj 1 zero_subscription = Inr (RETURN_OK, data, 1)"
    and "\<not> subscription_mutex s" and "update_event_status fd data (g_event_subscriptions_list s) = Inr es"
    and "flow = Continue" "refs = 0" "s' = s\<lparr>g_event_subscriptions_list := es\<rparr>"
proof -
  from assms obtain rc data rf where d: "get_event_reply_data_from_msg (json P) jobj 1 zero_subscription = Inr (rc, data, rf)"
    and r: "(if rc \<noteq> RETURN_OK then ebind (json_object_put rf) (\<lambda>refs. Inr (Continue, s, refs))
       else ebind (lock_subscriptions s) (\<lambda>s.
         ebind (update_event_status fd data (g_event_subscriptions_list s)) (\<lambda>es.
         ebind (json_object_put rf) (\<lambda>refs.
           Inr (Continue, unlock_subscriptions (s\<lparr>g_event_subscriptions_list := es\<rparr>), refs)))))
      = Inr (flow, s', refs)"
    unfolding process_event_reply_def by (rule ebind_tripleE)
  have ok: "rc = RETURN_OK" "rf = 1" using event_reply_data_refs [OF d] r by auto
  with r obtain s1 where l: "lock_subscriptions s = Inr s1"
    and u: "ebind (update_event_status fd data (g_event_subscriptions_list s1)) (\<lambda>es.
         ebind (json_object_put rf) (\<lambda>refs.
           Inr (Continue, unlock_subscriptions (s1\<lparr>g_event_subscriptions_list := es\<rparr>), refs))) = Inr (flow, s', refs)"
    by (auto elim: ebindE)
  from l have s1: "\<not> subscription_mutex s" "s1 = s\<lparr>subscription_mutex := True\<rparr>"
    by (auto simp: lock_subscriptions_def split: if_splits)
  from u obtain es where e: "update_event_status fd data (g_event_subscriptions_list s1) = Inr es"
    and r': "ebind (json_object_put rf) (\<lambda>refs.
           Inr (Continue, unlock_subscriptions (s1\<lparr>g_event_subscriptions_list := es\<rparr>), refs)) = Inr (flow, s', refs)"
    by (rule ebindE)
  have "s' = s\<lparr>g_event_subscriptions_list := es\<rparr>" using r' ok s1
    by (cases s) (simp add: unlock_subscriptions_def)
  with e r' d ok s1 show thesis by (intro that [of data es]) simp_all
qed

lemma process_event_reply_released:
  assumes "process_event_reply P s fd jobj 1 = Inr (flow, s', refs)"
  shows "flow = Continue \<and> refs = 0 \<and> sent s' = sent s"
  using assms by (rule process_event_reply_cases) simp

lemma process_unsupported_cases:
  assumes "sends_ok P" and "process_unsupported P s fd req_id action 1 = Inr (flow, s', refs)"
  shows "flow = Continue \<and> refs = 0
    \<and> sent_one s fd (create_json_reply_msg (json P) (g_server_config s) req_id RESPONSE_NOT_SUPPORTED) s'"
proof -
  from assms(2) obtain s1 where sr: "send_status_reply P s fd req_id RESPONSE_NOT_SUPPORTED = Inr s1"
    and r: "Inr (Continue, s1, 0::nat) = (Inr (flow, s', refs) :: _ cres)"
    unfolding process_unsupported_def by (elim ebindE) (simp only: json_object_put_simps sum.inject)
  from r have "flow = Continue" "refs = 0" "s' = s1" by simp_all
  with send_status_reply_cases [OF assms(1) sr] show ?thesis by simp
qed

text \<open>The call of a registered callback for a request.\<close>

definition run_callback ::
  "('j, 't, 'w, 's, 'v) platform \<Rightarrow> ('j, 'w, 'v) server \<Rightarrow> 'j \<Rightarrow> string \<Rightarrow> string \<Rightarrow> ('j, 'w) action_callback
   \<Rightarrow> nat \<Rightarrow> (int \<times> 'j \<times> 'w) cres" where
  "run_callback P s jobj req_id action_name cb n = cb (world s) jobj (int n)
     (prepare_json_response_header (json P) (g_server_config s) action_name req_id)"

lemma process_action_cases:
  assumes "sends_ok P" and "process_action P s fd jobj req_id action cb 1 = Inr (flow, s', refs)"
  obtains n rc j w where "request_param_count (json P) jobj = Inr n"
    and "run_callback P s jobj req_id action cb n = Inr (rc, j, w)"
    and "flow = Continue" "refs = 0" "length req_id < 64"
    and "rc \<noteq> RETURN_OK \<Longrightarrow> sent_one s fd (create_json_reply_msg (json P) (g_server_config s) req_id RESPONSE_FAILURE) s'"
    and "rc = RETURN_OK \<Longrightarrow> reply_validates P (s\<lparr>world := w\<rparr>) j = Inr False \<Longrightarrow>
      sent_one s fd (create_json_reply_msg (json P) (g_server_config s) req_id RESPONSE_NOT_SUPPORTED) s'"
    and "rc = RETURN_OK \<Longrightarrow> reply_validates P (s\<lparr>world := w\<rparr>) j \<noteq> Inr False \<Longrightarrow>
      \<exists>s1. sent_one s fd j s1 \<and> process_subscription P s1 fd jobj action 1 = Inr (Continue, s', 0)"
proof -
  from assms(2) obtain n where n: "request_param_count (json P) jobj = Inr n" "length req_id < 64"
    by (auto simp: process_action_def ebind_eq_Inr_iff)
  with assms(2) obtain rc j w where cb: "run_callback P s jobj req_id action cb n = Inr (rc, j, w)"
    by (auto simp: process_action_def run_callback_def ebind_eq_Inr_iff)
  let ?s = "s\<lparr>world := w\<rparr>"
  have eq: "process_action P s fd jobj req_id action cb 1 =
      (if rc = RETURN_OK
       then ebind (reply_validates P ?s j) (\<lambda>ok.
         if \<not> ok then ebind (send_status_reply P ?s fd req_id RESPONSE_NOT_SUPPORTED) (\<lambda>s. Inr (Continue, s, 0))
         else ebind (socket_send P ?s fd (Some j)) (\<lambda>(_, s). process_subscription P s fd jobj action 1))
       else ebind (send_status_reply P ?s fd req_id RESPONSE_FAILURE) (\<lambda>s. Inr (Continue, s, 0)))"
    using n cb by (simp add: process_action_def run_callback_def Let_def cong: if_cong)
  consider (failed) "rc \<noteq> RETURN_OK" "send_status_reply P ?s fd req_id RESPONSE_FAILURE = Inr s'" "flow = Continue" "refs = 0"
    | (invalid) "rc = RETURN_OK" "reply_validates P ?s j = Inr False"
        "send_status_reply P ?s fd req_id RESPONSE_NOT_SUPPORTED = Inr s'" "flow = Continue" "refs = 0"
    | (ok) rc' s1 where "rc = RETURN_OK" "reply_validates P ?s j = Inr True" "socket_send P ?s fd (Some j) = Inr (rc', s1)"
        "process_subscription P s1 fd jobj action 1 = Inr (flow, s', refs)"
    using assms(2) unfolding eq by (auto simp: ebind_eq_Inr_iff split: if_splits)
  then show thesis
  proof cases
    case failed
    from send_status_reply_cases [OF assms(1) failed(2)] sent_one_world n cb failed show thesis
      by (intro that [OF n(1) cb]) auto
  next
    case invalid
    from send_status_reply_cases [OF assms(1) invalid(3)] sent_one_world n cb invalid show thesis
      by (intro that [OF n(1) cb]) auto
  next
    case ok
    from socket_send_one [OF assms(1), of ?s fd j] ok(3) have "sent_one s fd j s1"
      by (auto dest: sent_one_world)
    with process_subscription_released [OF ok(4)] n cb ok show thesis
      by (intro that [OF n(1) cb]) auto
  qed
qed

text \<open>A request with an id and an action; the two texts as the handler stores them.\<close>

definition request_is :: "'j json_c \<Rightarrow> 'j \<Rightarrow> string \<Rightarrow> string \<Rightarrow> bool" where
  "request_is J jobj req_id action \<longleftrightarrow> (\<exists>ji ja.
     jc_object_get_ex J jobj JSON_RPC_FIELD_ID = Some (Some ji) \<and> req_id = strncpy 64 (jc_get_string J ji)
   \<and> jc_object_get_ex J jobj JSON_RPC_FIELD_ACTION = Some (Some ja) \<and> action = strncpy 64 (jc_get_string J ja))"

lemma strncpy_cstr [simp]: "strncpy n (cstr s) = strncpy n s"
  by (simp add: strncpy_def)

lemma process_request_eq:
  assumes "request_is (json P) jobj req_id action"
  shows "process_request P s fd jobj =
    (case get_registered_rpc_action_by_name s action of
       None \<Rightarrow> if blocking P \<and> starts_with action JSON_RPC_ACTION_RESULT then process_event_reply P s fd jobj 1
               else process_unsupported P s fd req_id action 1
     | Some rpc \<Rightarrow>
         (case acl_cb rpc of None \<Rightarrow> process_unsupported P s fd req_id action 1
          | Some cb \<Rightarrow> process_action P s fd jobj req_id action cb 1))"
proof -
  from assms obtain ji ja where
    "jc_object_get_ex (json P) jobj JSON_RPC_FIELD_ID = Some (Some ji)" "req_id = strncpy 64 (jc_get_string (json P) ji)"
    "jc_object_get_ex (json P) jobj JSON_RPC_FIELD_ACTION = Some (Some ja)" "action = strncpy 64 (jc_get_string (json P) ja)"
    by (auto simp: request_is_def)
  then show ?thesis by (auto simp add: process_request_def Let_def split: option.split)
qed

lemma process_request_ignored:
  assumes "process_request P s fd jobj = Inr (flow, s', refs)"
    and "\<nexists>req_id action. request_is (json P) jobj req_id action"
  shows "flow = Continue \<and> refs = 0 \<and> s' = s"
proof (cases "jc_object_get_ex (json P) jobj JSON_RPC_FIELD_ID")
  case None
  with assms(1) show ?thesis by (simp add: process_request_def)
next
  case (Some jid)
  with assms(1) obtain ji where ji: "jid = Some ji" by (cases jid) (simp_all add: process_request_def)
  show ?thesis
  proof (cases "jc_object_get_ex (json P) jobj JSON_RPC_FIELD_ACTION")
    case None
    with assms(1) Some ji show ?thesis by (simp add: process_request_def)
  next
    case (Some jact)
    with assms(1) \<open>jc_object_get_ex (json P) jobj JSON_RPC_FIELD_ID = Some jid\<close> ji
    obtain ja where "jact = Some ja" by (cases jact) (simp_all add: process_request_def)
    with assms(2) Some \<open>jc_object_get_ex (json P) jobj JSON_RPC_FIELD_ID = Some jid\<close> ji
    show ?thesis by (simp add: request_is_def)
  qed
qed

text \<open>The messages that are not requests: replies to events, in the blocking build.\<close>

definition is_event_reply :: "('j, 't, 'w, 's, 'v) platform \<Rightarrow> ('j, 'w, 'v) server \<Rightarrow> string \<Rightarrow> bool" where
  "is_event_reply P s action \<longleftrightarrow> blocking P \<and> get_registered_rpc_action_by_name s action = None
     \<and> starts_with action JSON_RPC_ACTION_RESULT"

lemma process_request_once:
  assumes "sends_ok P" and "process_request P s fd jobj = Inr (flow, s', refs)"
  shows "flow = Continue \<and> refs = 0 \<and> (\<exists>js. addressed (sent s') = addressed (sent s) @ map (Pair fd) js
    \<and> length js = (if \<exists>req_id action. request_is (json P) jobj req_id action \<and> \<not> is_event_reply P s action
                   then 1 else 0))"
proof (cases "\<exists>req_id action. request_is (json P) jobj req_id action")
  case False
  with process_request_ignored [OF assms(2)] show ?thesis by auto
next
  case True
  then obtain req_id action where r: "request_is (json P) jobj req_id action" by blast
  have uniq: "(\<exists>req_id action. request_is (json P) jobj req_id action \<and> \<not> is_event_reply P s action)
      \<longleftrightarrow> \<not> is_event_reply P s action"
    using r by (fastforce simp: request_is_def simp del: starts_with_simps)
  note eq = process_request_eq [OF r, of s fd]
  show ?thesis
  proof (cases "is_event_reply P s action")
    case True
    then have "process_event_reply P s fd jobj 1 = Inr (flow, s', refs)"
      using assms(2) eq by (simp add: is_event_reply_def)
    from process_event_reply_released [OF this] uniq True show ?thesis by simp
  next
    case False
    have "flow = Continue \<and> refs = 0 \<and> (\<exists>j. addressed (sent s') = addressed (sent s) @ [(fd, j)])"
    proof (cases "Option.bind (get_registered_rpc_action_by_name s action) acl_cb")
      case None
      then have "process_unsupported P s fd req_id action 1 = Inr (flow, s', refs)"
        using assms(2) eq False by (auto simp: is_event_reply_def bind_eq_None_conv split: option.splits if_splits)
      from process_unsupported_cases [OF assms(1) this] show ?thesis by (auto dest: sent_oneD)
    next
      case (Some cb)
      then have "process_action P s fd jobj req_id action cb 1 = Inr (flow, s', refs)"
        using assms(2) eq by (auto simp: bind_eq_Some_conv)
      then show ?thesis
      proof (rule process_action_cases [OF assms(1)], goal_cases)
        case (1 n rc j w)
        show ?case
        proof (cases "rc = RETURN_OK \<and> reply_validates P (s\<lparr>world := w\<rparr>) j \<noteq> Inr False")
          case True
          with 1 obtain s1 where "sent_one s fd j s1" "process_subscription P s1 fd jobj action 1 = Inr (Continue, s', 0)"
            by blast
          with 1 process_subscription_released [OF this(2)] sent_oneD show ?thesis by metis
        next
          case False
          with 1 sent_oneD show ?thesis by metis
        qed
      qed
    qed
    with uniq False show ?thesis by (metis list.simps(8,9) length_Cons list.size(3) One_nat_def)
  qed
qed

text \<open>
  C2: every request is answered exactly once and released exactly once. Whenever the handler
  gets through one message without a fault, the loop goes on with the next message, the
  message object has no reference left, and what was sent went to the descriptor the message
  came from: one reply if the message has an id and an action and is not itself the reply to
  an event, and nothing otherwise.
\<close>

theorem request_answered_once:
  assumes "sends_ok P" and "process_request P s fd jobj = Inr (flow, s', refs)"
  shows "flow = Continue \<and> refs = 0 \<and> (\<exists>js. addressed (sent s') = addressed (sent s) @ map (Pair fd) js
    \<and> length js = (if \<exists>req_id action. request_is (json P) jobj req_id action \<and> \<not> is_event_reply P s action
                   then 1 else 0))"
  using assms by (rule process_request_once)

definition example_request :: "string \<Rightarrow> json" where
  "example_request action = JObject [(''module'', Some (JString ''xdslhal'')), (''version'', Some (JString ''0.0.1'')),
     (''reqId'', Some (JString ''1001'')), (''action'', Some (JString action))]"

lemma example_request_is: "nul_free action \<Longrightarrow> length action \<le> 64 \<Longrightarrow>
   request_is (json example_platform) (example_request action) ''1001'' action"
  by (simp add: request_is_def example_request_def example_platform_def tree_json_def strncpy_def)

lemma example_unsupported_runs:
  "\<exists>s'. process_request example_platform (initial_server [] :: (json, string, unit) server) 7 (example_request ''getStats'')
     = Inr (Continue, s', 0)"
proof -
  let ?s = "initial_server [] :: (json, string, unit) server"
  have "process_request example_platform ?s 7 (example_request ''getStats'') =
      process_unsupported example_platform ?s 7 ''1001'' ''getStats'' 1"
    by (subst process_request_eq [OF example_request_is])
      (simp_all add: get_registered_rpc_action_by_name_def initial_server_def example_platform_def)
  moreover obtain s' where "send_status_reply example_platform ?s 7 ''1001'' RESPONSE_NOT_SUPPORTED = Inr s'"
    using send_status_reply_one [OF example_sends_ok, of "''1001''" ?s 7 RESPONSE_NOT_SUPPORTED] by auto
  ultimately show ?thesis by (simp add: process_unsupported_def)
qed

theorem request_answered_once_witness:
  "\<exists>s' js. process_request example_platform (initial_server [] :: (json, string, unit) server) 7 (example_request ''getStats'')
      = Inr (Continue, s', 0) \<and> addressed (sent s') = map (Pair 7) js \<and> length js = 1"
proof -
  let ?s = "initial_server [] :: (json, string, unit) server"
  obtain s' where r: "process_request example_platform ?s 7 (example_request ''getStats'') = Inr (Continue, s', 0)"
    using example_unsupported_runs by blast
  have one: "\<exists>req_id action. request_is (json example_platform) (example_request ''getStats'') req_id action
      \<and> \<not> is_event_reply example_platform ?s action"
    by (rule exI [of _ "''1001''"], rule exI [of _ "''getStats''"])
      (simp add: example_request_is, simp add: is_event_reply_def example_platform_def)
  have "addressed (sent ?s) = []" by (simp add: initial_server_def)
  with request_answered_once [OF example_sends_ok r] r show ?thesis
    by (simp only: one if_True append_Nil simp_thms) blast
qed

section \<open>What the replies say\<close>

lemma reply_members:
  assumes "json_c_ok J"
  shows "jc_object_get_ex J (create_json_reply_msg J c req_id ty) JSON_RPC_FIELD_ID = Some (Some (jc_new_string J req_id))"
    and "jc_object_get_ex J (create_json_reply_msg J c req_id ty) JSON_RPC_FILED_RESULT = Some (Some (status_object J (status_text ty)))"
    and "jc_object_get_ex J (create_json_reply_msg J c req_id ty) JSON_RPC_FIELD_ACTION = Some (Some (jc_new_string J JSON_RPC_ACTION_RESULT))"
  using assms by (simp_all add: create_json_reply_msg_def)

lemma response_header_id:
  assumes "json_c_ok J"
  shows "jc_object_get_ex J (prepare_json_response_header J c action req_id) JSON_RPC_FIELD_ID = Some (Some (jc_new_string J req_id))"
    and "jc_type J (prepare_json_response_header J c action req_id) = json_type_object"
  using assms by (simp_all add: prepare_json_response_header_def Let_def)

lemma unsupported_runs:
  assumes "sends_ok P" and "request_is (json P) jobj req_id action" and "length req_id < 64" and "length action < 64"
    and "Option.bind (get_registered_rpc_action_by_name s action) acl_cb = None" and "\<not> is_event_reply P s action"
  shows "\<exists>s' j. process_request P s fd jobj = Inr (Continue, s', 0)
    \<and> addressed (sent s') = addressed (sent s) @ [(fd, j)]
    \<and> jc_object_get_ex (json P) j JSON_RPC_FIELD_ID = Some (Some (jc_new_string (json P) req_id))
    \<and> jc_object_get_ex (json P) j JSON_RPC_FILED_RESULT = Some (Some (status_object (json P) JSON_RPC_STATUS_NOT_SUPPORTED))
    \<and> g_hal_functions_list s' = g_hal_functions_list s
    \<and> g_event_subscriptions_list s' = g_event_subscriptions_list s"
proof -
  have "process_request P s fd jobj = process_unsupported P s fd req_id action 1"
    using assms(5,6) by (auto simp: process_request_eq [OF assms(2)] is_event_reply_def bind_eq_None_conv split: option.splits)
  moreover obtain s' where s': "send_status_reply P s fd req_id RESPONSE_NOT_SUPPORTED = Inr s'"
    "sent_one s fd (create_json_reply_msg (json P) (g_server_config s) req_id RESPONSE_NOT_SUPPORTED) s'"
    using send_status_reply_one [OF assms(1,3)] by blast
  ultimately have "process_request P s fd jobj = Inr (Continue, s', 0)"
    using assms(4) by (simp add: process_unsupported_def)
  with sent_oneD [OF s'(2)] sent_one_keeps [OF s'(2)] reply_members [OF sends_ok_json [OF assms(1)], of "g_server_config s" req_id RESPONSE_NOT_SUPPORTED]
  show ?thesis by auto
qed

text \<open>A request whose registered callback can be run: what the next theorems have in common.\<close>

definition callback_runs ::
  "('j, 't, 'w, 's, 'v) platform \<Rightarrow> ('j, 'w, 'v) server \<Rightarrow> 'j \<Rightarrow> string \<Rightarrow> string \<Rightarrow> int \<Rightarrow> 'j \<Rightarrow> 'w \<Rightarrow> bool" where
  "callback_runs P s jobj req_id action rc j w \<longleftrightarrow>
     sends_ok P \<and> request_is (json P) jobj req_id action \<and> length req_id < 64
   \<and> (\<exists>cb n. Option.bind (get_registered_rpc_action_by_name s action) acl_cb = Some cb
        \<and> request_param_count (json P) jobj = Inr n \<and> run_callback P s jobj req_id action cb n = Inr (rc, j, w))"

lemma callback_runs_eq:
  assumes "callback_runs P s jobj req_id action rc j w"
  shows "process_request P s fd jobj =
    (let s = s\<lparr>world := w\<rparr> in
     if rc = RETURN_OK
     then ebind (reply_validates P s j) (\<lambda>ok.
       if \<not> ok then ebind (send_status_reply P s fd req_id RESPONSE_NOT_SUPPORTED) (\<lambda>s. Inr (Continue, s, 0))
       else ebind (socket_send P s fd (Some j)) (\<lambda>(_, s). process_subscription P s fd jobj action 1))
     else ebind (send_status_reply P s fd req_id RESPONSE_FAILURE) (\<lambda>s. Inr (Continue, s, 0)))"
proof -
  from assms obtain cb n where r: "request_is (json P) jobj req_id action" "length req_id < 64"
    and cb: "Option.bind (get_registered_rpc_action_by_name s action) acl_cb = Some cb"
    and n: "request_param_count (json P) jobj = Inr n"
    and run: "run_callback P s jobj req_id action cb n = Inr (rc, j, w)"
    by (auto simp: callback_runs_def)
  have "process_request P s fd jobj = process_action P s fd jobj req_id action cb 1"
    using cb by (auto simp: process_request_eq [OF r(1)] bind_eq_Some_conv)
  then show ?thesis
    using n run r(2) by (simp add: process_action_def run_callback_def Let_def cong: if_cong)
qed

lemma callback_decides_reply:
  assumes "callback_runs P s jobj req_id action rc j w" and "reply_validates P (s\<lparr>world := w\<rparr>) j = Inr ok"
    and "\<not> starts_with action JSON_RPC_SUBSCRIBE_EVENT_ACTION_NAME"
  shows "\<exists>s' m. process_request P s fd jobj = Inr (Continue, s', 0)
    \<and> addressed (sent s') = addressed (sent s) @ [(fd, m)]
    \<and> m = (if rc \<noteq> RETURN_OK then create_json_reply_msg (json P) (g_server_config s) req_id RESPONSE_FAILURE
           else if \<not> ok then create_json_reply_msg (json P) (g_server_config s) req_id RESPONSE_NOT_SUPPORTED
           else j)"
proof -
  let ?s = "s\<lparr>world := w\<rparr>"
  have P: "sends_ok P" and len: "length req_id < 64" using assms(1) by (simp_all add: callback_runs_def)
  have status: "\<exists>s'. send_status_reply P ?s fd req_id ty = Inr s'
      \<and> addressed (sent s') = addressed (sent s) @ [(fd, create_json_reply_msg (json P) (g_server_config s) req_id ty)]" for ty
    using send_status_reply_one [OF P len, of ?s fd ty] by (auto dest: sent_oneD)
  obtain r s1 where own: "socket_send P ?s fd (Some j) = Inr (r, s1)" "addressed (sent s1) = addressed (sent s) @ [(fd, j)]"
    using socket_send_one [OF P, of ?s fd j] by (auto dest: sent_oneD)
  have sub: "process_subscription P s1 fd jobj action 1 = Inr (Continue, s1, 0)"
    using assms(3) by (simp add: process_subscription_def del: starts_with_simps)
  consider "rc \<noteq> RETURN_OK" | "rc = RETURN_OK" "\<not> ok" | "rc = RETURN_OK" ok by blast
  then show ?thesis
  proof cases
    case 1
    with status [of RESPONSE_FAILURE] show ?thesis
      by (auto simp: callback_runs_eq [OF assms(1)] Let_def)
  next
    case 2
    with status [of RESPONSE_NOT_SUPPORTED] assms(2) show ?thesis
      by (auto simp: callback_runs_eq [OF assms(1)] Let_def)
  next
    case 3
    with own sub assms(2) show ?thesis
      by (auto simp: callback_runs_eq [OF assms(1)] Let_def)
  qed
qed

text \<open>
  C26: the outcome of a callback decides the reply. For a request other than a subscription
  whose callback returns \<open>rc\<close> and the reply \<open>j\<close>, the one message sent is a failure
  report if \<open>rc\<close> is an error, a refusal if the validating build finds the reply in
  contradiction to the schema, and otherwise the reply the callback made; both reports echo
  the id of the request.
\<close>

theorem callback_outcome_decides_reply:
  assumes "callback_runs P s jobj req_id action rc j w" and "reply_validates P (s\<lparr>world := w\<rparr>) j = Inr ok"
    and "\<not> starts_with action JSON_RPC_SUBSCRIBE_EVENT_ACTION_NAME"
  shows "\<exists>s' m. process_request P s fd jobj = Inr (Continue, s', 0)
    \<and> addressed (sent s') = addressed (sent s) @ [(fd, m)]
    \<and> m = (if rc \<noteq> RETURN_OK then create_json_reply_msg (json P) (g_server_config s) req_id RESPONSE_FAILURE
           else if \<not> ok then create_json_reply_msg (json P) (g_server_config s) req_id RESPONSE_NOT_SUPPORTED
           else j)"
  using assms by (rule callback_decides_reply)

definition failing_callback :: "(json, string) action_callback" where
  "failing_callback = (\<lambda>w jobj n jreply. Inr (RETURN_ERR, jreply, w))"

definition example_registered :: "string \<Rightarrow> (json, string) action_callback \<Rightarrow> (json, string, unit) server" where
  "example_registered action cb =
     (initial_server [])\<lparr>g_hal_functions_list := [\<lparr>function_name = action, acl_cb = Some cb\<rparr>]\<rparr>"

lemma example_callback_runs:
  assumes "nul_free action" and "length action \<le> 64"
    and "run_callback example_platform (example_registered action cb) (example_request action) ''1001'' action cb 0 = Inr (rc, j, w)"
  shows "callback_runs example_platform (example_registered action cb) (example_request action) ''1001'' action rc j w"
proof -
  have "request_param_count (json example_platform) (example_request action) = Inr 0"
    by (simp add: request_param_count_def example_platform_def example_request_def tree_json_def)
  moreover have "Option.bind (get_registered_rpc_action_by_name (example_registered action cb) action) acl_cb = Some cb"
    by (simp add: example_registered_def get_registered_rpc_action_by_name_def strcmp_eq_def)
  ultimately show ?thesis
    using assms example_request_is by (auto simp: callback_runs_def)
qed

theorem callback_outcome_decides_reply_witness:
  "\<exists>s'. process_request example_platform (example_registered ''setParameters'' failing_callback) 7
          (example_request ''setParameters'') = Inr (Continue, s', 0)
     \<and> addressed (sent s') = [(7, create_json_reply_msg (json example_platform) zero_config ''1001'' RESPONSE_FAILURE)]"
proof -
  let ?s = "example_registered ''setParameters'' failing_callback"
  obtain j w where "run_callback example_platform ?s (example_request ''setParameters'') ''1001'' ''setParameters''
      failing_callback 0 = Inr (RETURN_ERR, j, w)"
    by (auto simp: run_callback_def failing_callback_def)
  then have "callback_runs example_platform ?s (example_request ''setParameters'') ''1001'' ''setParameters'' RETURN_ERR j w"
    by (intro example_callback_runs) simp_all
  from callback_outcome_decides_reply [OF this, of True 7]
  have "\<exists>s'. process_request example_platform ?s 7 (example_request ''setParameters'') = Inr (Continue, s', 0)
    \<and> addressed (sent s') = addressed (sent ?s) @
        [(7, create_json_reply_msg (json example_platform) (g_server_config ?s) ''1001'' RESPONSE_FAILURE)]"
    by (simp add: reply_validates_def example_platform_def)
  then show ?thesis by (simp add: example_registered_def initial_server_def)
qed

section \<open>Subscribing\<close>

lemma process_subscription_ok:
  assumes "starts_with action JSON_RPC_SUBSCRIBE_EVENT_ACTION_NAME"
    and "json_hal_get_subscribe_event_request P (Some jobj) 0 = Inr (RETURN_OK, req)"
    and "length (sr_name req) < 512" and "nul_free (sr_name req)" and "\<not> subscription_mutex s"
  shows "process_subscription P s fd jobj action 1 = Inr (Continue,
    s\<lparr>g_event_subscriptions_list := g_event_subscriptions_list s @
       [\<lparr>es_fd = fd, es_event = sr_name req, es_event_type = sr_type req, es_req_id = '''', es_status = NO_EVENT_MSG\<rparr>]\<rparr>, 0)"
  using assms
  by (cases s) (simp add: process_subscription_def initialise_event_subscription_data_def zero_subscription_def
      get_event_subscription_data_from_msg_def add_event_subscription_to_list_def unlock_subscriptions_def
      del: starts_with_simps)

lemma subscribe_request_fits:
  "json_hal_get_subscribe_event_request P jmsg i = Inr (rc, req) \<Longrightarrow> nul_free (sr_name req) \<and> length (sr_name req) \<le> 512"
  by (cases "blocking P")
    (auto simp: json_hal_get_subscribe_event_request_def Let_def result_simps strncpy_length split: option.splits)

text \<open>A subscription request the server accepts.\<close>

definition subscribes ::
  "('j, 't, 'w, 's, 'v) platform \<Rightarrow> ('j, 'w, 'v) server \<Rightarrow> 'j \<Rightarrow> string \<Rightarrow> eNotificationType_t \<Rightarrow> bool" where
  "subscribes P s jobj event ty \<longleftrightarrow> (\<exists>req_id action j w req.
     callback_runs P s jobj req_id action RETURN_OK j w
   \<and> reply_validates P (s\<lparr>world := w\<rparr>) j = Inr True
   \<and> starts_with action JSON_RPC_SUBSCRIBE_EVENT_ACTION_NAME
   \<and> json_hal_get_subscribe_event_request P (Some jobj) 0 = Inr (RETURN_OK, req)
   \<and> sr_name req = event \<and> sr_type req = ty \<and> length event < 512)"

lemma process_subscribe:
  assumes "callback_runs P s jobj req_id action RETURN_OK j w" and "reply_validates P (s\<lparr>world := w\<rparr>) j = Inr True"
    and "starts_with action JSON_RPC_SUBSCRIBE_EVENT_ACTION_NAME"
    and "json_hal_get_subscribe_event_request P (Some jobj) 0 = Inr (RETURN_OK, req)" and "length (sr_name req) < 512"
    and "\<not> subscription_mutex s"
  shows "\<exists>rc s1. socket_send P (s\<lparr>world := w\<rparr>) fd (Some j) = Inr (rc, s1) \<and> sent_one s fd j s1
    \<and> process_request P s fd jobj = Inr (Continue, s1\<lparr>g_event_subscriptions_list := g_event_subscriptions_list s @
       [\<lparr>es_fd = fd, es_event = sr_name req, es_event_type = sr_type req, es_req_id = '''', es_status = NO_EVENT_MSG\<rparr>]\<rparr>, 0)"
proof -
  let ?s = "s\<lparr>world := w\<rparr>"
  have P: "sends_ok P" using assms(1) by (simp add: callback_runs_def)
  obtain rc s1 where own: "socket_send P ?s fd (Some j) = Inr (rc, s1)" "sent_one s fd j s1"
    using socket_send_one [OF P, of ?s fd j] by (auto dest: sent_one_world)
  have "process_subscription P s1 fd jobj action 1 = Inr (Continue,
      s1\<lparr>g_event_subscriptions_list := g_event_subscriptions_list s @
       [\<lparr>es_fd = fd, es_event = sr_name req, es_event_type = sr_type req, es_req_id = '''', es_status = NO_EVENT_MSG\<rparr>]\<rparr>, 0)"
    using process_subscription_ok [OF assms(3,4,5)] subscribe_request_fits [OF assms(4)]
      sent_one_keeps [OF own(2)] assms(6) by simp
  with assms(2) own show ?thesis by (simp add: callback_runs_eq [OF assms(1)])
qed

lemma subscribe_appends:
  assumes "subscribes P s jobj event ty" and "\<not> subscription_mutex s"
  shows "\<exists>s' j. process_request P s fd jobj = Inr (Continue, s', 0)
    \<and> addressed (sent s') = addressed (sent s) @ [(fd, j)]
    \<and> g_event_subscriptions_list s' = g_event_subscriptions_list s @
        [\<lparr>es_fd = fd, es_event = event, es_event_type = ty, es_req_id = '''', es_status = NO_EVENT_MSG\<rparr>]
    \<and> g_seqnumber s' = g_seqnumber s \<and> \<not> subscription_mutex s'"
proof -
  from assms(1) obtain req_id action j w req where
    run: "callback_runs P s jobj req_id action RETURN_OK j w"
    and ok: "reply_validates P (s\<lparr>world := w\<rparr>) j = Inr True"
    and act: "starts_with action JSON_RPC_SUBSCRIBE_EVENT_ACTION_NAME"
    and req: "json_hal_get_subscribe_event_request P (Some jobj) 0 = Inr (RETURN_OK, req)"
      "sr_name req = event" "sr_type req = ty" "length event < 512"
    unfolding subscribes_def by blast
  have len: "length (sr_name req) < 512" using req by simp
  obtain rc s1 where "sent_one s fd j s1" "process_request P s fd jobj = Inr (Continue,
      s1\<lparr>g_event_subscriptions_list := g_event_subscriptions_list s @
       [\<lparr>es_fd = fd, es_event = event, es_event_type = ty, es_req_id = '''', es_status = NO_EVENT_MSG\<rparr>]\<rparr>, 0)"
    using process_subscribe [OF run ok act req(1) len assms(2)] req(2,3) by blast
  then show ?thesis
    using sent_oneD sent_one_keeps assms(2) by fastforce
qed

text \<open>
  C11: a subscriber is told about its event. After a subscription request with an event name
  that fits its array was accepted, the descriptor it came from is entered behind the earlier
  subscribers, the request is answered, and the next publication of that event with a value sends a
  message to it, after the messages for the subscribers in front of it. The publication then
  returns, unless it waits for replies, which it does in the blocking build only.
\<close>

theorem subscribe_then_publish:
  assumes "subscribes P s jobj event ty" and "\<not> subscription_mutex s"
    and "0 \<le> g_seqnumber s" and "g_seqnumber s + int (length (g_event_subscriptions_list s)) < INT_MAX"
  shows "\<exists>s1 j rc blk ms s2. process_request P s fd jobj = Inr (Continue, s1, 0)
    \<and> addressed (sent s1) = addressed (sent s) @ [(fd, j)]
    \<and> publish_messages P s1 event (Some v) = Inr (Some (rc, blk), s2)
    \<and> sent s2 = sent s1 @ ms
    \<and> map fst (addressed ms) = map es_fd (subscribers event (g_event_subscriptions_list s)) @ [fd]
    \<and> (blocking P \<and> blk \<or> json_hal_server_publish_event P s1 event (Some v) t0 polls = Inr (rc, s2))"
proof -
  have P: "sends_ok P" using assms(1) by (auto simp: subscribes_def callback_runs_def)
  let ?new = "\<lparr>es_fd = fd, es_event = event, es_event_type = ty, es_req_id = '''', es_status = NO_EVENT_MSG\<rparr>"
  obtain s1 j where s1: "process_request P s fd jobj = Inr (Continue, s1, 0)"
    "addressed (sent s1) = addressed (sent s) @ [(fd, j)]"
    "g_event_subscriptions_list s1 = g_event_subscriptions_list s @ [?new]"
    "g_seqnumber s1 = g_seqnumber s" "\<not> subscription_mutex s1"
    using subscribe_appends [OF assms(1,2)] by blast
  have "length (subscribers event (g_event_subscriptions_list s)) \<le> length (g_event_subscriptions_list s)"
    by (rule length_filter_le)
  then have "g_seqnumber s1 + int (length (subscribers event (g_event_subscriptions_list s1))) \<le> INT_MAX"
    using assms(4) s1(3,4) by (simp del: length_filter_le)
  from publish_messages_deliver [OF P s1(5) _ this, of v] assms(3) s1(4)
  obtain ms blk s2 where pub: "publish_messages P s1 event (Some v) =
      Inr (Some (if all_sent ms then RETURN_OK else RETURN_ERR, blk), s2)" "sent s2 = sent s1 @ ms"
    "addressed ms = event_messages P s1 event v" by auto
  have "map fst (addressed ms) = map es_fd (map snd (enumerate 0 (subscribers event (g_event_subscriptions_list s1))))"
    unfolding pub(3) map_map by (rule map_cong) auto
  also have "\<dots> = map es_fd (subscribers event (g_event_subscriptions_list s)) @ [fd]"
    using s1(3) by (simp add: map_snd_enumerate del: map_map)
  finally show ?thesis using s1(1,2) pub(1,2) by (auto simp: json_hal_server_publish_event_def)
qed

definition example_subscribe :: "json" where
  "example_subscribe = JObject [(''reqId'', Some (JString ''1001'')), (''action'', Some (JString ''subscribeEvent'')),
     (''params'', Some (JArray [Some (JObject [(''name'', Some (JString ''Dsl.Line'')),
        (''notificationType'', Some (JString ''onChange''))])]))]"

abbreviation example_subscribe_server :: "(json, string, unit) server" where
  "example_subscribe_server \<equiv> example_registered ''subscribeEvent'' echo_callback"

text \<open>Any platform with the example's JSON library.\<close>

definition like_example :: "(json, 't, string, 's, unit) platform \<Rightarrow> bool" where
  "like_example P \<longleftrightarrow> sends_ok P \<and> json P = json example_platform \<and> \<not> blocking P \<and> \<not> validation P"

lemma like_example_refl [simp]: "like_example example_platform"
  by (simp add: like_example_def) (simp add: example_platform_def)

lemma example_param_count:
  assumes "like_example P" and "tree_member jobj ''params'' = Some (Some (JArray xs))"
  shows "request_param_count (json P) jobj = Inr (length xs)"
  using assms by (simp add: like_example_def request_param_count_def arr_length_def example_platform_def tree_json_def)

lemma example_subscribe_runs:
  assumes "like_example P" and "tree_member jobj ''reqId'' = Some (Some (JString ''1001''))"
    and "tree_member jobj ''action'' = Some (Some (JString ''subscribeEvent''))"
    and "tree_member jobj ''params'' = Some (Some (JArray xs))"
  shows "\<exists>j. callback_runs P (example_subscribe_server\<lparr>world := w\<rparr>) jobj ''1001'' ''subscribeEvent'' RETURN_OK j w"
proof -
  have "request_is (json P) jobj ''1001'' ''subscribeEvent''"
    using assms(1-3) by (simp add: like_example_def request_is_def example_platform_def tree_json_def strncpy_def)
  moreover have "Option.bind (get_registered_rpc_action_by_name (example_subscribe_server\<lparr>world := w\<rparr>) ''subscribeEvent'') acl_cb
      = Some echo_callback"
    by (simp add: example_registered_def get_registered_rpc_action_by_name_def strcmp_eq_def)
  moreover have "\<exists>j. run_callback P (example_subscribe_server\<lparr>world := w\<rparr>) jobj ''1001'' ''subscribeEvent'' echo_callback n
      = Inr (RETURN_OK, j, w)" for n
    by (simp add: run_callback_def echo_callback_def)
  ultimately show ?thesis
    using assms(1) example_param_count [OF assms(1,4)] by (auto simp: callback_runs_def like_example_def)
qed

lemma example_subscribes:
  assumes "like_example P"
  shows "subscribes P (example_subscribe_server\<lparr>world := w\<rparr>) example_subscribe ''Dsl.Line'' NOTIFICATION_TYPE_ON_CHANGE"
proof -
  let ?s = "example_subscribe_server\<lparr>world := w\<rparr>"
  have "\<exists>j. callback_runs P ?s example_subscribe ''1001'' ''subscribeEvent'' RETURN_OK j w"
    by (rule example_subscribe_runs [OF assms]) (simp_all add: example_subscribe_def)
  then obtain j where "callback_runs P ?s example_subscribe ''1001'' ''subscribeEvent'' RETURN_OK j w"
    by (rule exE)
  moreover have "reply_validates P (?s\<lparr>world := w\<rparr>) j = Inr True"
    using assms by (simp add: reply_validates_def like_example_def)
  moreover have "json_hal_get_subscribe_event_request P (Some example_subscribe) 0 =
      Inr (RETURN_OK, \<lparr>sr_name = ''Dsl.Line'', sr_type = NOTIFICATION_TYPE_ON_CHANGE\<rparr>)"
    using assms
    by (simp add: like_example_def json_hal_get_subscribe_event_request_def example_platform_def tree_json_def example_subscribe_def
        tree_get_idx_def arr_get_idx_def strncpy_def Let_def)
  moreover have "starts_with ''subscribeEvent'' JSON_RPC_SUBSCRIBE_EVENT_ACTION_NAME" by simp
  ultimately show ?thesis
    unfolding subscribes_def
    by (intro exI conjI) (assumption | simp)+
qed

lemma example_subscribe_world [simp]: "example_subscribe_server\<lparr>world := []\<rparr> = example_subscribe_server"
  by (simp add: example_registered_def initial_server_def)

theorem subscribe_then_publish_witness:
  "\<exists>s1 rc ms s2. process_request example_platform example_subscribe_server 7 example_subscribe = Inr (Continue, s1, 0)
    \<and> json_hal_server_publish_event example_platform s1 ''Dsl.Line'' (Some ''Up'') 0 [] = Inr (rc, s2)
    \<and> sent s2 = sent s1 @ ms \<and> map fst (addressed ms) = [7]"
proof -
  have "\<not> subscription_mutex example_subscribe_server" "0 \<le> g_seqnumber example_subscribe_server"
    "g_seqnumber example_subscribe_server + int (length (g_event_subscriptions_list example_subscribe_server)) < INT_MAX"
    "g_event_subscriptions_list example_subscribe_server = []" "\<not> blocking example_platform"
    by (simp_all add: example_registered_def initial_server_def config_defs example_platform_def)
  note ex = this
  from subscribe_then_publish [OF example_subscribes [OF like_example_refl, of "[]", simplified] ex(1-3), of 7 "''Up''" 0 "[]"] ex(4,5)
  show ?thesis by fastforce
qed

text \<open>
  C37: a malformed subscription is released twice. If the request's \<^verbatim>\<open>params\<close>, its
  event name or its notification type is missing, so that the subscription cannot be read,
  the request has been answered, the reading function releases it, and the handler releases
  it again.
\<close>

theorem malformed_subscription_double_free:
  assumes "callback_runs P s jobj req_id action RETURN_OK j w" and "reply_validates P (s\<lparr>world := w\<rparr>) j = Inr True"
    and "starts_with action JSON_RPC_SUBSCRIBE_EVENT_ACTION_NAME"
    and "json_hal_get_subscribe_event_request P (Some jobj) 0 = Inr (RETURN_ERR, req)"
  shows "process_request P s fd jobj = Inl Double_Free"
proof -
  let ?s = "s\<lparr>world := w\<rparr>"
  have P: "sends_ok P" using assms(1) by (simp add: callback_runs_def)
  obtain r s1 where own: "socket_send P ?s fd (Some j) = Inr (r, s1)"
    using socket_send_one [OF P, of ?s fd j] by auto
  have "process_subscription P s1 fd jobj action 1 = Inl Double_Free"
    using assms(3,4) by (simp add: process_subscription_def initialise_event_subscription_data_def
        get_event_subscription_data_from_msg_def del: starts_with_simps)
  then show ?thesis
    using assms(2) own by (simp add: callback_runs_eq [OF assms(1)])
qed

definition example_malformed :: "json" where
  "example_malformed = JObject [(''reqId'', Some (JString ''1001'')), (''action'', Some (JString ''subscribeEvent'')),
     (''params'', Some (JArray [Some (JObject [(''name'', Some (JString ''Dsl.Line''))])]))]"

theorem malformed_subscription_double_free_witness:
  "process_request example_platform example_subscribe_server 7 example_malformed = Inl Double_Free"
proof -
  have "\<exists>j. callback_runs example_platform example_subscribe_server example_malformed ''1001'' ''subscribeEvent'' RETURN_OK j []"
    using example_subscribe_runs [OF like_example_refl, of example_malformed _ "[]"] by (simp add: example_malformed_def)
  then obtain j where run: "callback_runs example_platform example_subscribe_server example_malformed ''1001'' ''subscribeEvent'' RETURN_OK j []"
    by (rule exE)
  moreover have "json_hal_get_subscribe_event_request example_platform (Some example_malformed) 0 =
      Inr (RETURN_ERR, \<lparr>sr_name = ''Dsl.Line'', sr_type = NOTIFICATION_TYPE_ON_CHANGE\<rparr>)"
    by (simp add: json_hal_get_subscribe_event_request_def example_platform_def tree_json_def example_malformed_def
        tree_get_idx_def arr_get_idx_def strncpy_def Let_def)
  ultimately show ?thesis
    by (intro malformed_subscription_double_free [OF run]) (simp_all add: reply_validates_def example_platform_def)
qed

section \<open>A buffer of requests\<close>

fun process_all ::
  "('j, 't, 'w, 's, 'v) platform \<Rightarrow> ('j, 'w, 'v) server \<Rightarrow> int \<Rightarrow> 'j list \<Rightarrow> ('j, 'w, 'v) server cres" where
  "process_all P s fd [] = Inr s"
| "process_all P s fd (j # js) = ebind (process_request P s fd j) (\<lambda>(_, s', _). process_all P s' fd js)"

lemma message_loop_refines:
  assumes "sends_ok P" and "parse_all fuel (tok P) buffer len t start = Some (js, rc)"
  shows "message_loop fuel P s fd buffer len t start = ebind (process_all P s fd js) (\<lambda>s'. Inr (rc, s'))"
  using assms(2)
proof (induction fuel arbitrary: t start js s)
  case (Suc fuel)
  show ?case
  proof (cases "start < len")
    case True
    obtain t' jobj jerr p where tk: "tok_parse_ex (tok P) t (drop (nat start) buffer) (len - start) = (t', jobj, jerr, p)"
      by (metis prod_cases4)
    show ?thesis
    proof (cases jobj)
      case None
      show ?thesis
      proof (cases "jerr = json_tokener_continue")
        case True
        with Suc.prems \<open>start < len\<close> tk None have "parse_all fuel (tok P) buffer len t' (start + p) = Some (js, rc)" by simp
        from Suc.IH [OF this] \<open>start < len\<close> tk None True show ?thesis by simp
      next
        case False
        with Suc.prems \<open>start < len\<close> tk None show ?thesis by auto
      qed
    next
      case (Some j)
      with Suc.prems True tk obtain js' where
        rest: "parse_all fuel (tok P) buffer len t' (start + p) = Some (js', rc)" "js = j # js'" by auto
      show ?thesis
      proof (cases "process_request P s fd j")
        case (Inl f)
        with True tk Some rest(2) show ?thesis by simp
      next
        case (Inr r)
        then obtain flow s' refs where r: "process_request P s fd j = Inr (flow, s', refs)" by (cases r) auto
        with process_request_once [OF assms(1) r] have "flow = Continue" by simp
        with r True tk Some rest Suc.IH [OF rest(1)] show ?thesis by simp
      qed
    qed
  qed (use Suc.prems in auto)
qed simp

section \<open>The invariant of the server\<close>

lemma update_event_status_keeps:
  "update_event_status fd data es = Inr es' \<Longrightarrow>
   map es_fd es' = map es_fd es \<and> map es_event es' = map es_event es \<and> map es_req_id es' = map es_req_id es"
  by (induction es arbitrary: es') (auto simp: result_simps split: if_splits)

lemma wf_subscription_map:
  "(\<forall>e \<in> set es. wf_subscription e) \<longleftrightarrow>
     (\<forall>v \<in> set (map es_event es). length v < 512 \<and> nul_free v) \<and> (\<forall>v \<in> set (map es_req_id es). length v < 64 \<and> nul_free v)"
  by (auto simp: wf_subscription_def)

lemma world_inv: "server_inv (s\<lparr>world := w\<rparr>) = server_inv s"
  by (simp add: server_inv_def registry_ok_def wf_subscriptions_def)

text \<open>
  What a message from descriptor \<open>fd\<close> may change, as a contract: a property of the server that
  is kept by sending, by the callbacks registered, by entering a subscription for \<open>fd\<close> and by
  storing the status of an event reply is kept by the receive callback.
\<close>

locale request_invariant =
  fixes P :: "('j, 't, 'w, 's, 'v) platform" and fd :: int and Q :: "('j, 'w, 'v) server \<Rightarrow> bool"
  assumes sending: "Q s \<Longrightarrow> socket_send P s fd' m = Inr (rc, s') \<Longrightarrow> Q s'"
    and calling: "Q s \<Longrightarrow> r \<in> set (g_hal_functions_list s) \<Longrightarrow> acl_cb r = Some cb \<Longrightarrow>
      cb (world s) j n reply = Inr (rc, reply', w) \<Longrightarrow> Q (s\<lparr>world := w\<rparr>)"
    and subscribing: "Q s \<Longrightarrow> es_fd data = fd \<Longrightarrow> add_event_subscription_to_list s data = Inr s' \<Longrightarrow> Q s'"
    and status_update: "Q s \<Longrightarrow> update_event_status fd data (g_event_subscriptions_list s) = Inr es \<Longrightarrow>
      Q (s\<lparr>g_event_subscriptions_list := es\<rparr>)"
begin

lemma status_reply_keeps: "Q s \<Longrightarrow> send_status_reply P s fd' req_id ty = Inr s' \<Longrightarrow> Q s'"
  unfolding send_status_reply_def by (elim ebindE ebind_pairE) (auto dest: sending)

lemma subscription_keeps:
  assumes "Q s" and "process_subscription P s fd jobj action 1 = Inr (flow, s', refs)"
  shows "Q s'"
proof (cases "starts_with action JSON_RPC_SUBSCRIBE_EVENT_ACTION_NAME")
  case False
  with assms show ?thesis by (simp add: process_subscription_def del: starts_with_simps)
next
  case True
  from process_subscription_released [OF assms(2)] have "flow = Continue" by simp
  with True assms(2) obtain data where "add_event_subscription_to_list s (data\<lparr>es_fd := fd\<rparr>) = Inr s'"
    by (auto simp: process_subscription_def initialise_event_subscription_data_def ebind_eq_Inr_iff
        simp del: starts_with_simps split: if_splits)
  from subscribing [OF assms(1) _ this] show ?thesis by simp
qed

lemma event_reply_keeps:
  assumes "Q s" and "process_event_reply P s fd jobj 1 = Inr (flow, s', refs)"
  shows "Q s'"
  using assms(2) by (rule process_event_reply_cases) (use status_update [OF assms(1)] in blast)

lemma action_keeps:
  assumes "Q s" and "r \<in> set (g_hal_functions_list s)" and "acl_cb r = Some cb"
    and "process_action P s fd jobj req_id action cb 1 = Inr (flow, s', refs)"
  shows "Q s'"
proof -
  from assms(4) obtain n where n: "request_param_count (json P) jobj = Inr n" "length req_id < 64"
    by (auto simp: process_action_def ebind_eq_Inr_iff)
  with assms(4) obtain rc j w where cb: "cb (world s) jobj (int n) (prepare_json_response_header (json P) (g_server_config s) action req_id) = Inr (rc, j, w)"
    by (auto simp: process_action_def ebind_eq_Inr_iff)
  let ?s = "s\<lparr>world := w\<rparr>"
  have called: "Q ?s" by (rule calling [OF assms(1-3) cb])
  from assms(4) n cb consider ty where "send_status_reply P ?s fd req_id ty = Inr s'"
    | r s1 where "socket_send P ?s fd (Some j) = Inr (r, s1)" "process_subscription P s1 fd jobj action 1 = Inr (flow, s', refs)"
    by (auto simp: process_action_def Let_def ebind_eq_Inr_iff split: if_splits)
  then show ?thesis
  proof cases
    case 1
    then show ?thesis by (rule status_reply_keeps [OF called])
  next
    case 2
    from subscription_keeps [OF sending [OF called 2(1)] 2(2)] show ?thesis .
  qed
qed

lemma request_keeps:
  assumes "Q s" and "process_request P s fd jobj = Inr (flow, s', refs)"
  shows "Q s'"
proof (cases "\<exists>req_id action. request_is (json P) jobj req_id action")
  case False
  with process_request_ignored [OF assms(2)] assms(1) show ?thesis by simp
next
  case True
  then obtain req_id action where req: "request_is (json P) jobj req_id action" by blast
  have "r \<in> set (g_hal_functions_list s)" if "get_registered_rpc_action_by_name s action = Some r" for r
    using that by (auto simp: get_registered_rpc_action_by_name_def find_Some_iff)
  with assms(2) req consider "process_event_reply P s fd jobj 1 = Inr (flow, s', refs)"
    | "process_unsupported P s fd req_id action 1 = Inr (flow, s', refs)"
    | r cb where "r \<in> set (g_hal_functions_list s)" "acl_cb r = Some cb"
        "process_action P s fd jobj req_id action cb 1 = Inr (flow, s', refs)"
    by (auto simp: process_request_eq split: option.splits if_splits)
  then show ?thesis
  proof cases
    case 1
    with assms(1) show ?thesis by (rule event_reply_keeps)
  next
    case 2
    then obtain s1 where "send_status_reply P s fd req_id RESPONSE_NOT_SUPPORTED = Inr s1" "s' = s1"
      unfolding process_unsupported_def by (elim ebindE) simp
    with status_reply_keeps [OF assms(1)] show ?thesis by simp
  next
    case 3
    then show ?thesis by (rule action_keeps [OF assms(1)])
  qed
qed

lemma loop_keeps:
  "Q s \<Longrightarrow> message_loop fuel P s fd buffer len t start = Inr (rc, s') \<Longrightarrow> Q s'"
proof (induction fuel arbitrary: s t start)
  case (Suc fuel)
  show ?case
  proof (cases "start < len")
    case True
    obtain t' jobj jerr p where tk: "tok_parse_ex (tok P) t (drop (nat start) buffer) (len - start) = (t', jobj, jerr, p)"
      by (metis prod_cases4)
    show ?thesis
    proof (cases jobj)
      case None
      with Suc True tk show ?thesis by (auto split: if_splits)
    next
      case (Some j)
      with Suc.prems(2) True tk obtain flow s1 refs where r: "process_request P s fd j = Inr (flow, s1, refs)"
        and rest: "(case flow of Continue \<Rightarrow> message_loop fuel P s1 fd buffer len t' (start + p)
               | Break \<Rightarrow> Inr (RETURN_OK, s1) | Return rc \<Rightarrow> Inr (rc, s1)) = Inr (rc, s')"
        by (auto simp: ebind_eq_Inr_iff)
      have "Q s1" using request_keeps [OF Suc.prems(1) r] .
      with rest Suc.IH show ?thesis by (cases flow) auto
    qed
  qed (use Suc.prems in simp)
qed simp

lemma message_keeps: "Q s \<Longrightarrow> message_process_cb P s fd buffer len = Inr (rc, s') \<Longrightarrow> Q s'"
  by (auto simp: message_process_cb_def loop_keeps simp del: message_loop.simps split: option.splits)

end

interpretation consistent: request_invariant P fd server_inv for P fd
proof unfold_locales
  fix s :: "('j, 'w, 'v) server" and data es
  assume inv: "server_inv s" and "update_event_status fd data (g_event_subscriptions_list s) = Inr es"
  from update_event_status_keeps [OF this(2)] inv have "\<forall>e \<in> set es. wf_subscription e"
    by (simp only: wf_subscription_map server_inv_def wf_subscriptions_def) blast
  with inv show "server_inv (s\<lparr>g_event_subscriptions_list := es\<rparr>)"
    by (simp add: server_inv_def registry_ok_def wf_subscriptions_def)
qed (auto simp: world_inv dest: send_inv add_subscription_inv)

text \<open>No message changes the registered actions.\<close>

interpretation registered: request_invariant P fd "\<lambda>s. g_hal_functions_list s = fs" for P fd fs
  by unfold_locales
    (auto simp: add_event_subscription_to_list_def lock_subscriptions_def unlock_subscriptions_def result_simps
      dest: send_keeps split: if_splits)

lemma init_inv:
  assumes "server_inv s" and "json_hal_server_init P fs s path = Inr (rc, s')"
  shows "server_inv s'"
proof (cases path)
  case None
  with assms show ?thesis by (simp add: json_hal_server_init_def)
next
  case (Some p)
  with assms(2) obtain rc1 c where l: "json_hal_load_config (json P) fs (Some p) (Some (g_server_config s)) = Inr (rc1, c)"
    by (auto simp: json_hal_server_init_def ebind_eq_Inr_iff)
  from load_config_keeps_wf [OF _ l] assms(1) obtain c' where c': "c = Some c'" "wf_config c'"
    by (auto simp: server_inv_def)
  have "server_inv (s\<lparr>g_server_config := c', rpc_port := p', rpc_running := r, validator := v\<rparr>)"
    "server_inv (s\<lparr>g_server_config := c', rpc_port := p', rpc_running := r\<rparr>)" "server_inv (s\<lparr>g_server_config := c'\<rparr>)" for p' r v
    using assms(1) c' by (simp_all add: server_inv_def registry_ok_def wf_subscriptions_def)
  with assms(2) Some l c' show ?thesis
    by (auto simp: json_hal_server_init_def Let_def split: if_splits prod.splits)
qed

lemma terminate_inv: "server_inv s \<Longrightarrow> server_inv (snd (snd (json_hal_server_terminate P s stopped)))"
  by (simp add: json_hal_server_terminate_def Let_def server_inv_def registry_ok_def wf_subscriptions_def)

section \<open>The replies to a buffer\<close>

text \<open>The objects of a buffer that are requests, as seen by a server with the actions of \<open>s\<close>.\<close>

definition is_request :: "('j, 't, 'w, 's, 'v) platform \<Rightarrow> ('j, 'w, 'v) server \<Rightarrow> 'j \<Rightarrow> bool" where
  "is_request P s j \<longleftrightarrow> (\<exists>req_id action. request_is (json P) j req_id action \<and> \<not> is_event_reply P s action)"

lemma is_request_cong: "g_hal_functions_list s' = g_hal_functions_list s \<Longrightarrow> is_request P s' = is_request P s"
  by (simp add: fun_eq_iff is_request_def is_event_reply_def get_registered_rpc_action_by_name_def)

lemma process_all_answers:
  assumes "sends_ok P" and "process_all P s fd js = Inr s'"
  shows "\<exists>rs. addressed (sent s') = addressed (sent s) @ map (Pair fd) rs \<and> length rs = length (filter (is_request P s) js)"
  using assms(2)
proof (induction js arbitrary: s)
  case (Cons j js)
  from Cons.prems obtain flow s1 refs where r: "process_request P s fd j = Inr (flow, s1, refs)"
    and rest: "process_all P s1 fd js = Inr s'"
    by (auto simp: ebind_eq_Inr_iff)
  have same: "is_request P s1 = is_request P s" using registered.request_keeps [OF _ r] is_request_cong by blast
  from process_request_once [OF assms(1) r] obtain r1 where
    r1: "addressed (sent s1) = addressed (sent s) @ map (Pair fd) r1" "length r1 = (if is_request P s j then 1 else 0)"
    by (auto simp: is_request_def)
  from Cons.IH [OF rest] obtain r2 where
    r2: "addressed (sent s') = addressed (sent s1) @ map (Pair fd) r2" "length r2 = length (filter (is_request P s) js)"
    unfolding same by blast
  show ?case
    by (rule exI [of _ "r1 @ r2"]) (simp add: r1 r2)
qed simp

text \<open>
  C10: a buffer of messages is handled as the sequence of its messages. If the tokener consumes
  input whenever it succeeds, the receive callback never loops: it does what handling the
  objects of the buffer one after the other does, with the same fault if handling one of them
  faults, and otherwise returns the code the parse ends with. When it returns, it has sent one
  reply for each object that has an id and an action, all to the descriptor the buffer came from; in the blocking build
  the objects that are replies to events get none.
\<close>

theorem message_buffer_handled_in_sequence:
  assumes "sends_ok P" and "tokener_progress (tok P)" and "tok_new (tok P) = Some t"
  shows "\<exists>js rc. parse_all (Suc (nat len)) (tok P) b len t 0 = Some (js, rc)
    \<and> message_process_cb P s fd (Some b) len = ebind (process_all P s fd js) (\<lambda>s'. Inr (rc, s'))
    \<and> (\<forall>rc' s'. message_process_cb P s fd (Some b) len = Inr (rc', s') \<longrightarrow>
         (\<exists>rs. addressed (sent s') = addressed (sent s) @ map (Pair fd) rs
            \<and> length rs = length (filter (\<lambda>j. \<exists>req_id action. request_is (json P) j req_id action
                \<and> \<not> (blocking P \<and> get_registered_rpc_action_by_name s action = None
                     \<and> starts_with action JSON_RPC_ACTION_RESULT)) js)))"
proof -
  obtain js rc where js: "parse_all (Suc (nat len)) (tok P) b len t 0 = Some (js, rc)"
    using parse_all_total [OF assms(2), of len 0 "Suc (nat len)" b t] by fastforce
  have eq: "message_process_cb P s fd (Some b) len = ebind (process_all P s fd js) (\<lambda>s'. Inr (rc, s'))"
    unfolding message_process_cb_def using message_loop_refines [OF assms(1) js] assms(3) by simp
  show ?thesis
    using js process_all_answers [OF assms(1), of s fd js, unfolded is_request_def is_event_reply_def]
    unfolding eq ebind_eq_Inr_iff by blast
qed

definition example_tokener :: "json \<Rightarrow> (json, unit) tokener" where
  "example_tokener j = \<lparr>tok_new = Some (), tok_parse_ex = (\<lambda>t s n. ((), Some j, json_tokener_success, n))\<rparr>"

lemma example_subscribe_message:
  assumes "like_example P" and "tok P = example_tokener example_subscribe"
  shows "\<exists>s'. message_process_cb P (example_subscribe_server\<lparr>world := w\<rparr>) fd (Some ''x'') 1 = Inr (RETURN_OK, s')
    \<and> g_event_subscriptions_list s' = [\<lparr>es_fd = fd, es_event = ''Dsl.Line'',
        es_event_type = NOTIFICATION_TYPE_ON_CHANGE, es_req_id = '''', es_status = NO_EVENT_MSG\<rparr>]
    \<and> g_seqnumber s' = g_seqnumber example_subscribe_server \<and> \<not> subscription_mutex s'"
proof -
  have "\<not> subscription_mutex (example_subscribe_server\<lparr>world := w\<rparr>)"
    "g_event_subscriptions_list (example_subscribe_server\<lparr>world := w\<rparr>) = []"
    by (simp_all add: example_registered_def initial_server_def)
  with subscribe_appends [OF example_subscribes [OF assms(1)], of w fd] assms(2) show ?thesis
    by (auto simp: message_process_cb_def example_tokener_def)
qed

theorem message_buffer_handled_in_sequence_witness:
  "\<exists>js rc. parse_all (Suc 5) (example_tokener (example_request ''getStats'')) ''{...}'' 5 () 0 = Some (js, rc)
    \<and> message_process_cb (example_platform\<lparr>tok := example_tokener (example_request ''getStats'')\<rparr>)
        (initial_server [] :: (json, string, unit) server) 7 (Some ''{...}'') 5
      = ebind (process_all (example_platform\<lparr>tok := example_tokener (example_request ''getStats'')\<rparr>) (initial_server []) 7 js)
          (\<lambda>s'. Inr (rc, s'))"
proof -
  let ?P = "example_platform\<lparr>tok := example_tokener (example_request ''getStats'')\<rparr>"
  have "sends_ok ?P" using example_sends_ok by (simp add: sends_ok_def)
  moreover have "tokener_progress (tok ?P)" by (simp add: tokener_progress_def example_tokener_def)
  moreover have "tok_new (tok ?P) = Some ()" by (simp add: example_tokener_def)
  ultimately show ?thesis
    using message_buffer_handled_in_sequence [of ?P "()" 5 "''{...}''" "initial_server []" 7] by auto
qed

section \<open>The states of the server\<close>

text \<open>The data of the server are consistent, apart from the lock; and nothing but a publication
  takes the lock and keeps it.\<close>

definition data_inv :: "bool \<Rightarrow> ('j, 'w, 'v) server \<Rightarrow> bool" where
  "data_inv held s \<longleftrightarrow> server_inv (s\<lparr>subscription_mutex := False\<rparr>) \<and> subscription_mutex s = held"

lemma data_inv_free: "data_inv False s \<longleftrightarrow> server_inv s"
  by (cases s) (auto simp: data_inv_def server_inv_def registry_ok_def wf_subscriptions_def)

lemmas data_inv_defs = data_inv_def server_inv_def registry_ok_def wf_subscriptions_def

interpretation data: request_invariant P fd "data_inv held" for P :: "('j, 't, 'w, 's, 'v) platform" and fd held
proof unfold_locales
  fix s s' :: "('j, 'w, 'v) server" and fd' m rc
  assume "data_inv held s" and "socket_send P s fd' m = Inr (rc, s')"
  then show "data_inv held s'" by (auto simp: data_inv_defs dest!: send_keeps)
next
  fix s s' :: "('j, 'w, 'v) server" and data
  assume "data_inv held s" and add: "add_event_subscription_to_list s data = Inr s'"
  moreover from add have "\<not> subscription_mutex s"
    by (auto simp: add_event_subscription_to_list_def lock_subscriptions_def result_simps split: if_splits)
  ultimately show "data_inv held s'"
    using add_subscription_inv [OF _ add] by (cases held) (simp_all add: data_inv_free, simp add: data_inv_def)
next
  fix s :: "('j, 'w, 'v) server" and data es
  assume "data_inv held s" and "update_event_status fd data (g_event_subscriptions_list s) = Inr es"
  then show "data_inv held (s\<lparr>g_event_subscriptions_list := es\<rparr>)"
    using consistent.status_update [of "s\<lparr>subscription_mutex := False\<rparr>" fd data es] by (cases s) (simp add: data_inv_def)
qed (simp add: data_inv_defs)

lemma register_data_inv:
  "data_inv held s \<Longrightarrow> nul_free name \<Longrightarrow> json_hal_server_register_action_callback s name cb = Inr (rc, s') \<Longrightarrow> data_inv held s'"
  by (auto simp: json_hal_server_register_action_callback_def result_simps strcpy_Inr_iff data_inv_defs
      strcmp_eq_def action_name_ok_def split: if_splits)

lemma init_keeps_lock:
  assumes "json_hal_server_init P fs s path = Inr (rc, s')"
  shows "json_hal_server_init P fs (s\<lparr>subscription_mutex := b\<rparr>) path = Inr (rc, s'\<lparr>subscription_mutex := b\<rparr>)
    \<and> subscription_mutex s' = subscription_mutex s"
proof (cases path)
  case None
  with assms show ?thesis by (simp add: json_hal_server_init_def)
next
  case (Some p)
  with assms obtain rc1 c where l: "json_hal_load_config (json P) fs (Some p) (Some (g_server_config s)) = Inr (rc1, c)"
    by (auto simp: json_hal_server_init_def ebind_eq_Inr_iff)
  show ?thesis
    using assms Some l
    by (cases c; cases "rc1 = RETURN_OK"; cases "validation P") (auto simp: json_hal_server_init_def Let_def split: prod.splits)
qed

lemma init_data_inv:
  assumes "data_inv held s" and "json_hal_server_init P fs s path = Inr (rc, s')"
  shows "data_inv held s'"
  using init_inv [of "s\<lparr>subscription_mutex := False\<rparr>" P fs path rc "s'\<lparr>subscription_mutex := False\<rparr>"]
    init_keeps_lock [OF assms(2)] assms(1)
  by (simp add: data_inv_def)

lemma terminate_data_inv: "data_inv held s \<Longrightarrow> data_inv held (snd (snd (json_hal_server_terminate P s stopped)))"
  by (simp add: json_hal_server_terminate_def Let_def data_inv_defs)

text \<open>A publication without a value that meets a subscription keeps the lock; one that meets none
  changes nothing.\<close>

definition keeps_lock :: "('j, 'w, 'v) server \<Rightarrow> string \<Rightarrow> string option \<Rightarrow> bool" where
  "keeps_lock s ev v \<longleftrightarrow> v = None \<and> (\<exists>e \<in> set (g_event_subscriptions_list s). starts_with (es_event e) ev)"

lemma publish_loop_no_subscriber:
  "\<forall>e \<in> set es. \<not> starts_with (es_event e) ev \<Longrightarrow> publish_loop P ev v ret blk s es = Inr (Some (ret, blk), es, s)"
  by (induction es) auto

lemma publish_data_inv:
  assumes "json_c_ok (json P)" and "data_inv held s" and "\<forall>p \<in> set polls. \<exists>h. data_inv h (fst p)"
    and run: "json_hal_server_publish_event P s ev v t0 polls = Inr (rc, s')"
  shows "data_inv (keeps_lock s ev v) s'"
proof -
  have free: "\<not> subscription_mutex s"
    using run by (auto simp: publish_event_defs lock_subscriptions_def result_simps split: if_splits)
  then have inv: "server_inv s" using assms(2) by (cases held) (auto simp: data_inv_free, simp add: data_inv_def)
  show ?thesis
  proof (cases v)
    case (Some x)
    have "\<forall>p \<in> set polls. subscription_mutex (fst p) \<or> server_inv (fst p)"
      using assms(3) by (metis data_inv_def data_inv_free)
    from publish_inv [OF assms(1) inv this] run Some show ?thesis by (simp add: keeps_lock_def data_inv_free)
  next
    case None
    show ?thesis
    proof (cases "keeps_lock s ev v")
      case True
      then obtain e where "e \<in> set (g_event_subscriptions_list s)" "starts_with (es_event e) ev"
        by (auto simp: keeps_lock_def)
      with run None free have "s' = s\<lparr>subscription_mutex := True\<rparr>"
        by (simp add: publish_event_defs publish_loop_null)
      with inv True show ?thesis by (simp add: data_inv_defs)
    next
      case False
      with None have "\<forall>e \<in> set (g_event_subscriptions_list s). \<not> starts_with (es_event e) ev"
        by (auto simp: keeps_lock_def)
      with run None free have "s' = s"
        by (cases s) (simp add: publish_event_defs publish_loop_no_subscriber unlock_subscriptions_def)
      with inv False show ?thesis by (simp add: data_inv_free)
    qed
  qed
qed

text \<open>The states a server can be in between two operations: any sequence of calls of the public
  functions and of the callbacks of the socket thread. The index says whether the last
  publication kept the lock. The polls of a blocking publication find states of the same server.\<close>

inductive server_reachable :: "('j, 't, 'w, 's, 'v) platform \<Rightarrow> bool \<Rightarrow> ('j, 'w, 'v) server \<Rightarrow> bool"
  for P :: "('j, 't, 'w, 's, 'v) platform" where
  start: "server_reachable P False (initial_server w)"
| init: "server_reachable P stuck s \<Longrightarrow> json_hal_server_init P fs s path = Inr (rc, s') \<Longrightarrow> server_reachable P stuck s'"
| register: "server_reachable P stuck s \<Longrightarrow> nul_free name \<Longrightarrow>
    json_hal_server_register_action_callback s name cb = Inr (rc, s') \<Longrightarrow> server_reachable P stuck s'"
| connected: "server_reachable P stuck s \<Longrightarrow> client_connected_cb s fd = Inr (rc, s') \<Longrightarrow> server_reachable P stuck s'"
| message: "server_reachable P stuck s \<Longrightarrow> message_process_cb P s fd buffer len = Inr (rc, s') \<Longrightarrow> server_reachable P stuck s'"
| disconnected: "server_reachable P stuck s \<Longrightarrow> client_disconnected_cb s fd = Inr (rc, s') \<Longrightarrow> server_reachable P stuck s'"
| publish: "server_reachable P stuck s \<Longrightarrow> \<forall>p \<in> set polls. \<exists>b. server_reachable P b (fst p) \<Longrightarrow>
    json_hal_server_publish_event P s ev v t0 polls = Inr (rc, s') \<Longrightarrow> server_reachable P (keeps_lock s ev v) s'"
| terminate: "server_reachable P stuck s \<Longrightarrow> server_reachable P stuck (snd (snd (json_hal_server_terminate P s stopped)))"

inductive_cases server_reachableE: "server_reachable P stuck s"

lemma initial_inv [simp]: "server_inv (initial_server w)"
  by (simp add: server_inv_def initial_server_def registry_ok_def wf_subscriptions_def wf_config_def zero_config_def config_defs)

lemma disconnect_data_inv:
  assumes "data_inv held s" and "client_disconnected_cb s fd = Inr (rc, s')"
  shows "data_inv held s'"
proof -
  have "\<not> subscription_mutex s"
    using assms(2) by (auto simp: client_disconnected_cb_def remove_event_subscription_from_list_def lock_subscriptions_def split: if_splits)
  with assms show ?thesis using disconnect_inv by (cases held) (auto simp: data_inv_free, simp add: data_inv_def)
qed

lemma reachable_data_inv:
  assumes "json_c_ok (json P)" and "server_reachable P stuck s"
  shows "data_inv stuck s"
  using assms(2)
proof (induction rule: server_reachable.induct)
  case (start w)
  show ?case by (simp add: data_inv_free)
next
  case (init stuck s fs path rc s')
  from init_data_inv [OF init(3,2)] show ?case .
next
  case (register stuck s name cb rc s')
  from register_data_inv [OF register(4,2,3)] show ?case .
next
  case (connected stuck s fd rc s')
  then show ?case by (simp add: client_connected_cb_def)
next
  case (message stuck s fd buffer len rc s')
  from data.message_keeps [OF message(3,2)] show ?case .
next
  case (disconnected stuck s fd rc s')
  from disconnect_data_inv [OF disconnected(3,2)] show ?case .
next
  case (publish stuck s polls ev v t0 rc s')
  then have "\<forall>p \<in> set polls. \<exists>h. data_inv h (fst p)" by blast
  from publish_data_inv [OF assms(1) publish(3) this publish(2)] show ?case .
next
  case (terminate stuck s stopped)
  from terminate_data_inv [OF terminate(2)] show ?case .
qed

text \<open>
  C8: the server's data stay consistent, and only a publication without a value blocks it. In
  every state that calls of the library, messages from clients and publications (with or
  without a value) can lead to without a fault, in both builds, the configuration strings, the
  registered names, the stored event names and the awaited ids fit their arrays, no action is
  registered twice and the sequence number is within its range. The subscription lock is held
  exactly if the last publication was made without a value and met a subscription; then a
  disconnection blocks forever, and in every other state it returns and keeps all this.
\<close>

theorem server_stays_consistent:
  assumes "json_c_ok (json P)" and "server_reachable P stuck s"
  shows "server_inv (s\<lparr>subscription_mutex := False\<rparr>) \<and> subscription_mutex s = stuck
    \<and> (\<forall>fd. if stuck then client_disconnected_cb s fd = Inl Deadlock
         else \<exists>s'. client_disconnected_cb s fd = Inr (RETURN_OK, s') \<and> server_inv s')"
proof -
  from reachable_data_inv [OF assms] have inv: "data_inv stuck s" .
  have "\<exists>s'. client_disconnected_cb s fd = Inr (RETURN_OK, s') \<and> server_inv s'" if "\<not> stuck" for fd
  proof -
    from inv that have "server_inv s" "\<not> subscription_mutex s" by (simp_all add: data_inv_free, simp add: data_inv_def)
    from disconnect_inv [OF this(1) client_disconnected_free [OF this(2)]] client_disconnected_free [OF this(2)]
    show ?thesis by simp
  qed
  moreover have "client_disconnected_cb s fd = Inl Deadlock" if "stuck" for fd
    using inv that by (simp add: data_inv_def client_disconnected_cb_def remove_event_subscription_from_list_def lock_subscriptions_def)
  ultimately show ?thesis using inv by (simp add: data_inv_def)
qed

text \<open>A subscription and then a publication without a value.\<close>

theorem server_stays_consistent_witness:
  "\<exists>s1 s2. message_process_cb (example_platform\<lparr>tok := example_tokener example_subscribe\<rparr>) example_subscribe_server 7 (Some ''x'') 1
       = Inr (RETURN_OK, s1) \<and> server_inv s1 \<and> \<not> subscription_mutex s1
     \<and> json_hal_server_publish_event (example_platform\<lparr>tok := example_tokener example_subscribe\<rparr>) s1 ''Dsl'' None 0 [] = Inr (RETURN_ERR, s2)
     \<and> client_disconnected_cb s2 7 = Inl Deadlock"
proof -
  let ?P = "example_platform\<lparr>tok := example_tokener example_subscribe\<rparr>"
  have P: "like_example ?P" using like_example_refl by (simp add: like_example_def sends_ok_def)
  then obtain s1 where m: "message_process_cb ?P example_subscribe_server 7 (Some ''x'') 1 = Inr (RETURN_OK, s1)"
    and s1: "g_event_subscriptions_list s1 = [\<lparr>es_fd = 7, es_event = ''Dsl.Line'',
        es_event_type = NOTIFICATION_TYPE_ON_CHANGE, es_req_id = '''', es_status = NO_EVENT_MSG\<rparr>]" "\<not> subscription_mutex s1"
    using example_subscribe_message [of ?P "[]" 7] by auto
  have "json_hal_server_register_action_callback (initial_server []) ''subscribeEvent'' (Some echo_callback)
      = Inr (RETURN_OK, example_subscribe_server)"
    by (simp add: json_hal_server_register_action_callback_def initial_server_def example_registered_def)
  from server_reachable.register [OF server_reachable.start _ this] have "server_reachable ?P False example_subscribe_server" by simp
  from server_reachable.message [OF this m] have r1: "server_reachable ?P False s1" .
  have pub: "json_hal_server_publish_event ?P s1 ''Dsl'' None 0 [] = Inr (RETURN_ERR, s1\<lparr>subscription_mutex := True\<rparr>)"
    using s1 by (simp add: publish_event_defs create_publish_event_msg_def)
  from server_reachable.publish [OF r1 _ pub] have r2: "server_reachable ?P True (s1\<lparr>subscription_mutex := True\<rparr>)"
    using s1 by (simp add: keeps_lock_def)
  have J: "json_c_ok (json ?P)" using P by (simp add: like_example_def)
  have "s1\<lparr>subscription_mutex := False\<rparr> = s1" using s1(2) by (cases s1) simp
  with server_stays_consistent [OF J r1] server_stays_consistent [OF J r2] m pub s1(2) show ?thesis by simp
qed

end
