(* ===== verification/Tcp_Sockets.thy ===== *)
theory Tcp_Sockets
  imports Rpc_Common
begin

text \<open>
  The socket interface of the operating system, a parameter of the models of both socket
  threads. The type \<open>'a\<close> stands for everything outside the file under consideration: the
  operating system, the library above it and the other threads, all of which may change while
  a system call is in progress. A set of descriptors (\<^verbatim>\<open>fd_set\<close>) is a set of integers.
\<close>

datatype errno = EBADF | EISCONN | EADDRNOTAVAIL | EINPROGRESS | EALREADY | ECONNREFUSED | E_OTHER

record 'a sockets =
  so_socket :: "'a \<Rightarrow> int \<times> 'a"
  so_setsockopt :: "'a \<Rightarrow> int \<Rightarrow> int \<times> 'a"
  so_ioctl :: "'a \<Rightarrow> int \<Rightarrow> int \<times> 'a"
  so_bind :: "'a \<Rightarrow> int \<Rightarrow> int \<Rightarrow> int \<times> 'a"
  so_listen :: "'a \<Rightarrow> int \<Rightarrow> int \<Rightarrow> int \<times> 'a"
  so_select :: "'a \<Rightarrow> int \<Rightarrow> int set \<Rightarrow> int \<times> int set \<times> 'a"
  so_accept :: "'a \<Rightarrow> int \<Rightarrow> int \<times> 'a"
  so_connect :: "'a \<Rightarrow> int \<Rightarrow> string \<Rightarrow> int \<Rightarrow> int \<times> errno \<times> 'a"
  so_recv :: "'a \<Rightarrow> int \<Rightarrow> nat \<Rightarrow> int \<times> string \<times> 'a"
  so_close :: "'a \<Rightarrow> int \<Rightarrow> 'a"

text \<open>\<^verbatim>\<open>FD_SET\<close> writes a bit of an array of \<^verbatim>\<open>FD_SETSIZE\<close> bits.\<close>

definition FD_SETSIZE :: int where [config_defs]: "FD_SETSIZE = 1024"

definition FD_SET :: "int \<Rightarrow> int set \<Rightarrow> int set cres" where
  "FD_SET fd S = (if 0 \<le> fd \<and> fd < FD_SETSIZE then Inr (insert fd S) else Inl Buffer_Overflow)"

text \<open>The documented behaviour of \<^verbatim>\<open>select\<close> and \<^verbatim>\<open>recv\<close>: the descriptors that
  are ready are among those asked for and their number is returned, and \<^verbatim>\<open>recv\<close> returns
  how many bytes it has stored.\<close>

definition io_documented :: "'a sockets \<Rightarrow> bool" where
  "io_documented O' \<longleftrightarrow>
     (\<forall>a n S rc W a'. so_select O' a n S = (rc, W, a') \<longrightarrow> 0 \<le> rc \<longrightarrow> W \<subseteq> S \<and> int (card W) = rc)
   \<and> (\<forall>a fd n rc d a'. so_recv O' a fd n = (rc, d, a') \<longrightarrow> 0 \<le> rc \<longrightarrow> int (length d) = rc \<and> length d \<le> n)"

lemma selectD:
  assumes "io_documented O'" and "so_select O' a n S = (rc, W, a')" and "0 \<le> rc"
  shows "W \<subseteq> S" and "int (card W) = rc"
  using assms unfolding io_documented_def by blast+

lemma recvD:
  assumes "io_documented O'" and "so_recv O' a fd n = (rc, d, a')" and "0 \<le> rc"
  shows "int (length d) = rc" and "length d \<le> n"
  using assms unfolding io_documented_def by blast+

section \<open>Sessions\<close>

text \<open>What a socket thread reports to its owner through the callbacks.\<close>

datatype session_event = Connect int | Data int string | Disconnect int

text \<open>What was reported is legal when a descriptor is connected at most once at a time and gets
  data and its disconnection only while it is connected; the result is the set of descriptors
  connected at the end.\<close>

fun legal :: "int set \<Rightarrow> session_event list \<Rightarrow> int set option" where
  "legal C [] = Some C"
| "legal C (Connect fd # es) = (if fd \<in> C then None else legal (insert fd C) es)"
| "legal C (Data fd d # es) = (if fd \<in> C \<and> d \<noteq> [] then legal C es else None)"
| "legal C (Disconnect fd # es) = (if fd \<in> C then legal (C - {fd}) es else None)"

lemma legal_append: "legal C (es @ fs) = Option.bind (legal C es) (\<lambda>C'. legal C' fs)"
  by (induction C es rule: legal.induct) auto

fun accepted :: "session_event list \<Rightarrow> int list" where
  "accepted [] = []"
| "accepted (Connect fd # es) = fd # accepted es"
| "accepted (e # es) = accepted es"

lemma accepted_append [simp]: "accepted (es @ fs) = accepted es @ accepted fs"
  by (induction es rule: accepted.induct) auto

end
