(* ===== verification/Tcp_Server.thy ===== *)
theory Tcp_Server
  imports Tcp_Sockets "HOL-Library.Multiset"
begin

text \<open>
  \<^verbatim>\<open>tcp_server.c\<close>: the socket thread of the server. It owns the listening socket and the
  list of clients, waits with \<^verbatim>\<open>select\<close> and reports connections, data and disconnections
  to the callbacks of its owner. The theory shows that every ready descriptor is served, that
  the callbacks are called in a sensible order and that no descriptor leaks.
\<close>

section \<open>Data\<close>

record client_list_t =
  cl_fd :: int

text \<open>The owner's data. The flag \<^verbatim>\<open>running\<close> is read by the thread and written by other
  threads, so it is a part of the rest of the system.\<close>

record 'a rpc_server_data_t =
  sd_port :: int
  func_disconnect :: "('a \<Rightarrow> int \<Rightarrow> 'a cres) option"
  func_connect :: "('a \<Rightarrow> int \<Rightarrow> 'a cres) option"
  func_process :: "('a \<Rightarrow> int \<Rightarrow> string \<Rightarrow> int \<Rightarrow> 'a cres) option"
  get_running :: "'a \<Rightarrow> bool"
  set_running :: "bool \<Rightarrow> 'a \<Rightarrow> 'a"

text \<open>The variables of the thread and of the file. \<open>th_session\<close> and \<open>th_closed\<close> record, for
  the theorems only, what was reported and which descriptors were closed.\<close>

record 'a server_thread =
  listen_sd :: int
  max_sd :: int
  master_set :: "int set"
  g_client_list :: "client_list_t list"
  g_rpc_server_running_status :: bool
  th_rest :: 'a
  th_session :: "session_event list"
  th_closed :: "int list"

section \<open>One descriptor\<close>

definition call_connect :: "'a rpc_server_data_t \<Rightarrow> 'a \<Rightarrow> int \<Rightarrow> 'a cres" where
  "call_connect D a fd = (case func_connect D of None \<Rightarrow> Inr a | Some f \<Rightarrow> f a fd)"

definition call_disconnect :: "'a rpc_server_data_t \<Rightarrow> 'a \<Rightarrow> int \<Rightarrow> 'a cres" where
  "call_disconnect D a fd = (case func_disconnect D of None \<Rightarrow> Inr a | Some f \<Rightarrow> f a fd)"

definition call_process :: "'a rpc_server_data_t \<Rightarrow> 'a \<Rightarrow> int \<Rightarrow> string \<Rightarrow> int \<Rightarrow> 'a cres" where
  "call_process D a fd buffer len = (case func_process D of None \<Rightarrow> Inr a | Some f \<Rightarrow> f a fd buffer len)"

definition close_fd :: "'a sockets \<Rightarrow> int \<Rightarrow> 'a server_thread \<Rightarrow> 'a server_thread" where
  "close_fd O' fd T = T\<lparr>th_rest := so_close O' (th_rest T) fd, th_closed := th_closed T @ [fd]\<rparr>"

definition serve_listener :: "'a sockets \<Rightarrow> 'a rpc_server_data_t \<Rightarrow> 'a server_thread \<Rightarrow> 'a server_thread cres" where
  "serve_listener O' D T =
     (let (new_sd, a) = so_accept O' (th_rest T) (listen_sd T) in
      if new_sd < 0 then Inr (T\<lparr>th_rest := a\<rparr>)
      else
        ebind (call_connect D a new_sd) (\<lambda>a.
        ebind (FD_SET new_sd (master_set T)) (\<lambda>S.
          Inr (T\<lparr>th_rest := a, th_session := th_session T @ [Connect new_sd],
                 g_client_list := g_client_list T @ [\<lparr>cl_fd = new_sd\<rparr>],
                 master_set := S, max_sd := (if new_sd > max_sd T then new_sd else max_sd T)\<rparr>))))"

text \<open>The loop that lowers \<^verbatim>\<open>max_sd\<close> to the largest descriptor of the set. Below zero it
  would read outside the set.\<close>

function lower_max :: "int set \<Rightarrow> int \<Rightarrow> int cres" where
  "lower_max S m = (if m < 0 then Inl Buffer_Overflow else if m \<in> S then Inr m else lower_max S (m - 1))"
  by pat_completeness auto
termination by (relation "measure (\<lambda>(S, m). nat (m + 1))") auto

declare lower_max.simps [simp del]

text \<open>The buffer holds the bytes received, followed by zeros.\<close>

definition serve_client ::
  "'a sockets \<Rightarrow> 'a rpc_server_data_t \<Rightarrow> int \<Rightarrow> 'a server_thread \<Rightarrow> 'a server_thread cres" where
  "serve_client O' D i T =
     (let (rc, buffer, a) = so_recv O' (th_rest T) i MAX_BUFFER_SIZE in
      if rc < 0 then Inr (T\<lparr>th_rest := a\<rparr>)
      else if rc = 0
      then
        ebind (call_disconnect D a i) (\<lambda>a.
        let T = close_fd O' i (T\<lparr>th_rest := a, th_session := th_session T @ [Disconnect i]\<rparr>);
            S = master_set T - {i}
        in ebind (if i = max_sd T then lower_max S (max_sd T) else Inr (max_sd T)) (\<lambda>m.
             Inr (T\<lparr>master_set := S, max_sd := m,
                    g_client_list := filter (\<lambda>conn. cl_fd conn \<noteq> i) (g_client_list T)\<rparr>)))
      else
        ebind (call_process D a i buffer rc) (\<lambda>a.
          Inr (T\<lparr>th_rest := a, th_session := th_session T @ [Data i buffer]\<rparr>)))"

definition serve_fd ::
  "'a sockets \<Rightarrow> 'a rpc_server_data_t \<Rightarrow> int \<Rightarrow> 'a server_thread \<Rightarrow> 'a server_thread cres" where
  "serve_fd O' D i T = (if i = listen_sd T then serve_listener O' D T else serve_client O' D i T)"

section \<open>The thread\<close>

text \<open>The loop over the descriptors that are ready. It stops as soon as it has met as many as
  \<^verbatim>\<open>select\<close> reported; the bound \<^verbatim>\<open>max_sd\<close> may move while it runs.\<close>

function serve_ready ::
  "'a sockets \<Rightarrow> 'a rpc_server_data_t \<Rightarrow> int set \<Rightarrow> int \<Rightarrow> int \<Rightarrow> 'a server_thread \<Rightarrow> 'a server_thread cres" where
  "serve_ready O' D working_set i desc_ready T =
     (if i \<le> max_sd T \<and> desc_ready > 0
      then
        if i \<in> working_set
        then ebind (serve_fd O' D i T) (\<lambda>T. serve_ready O' D working_set (i + 1) (desc_ready - 1) T)
        else serve_ready O' D working_set (i + 1) desc_ready T
      else Inr T)"
  by pat_completeness auto
termination
  by (relation "measures [\<lambda>(O', D, W, i, r, T). nat r, \<lambda>(O', D, W, i, r, T). nat (max_sd T + 1 - i)]") auto

declare serve_ready.simps [simp del]

text \<open>One turn of the main loop; \<open>False\<close> when \<^verbatim>\<open>select\<close> failed and the loop is left.\<close>

definition server_turn ::
  "'a sockets \<Rightarrow> 'a rpc_server_data_t \<Rightarrow> 'a server_thread \<Rightarrow> (bool \<times> 'a server_thread) cres" where
  "server_turn O' D T =
     (let (rc, working_set, a) = so_select O' (th_rest T) (max_sd T + 1) (master_set T);
          T = T\<lparr>g_rpc_server_running_status := True, th_rest := a\<rparr>
      in if rc < 0 then Inr (False, T)
         else ebind (serve_ready O' D working_set 0 rc T) (\<lambda>T. Inr (True, T)))"

text \<open>The main loop runs until the owner clears \<^verbatim>\<open>running\<close>; the fuel counts its turns.\<close>

fun server_loop ::
  "nat \<Rightarrow> 'a sockets \<Rightarrow> 'a rpc_server_data_t \<Rightarrow> 'a server_thread \<Rightarrow> 'a server_thread cres" where
  "server_loop 0 O' D T = Inl No_Return"
| "server_loop (Suc turns) O' D T =
     ebind (server_turn O' D T) (\<lambda>(go_on, T).
       if go_on \<and> get_running D (th_rest T) then server_loop turns O' D T else Inr T)"

text \<open>The descriptors closed at the end: those of the set, from zero to \<^verbatim>\<open>max_sd\<close>.\<close>

definition close_all :: "'a sockets \<Rightarrow> 'a server_thread \<Rightarrow> 'a server_thread" where
  "close_all O' T = fold (close_fd O') (filter (\<lambda>i. i \<in> master_set T) [0..max_sd T]) T"

text \<open>Opening the listening socket; a failure after the first step closes it again.\<close>

definition open_listener :: "'a sockets \<Rightarrow> int \<Rightarrow> 'a \<Rightarrow> int option \<times> 'a" where
  "open_listener O' port a =
     (let (sd, a) = so_socket O' a in
      if sd < 0 then (None, a)
      else let (rc, a) = so_setsockopt O' a sd in
      if rc < 0 then (None, so_close O' a sd)
      else let (rc, a) = so_ioctl O' a sd in
      if rc < 0 then (None, so_close O' a sd)
      else let (rc, a) = so_bind O' a sd port in
      if rc < 0 then (None, so_close O' a sd)
      else let (rc, a) = so_listen O' a sd 32 in
      if rc < 0 then (None, so_close O' a sd)
      else (Some sd, a))"

text \<open>The thread when it enters its main loop.\<close>

definition thread_start :: "int \<Rightarrow> int set \<Rightarrow> 'a \<Rightarrow> 'a server_thread" where
  "thread_start sd S a = \<lparr>listen_sd = sd, max_sd = sd, master_set = S, g_client_list = [],
     g_rpc_server_running_status = False, th_rest = a, th_session = [], th_closed = []\<rparr>"

text \<open>The whole thread. \<open>None\<close> when it ends before its main loop.\<close>

definition rpc_server_handler ::
  "nat \<Rightarrow> 'a sockets \<Rightarrow> 'a rpc_server_data_t option \<Rightarrow> 'a \<Rightarrow> ('a \<times> 'a server_thread option) cres" where
  "rpc_server_handler turns O' serverdata a =
     (case serverdata of
        None \<Rightarrow> Inr (a, None)
      | Some D \<Rightarrow>
          (case open_listener O' (sd_port D) (set_running D True a) of
             (None, a) \<Rightarrow> Inr (a, None)
           | (Some sd, a) \<Rightarrow>
               ebind (FD_SET sd {}) (\<lambda>S.
               ebind (server_loop turns O' D (thread_start sd S a)) (\<lambda>T.
               let T = (close_all O' T)\<lparr>g_rpc_server_running_status := False\<rparr>
               in Inr (th_rest T, Some T)))))"

text \<open>Starting the thread: \<open>created\<close> is the result of \<^verbatim>\<open>pthread_create\<close>.\<close>

definition json_rpc_server_run :: "int \<Rightarrow> 'a rpc_server_data_t option \<Rightarrow> int \<times> 'a rpc_server_data_t option" where
  "json_rpc_server_run created server =
     (case server of
        None \<Rightarrow> (RETURN_ERR, None)
      | Some D \<Rightarrow> (created, if created = RETURN_OK then Some D else None))"

definition json_rpc_server_is_running :: "'a server_thread \<Rightarrow> bool" where
  "json_rpc_server_is_running T = g_rpc_server_running_status T"

section \<open>The invariant of the thread\<close>

abbreviation clients :: "'a server_thread \<Rightarrow> int set" where
  "clients T \<equiv> cl_fd ` set (g_client_list T)"

text \<open>\<open>owned a\<close> are the descriptors the system has handed to the thread and that are not closed
  again. The set of the thread is the listening socket and the clients, all owned, and
  \<^verbatim>\<open>max_sd\<close> is its maximum.\<close>

definition thread_inv :: "('a \<Rightarrow> int set) \<Rightarrow> 'a server_thread \<Rightarrow> bool" where
  "thread_inv owned T \<longleftrightarrow>
     distinct (map cl_fd (g_client_list T)) \<and> listen_sd T \<notin> clients T
   \<and> master_set T = insert (listen_sd T) (clients T) \<and> master_set T \<subseteq> owned (th_rest T)
   \<and> max_sd T \<in> master_set T \<and> (\<forall>fd \<in> master_set T. 0 \<le> fd \<and> fd \<le> max_sd T)
   \<and> legal {} (th_session T) = Some (clients T)
   \<and> mset (th_closed T) + mset (map cl_fd (g_client_list T)) = mset (accepted (th_session T))"

text \<open>The documented behaviour of the descriptor table: \<^verbatim>\<open>accept\<close> returns a descriptor that
  is not in use, \<^verbatim>\<open>close\<close> gives one up, and the other calls
  leave the thread's descriptors alone.\<close>

definition fd_table :: "'a sockets \<Rightarrow> ('a \<Rightarrow> int set) \<Rightarrow> bool" where
  "fd_table O' owned \<longleftrightarrow>
     (\<forall>a sd fd a'. so_accept O' a sd = (fd, a') \<longrightarrow>
        (if fd < 0 then owned a' = owned a
         else fd \<notin> owned a \<and> owned a' = insert fd (owned a)))
   \<and> (\<forall>a n S rc W a'. so_select O' a n S = (rc, W, a') \<longrightarrow> owned a' = owned a)
   \<and> (\<forall>a fd n rc d a'. so_recv O' a fd n = (rc, d, a') \<longrightarrow> owned a' = owned a)
   \<and> (\<forall>a fd. owned (so_close O' a fd) = owned a - {fd})"

lemma fd_tableD:
  assumes "fd_table O' owned"
  shows "so_accept O' a sd = (fd, a') \<Longrightarrow> fd < 0 \<Longrightarrow> owned a' = owned a"
    and "so_accept O' a sd = (fd, a') \<Longrightarrow> \<not> fd < 0 \<Longrightarrow> fd \<notin> owned a \<and> owned a' = insert fd (owned a)"
    and "so_select O' a n S = (rc, W, a') \<Longrightarrow> owned a' = owned a"
    and "so_recv O' a fd m = (rc, d, a') \<Longrightarrow> owned a' = owned a"
    and "owned (so_close O' a fd) = owned a - {fd}"
proof -
  note t = assms [unfolded fd_table_def]
  note t1 = t [THEN conjunct1, rule_format] and t2 = t [THEN conjunct2]
  note t3 = t2 [THEN conjunct2]
  show "so_accept O' a sd = (fd, a') \<Longrightarrow> fd < 0 \<Longrightarrow> owned a' = owned a" using t1 [of a sd fd a'] by simp
  show "so_accept O' a sd = (fd, a') \<Longrightarrow> \<not> fd < 0 \<Longrightarrow> fd \<notin> owned a \<and> owned a' = insert fd (owned a)"
    using t1 [of a sd fd a'] by simp
  show "so_select O' a n S = (rc, W, a') \<Longrightarrow> owned a' = owned a" by (rule t2 [THEN conjunct1, rule_format])
  show "so_recv O' a fd m = (rc, d, a') \<Longrightarrow> owned a' = owned a" by (rule t3 [THEN conjunct1, rule_format])
  show "owned (so_close O' a fd) = owned a - {fd}" by (rule t3 [THEN conjunct2, rule_format])
qed

lemma thread_invI:
  assumes "distinct (map cl_fd (g_client_list T))" and "listen_sd T \<notin> clients T"
    and "master_set T = insert (listen_sd T) (clients T)" and "master_set T \<subseteq> owned (th_rest T)"
    and "max_sd T \<in> master_set T" and "\<And>fd. fd \<in> master_set T \<Longrightarrow> 0 \<le> fd \<and> fd \<le> max_sd T"
    and "legal {} (th_session T) = Some (clients T)"
    and "mset (th_closed T) + mset (map cl_fd (g_client_list T)) = mset (accepted (th_session T))"
  shows "thread_inv owned T"
  using assms unfolding thread_inv_def by blast

lemma thread_invD:
  assumes "thread_inv owned T"
  shows "distinct (map cl_fd (g_client_list T))" and "listen_sd T \<notin> clients T"
    and "master_set T = insert (listen_sd T) (clients T)" and "master_set T \<subseteq> owned (th_rest T)"
    and "max_sd T \<in> master_set T" and "fd \<in> master_set T \<Longrightarrow> 0 \<le> fd \<and> fd \<le> max_sd T"
    and "legal {} (th_session T) = Some (clients T)"
    and "mset (th_closed T) + mset (map cl_fd (g_client_list T)) = mset (accepted (th_session T))"
  using assms unfolding thread_inv_def by blast+

lemma lower_max_Max:
  assumes "x \<in> S" and "0 \<le> x" and "x \<le> m"
  shows "\<exists>r. lower_max S m = Inr r \<and> r \<in> S \<and> (\<forall>y \<in> S. y \<le> m \<longrightarrow> y \<le> r)"
  using assms
proof (induction S m rule: lower_max.induct)
  case (1 S m)
  show ?case
  proof (cases "m \<in> S")
    case True
    then show ?thesis using 1 by (simp add: lower_max.simps [of S m])
  next
    case False
    then have "x \<le> m - 1" using 1(2,4) by (cases "x = m") auto
    then obtain r where r: "lower_max S (m - 1) = Inr r" "r \<in> S" "\<forall>y \<in> S. y \<le> m - 1 \<longrightarrow> y \<le> r"
      using 1 False by auto
    have "y \<le> r" if "y \<in> S" "y \<le> m" for y
      using r(3) that False by (cases "y = m") auto
    with r False 1 show ?thesis by (auto simp: lower_max.simps [of S m])
  qed
qed

lemma thread_inv_world:
  "owned a = owned (th_rest T) \<Longrightarrow> thread_inv owned (T\<lparr>th_rest := a\<rparr>) = thread_inv owned T"
  by (simp add: thread_inv_def)

lemma thread_inv_rest:
  "owned a = owned (th_rest T) \<Longrightarrow> thread_inv owned (T\<lparr>g_rpc_server_running_status := x, th_rest := a\<rparr>) = thread_inv owned T"
  by (simp add: thread_inv_def)

lemma filter_fd_removes:
  "distinct (map cl_fd cs) \<Longrightarrow> i \<in> cl_fd ` set cs \<Longrightarrow>
   add_mset i (mset (map cl_fd (filter (\<lambda>c. cl_fd c \<noteq> i) cs))) = mset (map cl_fd cs)"
proof (induction cs)
  case (Cons c cs)
  show ?case
  proof (cases "cl_fd c = i")
    case True
    then have "filter (\<lambda>c. cl_fd c \<noteq> i) cs = cs" using Cons.prems by (intro filter_True) (auto simp: image_iff)
    with True show ?thesis by simp
  next
    case False
    then have "i \<in> cl_fd ` set cs" using Cons.prems by auto
    with Cons False show ?thesis by (simp add: add_mset_commute)
  qed
qed simp

section \<open>Every ready descriptor is served\<close>

text \<open>The reference: serve the descriptors of a list one after the other.\<close>

fun serve_each ::
  "'a sockets \<Rightarrow> 'a rpc_server_data_t \<Rightarrow> int list \<Rightarrow> 'a server_thread \<Rightarrow> 'a server_thread cres" where
  "serve_each O' D [] T = Inr T"
| "serve_each O' D (i # is) T = ebind (serve_fd O' D i T) (serve_each O' D is)"

lemma sorted_list_of_set_first:
  fixes W :: "int set"
  assumes "finite W" and "i \<in> W"
  shows "sorted_list_of_set {x \<in> W. i \<le> x} = i # sorted_list_of_set {x \<in> W. i + 1 \<le> x}"
proof -
  have "{x \<in> W. i \<le> x} = insert i {x \<in> W. i + 1 \<le> x}" using assms(2) by auto
  moreover have "Min (insert i {x \<in> W. i + 1 \<le> x}) = i" using assms(1) by (intro Min_eqI) auto
  moreover have "insert i {x \<in> W. i + 1 \<le> x} - {i} = {x \<in> W. i + 1 \<le> x}" by auto
  ultimately show ?thesis using sorted_list_of_set_nonempty [of "insert i {x \<in> W. i + 1 \<le> x}"] assms(1) by simp
qed

lemma master_set_finite: "thread_inv owned T \<Longrightarrow> finite (master_set T)"
  by (simp add: thread_inv_def)

section \<open>What the owner of the thread may rely on\<close>

text \<open>
  The contract between the thread and its owner. \<open>I C a\<close> is what the owner maintains while
  the descriptors \<open>C\<close> are connected: the callbacks must keep it when they return, the
  connection callback for one more descriptor and the disconnection callback for one less.
  Then it holds throughout the life of the thread, provided that the system calls (and the
  threads that run meanwhile) keep it.
\<close>

definition os_keeps :: "'a sockets \<Rightarrow> (int set \<Rightarrow> 'a \<Rightarrow> bool) \<Rightarrow> bool" where
  "os_keeps O' I \<longleftrightarrow>
     (\<forall>C a sd fd a'. so_accept O' a sd = (fd, a') \<longrightarrow> I C a \<longrightarrow> I C a')
   \<and> (\<forall>C a n S rc W a'. so_select O' a n S = (rc, W, a') \<longrightarrow> I C a \<longrightarrow> I C a')
   \<and> (\<forall>C a fd n rc d a'. so_recv O' a fd n = (rc, d, a') \<longrightarrow> I C a \<longrightarrow> I C a')
   \<and> (\<forall>C a fd. I C a \<longrightarrow> I C (so_close O' a fd))"

lemma os_keepsD:
  assumes "os_keeps O' I"
  shows "so_accept O' a sd = (fd, a') \<Longrightarrow> I C a \<Longrightarrow> I C a'"
    and "so_select O' a n S = (rc, W, a') \<Longrightarrow> I C a \<Longrightarrow> I C a'"
    and "so_recv O' a fd m = (rc, d, a') \<Longrightarrow> I C a \<Longrightarrow> I C a'"
    and "I C a \<Longrightarrow> I C (so_close O' a fd)"
proof -
  note t = assms [unfolded os_keeps_def]
  note t2 = t [THEN conjunct2] note t3 = t2 [THEN conjunct2]
  show "so_accept O' a sd = (fd, a') \<Longrightarrow> I C a \<Longrightarrow> I C a'" by (rule t [THEN conjunct1, rule_format])
  show "so_select O' a n S = (rc, W, a') \<Longrightarrow> I C a \<Longrightarrow> I C a'" by (rule t2 [THEN conjunct1, rule_format])
  show "so_recv O' a fd m = (rc, d, a') \<Longrightarrow> I C a \<Longrightarrow> I C a'" by (rule t3 [THEN conjunct1, rule_format])
  show "I C a \<Longrightarrow> I C (so_close O' a fd)" by (rule t3 [THEN conjunct2, rule_format])
qed

text \<open>Whatever the turn keeps (\<open>K\<close>), the loop serves each ready descriptor if serving one keeps it.\<close>

lemma serve_ready_serves_each:
  assumes "\<And>T i T'. K T \<Longrightarrow> i \<in> master_set T \<Longrightarrow> serve_fd O' D i T = Inr T' \<Longrightarrow>
      K T' \<and> master_set T - {i} \<subseteq> master_set T'"
    and "\<And>T fd. K T \<Longrightarrow> fd \<in> master_set T \<Longrightarrow> fd \<le> max_sd T" and "finite W"
  shows "K T \<Longrightarrow> {x \<in> W. i \<le> x} \<subseteq> master_set T \<Longrightarrow> r = int (card {x \<in> W. i \<le> x}) \<Longrightarrow>
    serve_ready O' D W i r T = serve_each O' D (sorted_list_of_set {x \<in> W. i \<le> x}) T"
  using assms
proof (induction O' D W i r T rule: serve_ready.induct)
  case hyp: (1 O' D W i r T)
  let ?W = "{x \<in> W. i \<le> x}" and ?W' = "{x \<in> W. i + 1 \<le> x}"
  consider "\<not> (i \<le> max_sd T \<and> r > 0)" | "i \<le> max_sd T" "r > 0" "i \<in> W" | "i \<le> max_sd T" "r > 0" "i \<notin> W" by blast
  then show ?case
  proof cases
    case 1
    have "?W = {}"
    proof (rule ccontr)
      assume "?W \<noteq> {}"
      then obtain x where x: "x \<in> ?W" by blast
      then have "i \<le> max_sd T" using hyp.prems(5) [OF hyp.prems(1), of x] hyp.prems(2) by force
      moreover have "card ?W > 0" using x hyp.prems(6) by (auto simp: card_gt_0_iff)
      ultimately show False using 1 hyp.prems(3) by simp
    qed
    then have "sorted_list_of_set ?W = []" by (simp only: sorted_list_of_set_empty)
    moreover have "serve_ready O' D W i r T = Inr T" using 1 by (auto simp: serve_ready.simps [of O' D W i r T])
    ultimately show ?thesis by simp
  next
    case 2
    have first: "sorted_list_of_set ?W = i # sorted_list_of_set ?W'"
      by (rule sorted_list_of_set_first [OF hyp.prems(6) 2(3)])
    have set_eq: "?W = insert i ?W'" using 2(3) by auto
    have "card ?W = Suc (card ?W')" unfolding set_eq using hyp.prems(6) by (subst card_insert_disjoint) auto
    then have r: "r - 1 = int (card ?W')" using hyp.prems(3) by simp
    have i: "i \<in> master_set T" using hyp.prems(2) 2(3) by auto
    have "serve_ready O' D W (i + 1) (r - 1) T' = serve_each O' D (sorted_list_of_set ?W') T'"
      if run: "serve_fd O' D i T = Inr T'" for T'
    proof (rule hyp.IH(1) [OF conjI [OF 2(1,2)] 2(3) run _ _ r hyp.prems(4-6)])
      note step = hyp.prems(4) [OF hyp.prems(1) i run]
      show "K T'" using step by blast
      have "?W' \<subseteq> master_set T - {i}" using hyp.prems(2) by auto
      with step show "?W' \<subseteq> master_set T'" by blast
    qed
    with 2 first show ?thesis by (cases "serve_fd O' D i T") (simp_all add: serve_ready.simps [of O' D W i r T])
  next
    case 3
    have "?W = ?W'" using 3(3) by (auto simp: order_le_less)
    then have "serve_ready O' D W (i + 1) r T = serve_each O' D (sorted_list_of_set ?W') T"
      using hyp.prems(2,3) by (intro hyp.IH(2) [OF conjI [OF 3(1,2)] 3(3) hyp.prems(1) _ _ hyp.prems(4-6)]) simp_all
    with 3 \<open>?W = ?W'\<close> show ?thesis by (simp add: serve_ready.simps [of O' D W i r T])
  qed
qed

text \<open>The thread and its owner are both in order.\<close>

definition thread_ok :: "('a \<Rightarrow> int set) \<Rightarrow> (int set \<Rightarrow> 'a \<Rightarrow> bool) \<Rightarrow> 'a server_thread \<Rightarrow> bool" where
  "thread_ok owned I T \<longleftrightarrow> thread_inv owned T \<and> I (clients T) (th_rest T)"

text \<open>The states the thread passes through at the ends of its turns.\<close>

inductive thread_run :: "'a sockets \<Rightarrow> 'a rpc_server_data_t \<Rightarrow> 'a server_thread \<Rightarrow> 'a server_thread \<Rightarrow> bool"
  for O' D where
  refl: "thread_run O' D T T"
| turn: "thread_run O' D T T1 \<Longrightarrow> server_turn O' D T1 = Inr (go_on, T2) \<Longrightarrow> thread_run O' D T T2"

lemma thread_run_first:
  assumes "thread_run O' D T1 T2" and "server_turn O' D T = Inr (go_on, T1)"
  shows "thread_run O' D T T2"
  using assms
proof induction
  case refl
  then show ?case by (rule thread_run.turn [OF thread_run.refl])
next
  case turn
  then show ?case by (blast intro: thread_run.turn)
qed

lemma server_loop_run: "server_loop turns O' D T = Inr T' \<Longrightarrow> thread_run O' D T T'"
proof (induction turns arbitrary: T)
  case (Suc turns)
  from Suc.prems obtain go_on T1 where turn: "server_turn O' D T = Inr (go_on, T1)"
    and rest: "(if go_on \<and> get_running D (th_rest T1) then server_loop turns O' D T1 else Inr T1) = Inr T'"
    by (auto elim!: ebind_pairE)
  have "thread_run O' D T1 T'"
    using rest Suc.IH [of T1] thread_run.refl [of O' D T1] by (auto split: if_splits)
  then show ?case using turn by (rule thread_run_first)
qed simp

locale socket_application =
  fixes D :: "'a rpc_server_data_t" and owned :: "'a \<Rightarrow> int set" and I :: "int set \<Rightarrow> 'a \<Rightarrow> bool"
  assumes connect_keeps: "I C a \<Longrightarrow> fd \<notin> C \<Longrightarrow> call_connect D a fd = Inr a' \<Longrightarrow>
      I (insert fd C) a' \<and> owned a' = owned a"
    and process_keeps: "I C a \<Longrightarrow> fd \<in> C \<Longrightarrow> int (length b) = n \<Longrightarrow> call_process D a fd b n = Inr a' \<Longrightarrow>
      I C a' \<and> owned a' = owned a"
    and disconnect_keeps: "I C a \<Longrightarrow> fd \<in> C \<Longrightarrow> call_disconnect D a fd = Inr a' \<Longrightarrow>
      I (C - {fd}) a' \<and> owned a' = owned a"
begin

lemma serve_listener_inv:
  assumes tab: "fd_table O' owned" and os: "os_keeps O' I" and ok: "thread_ok owned I T"
    and run: "serve_listener O' D T = Inr T'"
  shows "thread_ok owned I T' \<and> listen_sd T' = listen_sd T \<and> master_set T \<subseteq> master_set T'"
proof -
  from ok have inv: "thread_inv owned T" and app: "I (clients T) (th_rest T)" by (simp_all add: thread_ok_def)
  obtain new a where acc: "so_accept O' (th_rest T) (listen_sd T) = (new, a)"
    by (cases "so_accept O' (th_rest T) (listen_sd T)")
  note app' = os_keepsD(1) [OF os acc app]
  show ?thesis
  proof (cases "new < 0")
    case True
    then have "T' = T\<lparr>th_rest := a\<rparr>" using run acc by (simp add: serve_listener_def)
    then show ?thesis using inv app' fd_tableD(1) [OF tab acc True] by (simp add: thread_ok_def thread_inv_world)
  next
    case False
    note fresh = fd_tableD(2) [OF tab acc False]
    from False acc run obtain a' S where cb: "call_connect D a new = Inr a'"
      and S: "FD_SET new (master_set T) = Inr S"
      and T': "T' = T\<lparr>th_rest := a', th_session := th_session T @ [Connect new],
                 g_client_list := g_client_list T @ [\<lparr>cl_fd = new\<rparr>],
                 master_set := S, max_sd := (if new > max_sd T then new else max_sd T)\<rparr>"
      by (auto simp: serve_listener_def elim!: ebindE)
    have S: "S = insert new (master_set T)" using S by (simp add: FD_SET_def split: if_splits)
    note inv = thread_invD [OF inv]
    have new: "new \<notin> master_set T" using inv(4) fresh by blast
    then have new': "new \<notin> clients T" using inv(3) by blast
    note kept = connect_keeps [OF app' new' cb]
    have own: "owned a' = insert new (owned (th_rest T))" using kept fresh by simp
    have "thread_inv owned T'"
    proof (rule thread_invI)
      show "0 \<le> fd \<and> fd \<le> max_sd T'" if "fd \<in> master_set T'" for fd
        using inv(6) [of fd] that False by (auto simp: T' S)
    qed (use inv new own in \<open>auto simp: T' S legal_append\<close>)
    then show ?thesis using kept by (auto simp: thread_ok_def T' S)
  qed
qed

lemma serve_client_inv:
  assumes tab: "fd_table O' owned" and io: "io_documented O'" and os: "os_keeps O' I"
    and ok: "thread_ok owned I T" and i: "i \<in> clients T" and run: "serve_client O' D i T = Inr T'"
  shows "thread_ok owned I T' \<and> listen_sd T' = listen_sd T \<and> master_set T - {i} \<subseteq> master_set T'"
proof -
  from ok have inv: "thread_inv owned T" and app: "I (clients T) (th_rest T)" by (simp_all add: thread_ok_def)
  obtain rc b a where rcv: "so_recv O' (th_rest T) i MAX_BUFFER_SIZE = (rc, b, a)"
    by (metis prod_cases3)
  note own = fd_tableD(4) [OF tab rcv] and app' = os_keepsD(3) [OF os rcv app]
  consider "rc < 0" | "rc = 0" | "rc > 0" by linarith
  then show ?thesis
  proof cases
    case 1
    then have "T' = T\<lparr>th_rest := a\<rparr>" using run rcv by (simp add: serve_client_def)
    then show ?thesis using inv own app' by (auto simp: thread_ok_def thread_inv_world)
  next
    case 3
    with rcv run obtain a' where cb: "call_process D a i b rc = Inr a'"
      and T': "T' = T\<lparr>th_rest := a', th_session := th_session T @ [Data i b]\<rparr>"
      by (auto simp: serve_client_def elim!: ebindE)
    have len: "int (length b) = rc" using recvD(1) [OF io rcv] 3 by simp
    then have b: "b \<noteq> []" using 3 by auto
    note kept = process_keeps [OF app' i len cb]
    have "thread_inv owned T'" using inv i own kept b by (auto simp: thread_inv_def T' legal_append)
    then show ?thesis using kept by (auto simp: thread_ok_def T')
  next
    case 2
    let ?S = "master_set T - {i}"
    from 2 rcv run obtain a' m where cb: "call_disconnect D a i = Inr a'"
      and m: "(if i = max_sd T then lower_max ?S (max_sd T) else Inr (max_sd T)) = Inr m"
      and T': "T' = T\<lparr>th_session := th_session T @ [Disconnect i], th_rest := so_close O' a' i,
                 th_closed := th_closed T @ [i], master_set := ?S, max_sd := m,
                 g_client_list := filter (\<lambda>conn. cl_fd conn \<noteq> i) (g_client_list T)\<rparr>"
      by (auto simp: serve_client_def close_fd_def Let_def elim!: ebindE intro!: that)
    note I = thread_invD [OF inv]
    have listen: "listen_sd T \<in> ?S" "0 \<le> listen_sd T" "listen_sd T \<le> max_sd T"
      using I(2,3) I(6) [of "listen_sd T"] i by auto
    have max: "m \<in> ?S \<and> (\<forall>y \<in> ?S. y \<le> m)"
    proof (cases "i = max_sd T")
      case True
      with lower_max_Max [OF listen] m I(6) show ?thesis by auto
    next
      case False
      with m I(5,6) show ?thesis by auto
    qed
    have cl: "cl_fd ` {x \<in> set (g_client_list T). cl_fd x \<noteq> i} = clients T - {i}" by auto
    note kept = disconnect_keeps [OF app' i cb]
    have own': "owned (so_close O' a' i) = owned (th_rest T) - {i}"
      using kept own fd_tableD(5) [OF tab] by simp
    have "thread_inv owned T'"
    proof (rule thread_invI)
      show "mset (th_closed T') + mset (map cl_fd (g_client_list T')) = mset (accepted (th_session T'))"
        using filter_fd_removes [OF I(1) i] I(8) by (simp add: T') (metis union_mset_add_mset_right)
      show "distinct (map cl_fd (g_client_list T'))" using I(1) by (simp add: T' distinct_map_filter)
      show "legal {} (th_session T') = Some (clients T')" using I(7) i by (simp add: T' legal_append cl)
      show "master_set T' \<subseteq> owned (th_rest T')" using I(4) by (auto simp: T' own')
      show "0 \<le> fd \<and> fd \<le> max_sd T'" if "fd \<in> master_set T'" for fd
        using I(6) [of fd] that max by (auto simp: T')
      show "master_set T' = insert (listen_sd T') (clients T')" using I(2,3) i by (simp add: T' cl) blast
      show "listen_sd T' \<notin> clients T'" using I(2) by (simp add: T' cl)
      show "max_sd T' \<in> master_set T'" using max by (simp add: T')
    qed
    then show ?thesis using os_keepsD(4) [OF os conjunct1 [OF kept]] by (simp add: thread_ok_def T' cl)
  qed
qed

lemma serve_fd_keeps:
  assumes "fd_table O' owned" and "io_documented O'" and "os_keeps O' I" and "thread_ok owned I T"
    and "i \<in> master_set T" and "serve_fd O' D i T = Inr T'"
  shows "thread_ok owned I T' \<and> listen_sd T' = listen_sd T \<and> master_set T - {i} \<subseteq> master_set T'"
proof (cases "i = listen_sd T")
  case True
  then have "serve_listener O' D T = Inr T'" using assms(6) by (simp add: serve_fd_def)
  from serve_listener_inv [OF assms(1,3,4) this] show ?thesis by blast
next
  case False
  have "thread_inv owned T" using assms(4) by (simp add: thread_ok_def)
  then have "i \<in> clients T" using thread_invD(3) assms(5) False by blast
  moreover have "serve_client O' D i T = Inr T'" using assms(6) False by (simp add: serve_fd_def)
  ultimately show ?thesis by (rule serve_client_inv [OF assms(1-4)])
qed

lemma server_turn_serves:
  assumes tab: "fd_table O' owned" and io: "io_documented O'" and os: "os_keeps O' I" and ok: "thread_ok owned I T"
    and sel: "so_select O' (th_rest T) (max_sd T + 1) (master_set T) = (rc, W, a)" and "0 \<le> rc"
  shows "finite W \<and> W \<subseteq> master_set T \<and> thread_ok owned I (T\<lparr>g_rpc_server_running_status := True, th_rest := a\<rparr>)
    \<and> server_turn O' D T = ebind (serve_each O' D (sorted_list_of_set W)
        (T\<lparr>g_rpc_server_running_status := True, th_rest := a\<rparr>)) (\<lambda>T. Inr (True, T))"
proof -
  let ?T = "T\<lparr>g_rpc_server_running_status := True, th_rest := a\<rparr>"
  from ok have inv: "thread_inv owned T" and app: "I (clients T) (th_rest T)" by (simp_all add: thread_ok_def)
  have ok': "thread_ok owned I ?T"
    using inv thread_inv_rest [OF fd_tableD(3) [OF tab sel]] os_keepsD(2) [OF os sel app] by (simp add: thread_ok_def)
  note W = selectD [OF io sel assms(6)]
  have fin: "finite W" using W(1) master_set_finite [OF inv] finite_subset by blast
  have all: "{x \<in> W. 0 \<le> x} = W" using W(1) thread_invD(6) [OF inv] by auto
  have "serve_ready O' D W 0 rc ?T = serve_each O' D (sorted_list_of_set {x \<in> W. 0 \<le> x}) ?T"
  proof (rule serve_ready_serves_each [of "thread_ok owned I"])
    show "thread_ok owned I T' \<and> master_set T - {i} \<subseteq> master_set T'"
      if "thread_ok owned I T" "i \<in> master_set T" "serve_fd O' D i T = Inr T'" for T i T'
      using serve_fd_keeps [OF tab io os that] by blast
    show "fd \<le> max_sd T" if "thread_ok owned I T" "fd \<in> master_set T" for T fd
      using that thread_invD(6) by (auto simp: thread_ok_def)
  qed (use fin ok' W all in simp_all)
  with sel assms(6) all fin W(1) ok' show ?thesis by (simp add: server_turn_def)
qed

lemma serve_each_keeps:
  assumes "fd_table O' owned" and "io_documented O'" and "os_keeps O' I"
  shows "thread_ok owned I T \<Longrightarrow> set is \<subseteq> master_set T \<Longrightarrow> distinct is \<Longrightarrow>
    serve_each O' D is T = Inr T' \<Longrightarrow> thread_ok owned I T' \<and> listen_sd T' = listen_sd T"
proof (induction "is" arbitrary: T)
  case (Cons i "is")
  from Cons.prems(4) obtain T1 where run: "serve_fd O' D i T = Inr T1" "serve_each O' D is T1 = Inr T'"
    by (auto elim!: ebindE)
  have i: "i \<in> master_set T" using Cons.prems(2) by simp
  note step = serve_fd_keeps [OF assms Cons.prems(1) i run(1)]
  have "set is \<subseteq> master_set T1" using step Cons.prems(2,3) by auto
  then show ?case using Cons.IH [of T1] step Cons.prems(3) run(2) by simp
qed simp

lemma server_turn_keeps:
  assumes "fd_table O' owned" and "io_documented O'" and "os_keeps O' I"
    and "thread_ok owned I T" and "server_turn O' D T = Inr (go_on, T')"
  shows "thread_ok owned I T' \<and> listen_sd T' = listen_sd T"
proof -
  obtain rc W a where sel: "so_select O' (th_rest T) (max_sd T + 1) (master_set T) = (rc, W, a)" by (metis prod_cases3)
  show ?thesis
  proof (cases "rc < 0")
    case True
    then have "T' = T\<lparr>g_rpc_server_running_status := True, th_rest := a\<rparr>"
      using assms(5) sel by (simp add: server_turn_def)
    then show ?thesis using assms(4) thread_inv_rest [OF fd_tableD(3) [OF assms(1) sel]] os_keepsD(2) [OF assms(3) sel]
      by (simp add: thread_ok_def)
  next
    case False
    then have rc: "0 \<le> rc" by simp
    note served = server_turn_serves [OF assms(1-4) sel rc]
    from assms(5) served
    have run: "serve_each O' D (sorted_list_of_set W) (T\<lparr>g_rpc_server_running_status := True, th_rest := a\<rparr>) = Inr T'"
      by (auto elim!: ebindE)
    from serve_each_keeps [OF assms(1-3) _ _ _ run] served show ?thesis by simp
  qed
qed

lemma thread_run_keeps:
  assumes "fd_table O' owned" and "io_documented O'" and "os_keeps O' I"
  shows "thread_run O' D T T' \<Longrightarrow> thread_ok owned I T \<Longrightarrow> thread_ok owned I T' \<and> listen_sd T' = listen_sd T"
proof (induction rule: thread_run.induct)
  case (turn T T1 go_on T2)
  then show ?case using server_turn_keeps [OF assms _ turn(2)] by simp
qed simp

end

section \<open>The end of the thread\<close>

lemma close_fds:
  "fold (close_fd O') is T =
     T\<lparr>th_rest := fold (\<lambda>i a. so_close O' a i) is (th_rest T), th_closed := th_closed T @ is\<rparr>"
  by (induction "is" arbitrary: T) (simp_all add: close_fd_def)

lemma fds_in_order:
  assumes "thread_inv owned T"
  shows "mset (filter (\<lambda>i. i \<in> master_set T) [0..max_sd T]) = add_mset (listen_sd T) (mset (map cl_fd (g_client_list T)))"
proof -
  note I = thread_invD [OF assms]
  have set_eq: "set (filter (\<lambda>i. i \<in> master_set T) [0..max_sd T]) = set (listen_sd T # map cl_fd (g_client_list T))"
    using I(3) I(6) by fastforce
  have "distinct (filter (\<lambda>i. i \<in> master_set T) [0..max_sd T])" by simp
  moreover have "distinct (listen_sd T # map cl_fd (g_client_list T))" using I(1,2) by simp
  ultimately show ?thesis using set_eq set_eq_iff_mset_eq_distinct by (metis mset.simps(2))
qed

lemma close_all_accounts:
  assumes "thread_inv owned T"
  shows "mset (th_closed (close_all O' T)) = add_mset (listen_sd T) (mset (accepted (th_session T)))"
    and "th_session (close_all O' T) = th_session T" and "listen_sd (close_all O' T) = listen_sd T"
proof -
  have "mset (th_closed (close_all O' T))
      = mset (th_closed T) + add_mset (listen_sd T) (mset (map cl_fd (g_client_list T)))"
    unfolding close_all_def close_fds by (simp add: fds_in_order [OF assms, simplified])
  also have "\<dots> = add_mset (listen_sd T) (mset (accepted (th_session T)))"
    using thread_invD(8) [OF assms] by simp
  finally show "mset (th_closed (close_all O' T)) = add_mset (listen_sd T) (mset (accepted (th_session T)))" .
qed (simp_all add: close_all_def close_fds)

text \<open>Any owner whose callbacks leave the thread's descriptors alone may rely on the invariant of
  the thread itself.\<close>

definition callbacks_keep :: "'a rpc_server_data_t \<Rightarrow> ('a \<Rightarrow> int set) \<Rightarrow> bool" where
  "callbacks_keep D owned \<longleftrightarrow>
     (\<forall>a fd a'. call_connect D a fd = Inr a' \<longrightarrow> owned a' = owned a)
   \<and> (\<forall>a fd a'. call_disconnect D a fd = Inr a' \<longrightarrow> owned a' = owned a)
   \<and> (\<forall>a fd b n a'. call_process D a fd b n = Inr a' \<longrightarrow> owned a' = owned a)"

interpretation any_owner: socket_application D owned "\<lambda>_ _. callbacks_keep D owned"
  for D :: "'a rpc_server_data_t" and owned
  by unfold_locales (auto simp: callbacks_keep_def)

lemma os_keeps_const: "os_keeps O' (\<lambda>_ _. b)"
  by (simp add: os_keeps_def)

lemma thread_inv_start:
  assumes "FD_SET sd {} = Inr S" and "sd \<in> owned a"
  shows "thread_inv owned (thread_start sd S a)"
  using assms by (auto simp: thread_inv_def thread_start_def FD_SET_def split: if_splits)

text \<open>The run of the thread behind a result of the handler.\<close>

lemma server_handlerE:
  assumes "rpc_server_handler turns O' (Some D) a = Inr (a', Some T)"
    and "open_listener O' (sd_port D) (set_running D True a) = (Some sd, a1)" and "sd \<in> owned a1"
  obtains T0 T1 where "thread_inv owned T0" "clients T0 = {}" "th_rest T0 = a1" "listen_sd T0 = sd"
    "server_loop turns O' D T0 = Inr T1" "T = (close_all O' T1)\<lparr>g_rpc_server_running_status := False\<rparr>"
    "a' = th_rest T"
proof -
  from assms(1,2) obtain S T1 where S: "FD_SET sd {} = Inr S"
    and loop: "server_loop turns O' D (thread_start sd S a1) = Inr T1"
    and T: "T = (close_all O' T1)\<lparr>g_rpc_server_running_status := False\<rparr>" "a' = th_rest T"
    by (auto simp: rpc_server_handler_def Let_def elim!: ebindE)
  show thesis
    by (rule that [OF thread_inv_start [OF S] _ _ _ loop T]) (simp_all add: assms(3) thread_start_def)
qed

lemma server_thread_result:
  assumes "fd_table O' owned" and "io_documented O'" and "callbacks_keep D owned"
    and "open_listener O' (sd_port D) (set_running D True a) = (Some sd, a1)" and "sd \<in> owned a1"
    and "rpc_server_handler turns O' (Some D) a = Inr (a', Some T)"
  shows "legal {} (th_session T) \<noteq> None
    \<and> mset (th_closed T) = add_mset sd (mset (accepted (th_session T)))
    \<and> \<not> json_rpc_server_is_running T"
proof -
  obtain T0 T1 where run: "thread_inv owned T0" "listen_sd T0 = sd" "server_loop turns O' D T0 = Inr T1"
    "T = (close_all O' T1)\<lparr>g_rpc_server_running_status := False\<rparr>"
    by (rule server_handlerE [of turns O' D a a' T sd a1 owned, OF assms(6,4,5)])
  have T1: "thread_inv owned T1" "listen_sd T1 = sd"
    using any_owner.thread_run_keeps [OF assms(1,2) os_keeps_const server_loop_run [OF run(3)]] run(1,2) assms(3)
    by (simp_all add: thread_ok_def)
  from close_all_accounts [OF T1(1), of O'] T1 thread_invD(7) [OF T1(1)] run(4) show ?thesis
    by (simp add: json_rpc_server_is_running_def)
qed

section \<open>Properties\<close>

text \<open>
  C9: every ready descriptor is served. In a consistent state of the thread, a turn in which
  \<^verbatim>\<open>select\<close> succeeds serves exactly the descriptors it reported ready, each once and in
  ascending order, although clients come and go and \<^verbatim>\<open>max_sd\<close> moves while the loop runs.
\<close>

theorem ready_descriptors_all_served:
  assumes "fd_table O' owned" and "io_documented O'" and "callbacks_keep D owned" and "thread_inv owned T"
    and "so_select O' (th_rest T) (max_sd T + 1) (master_set T) = (rc, W, a)" and "0 \<le> rc"
  shows "finite W \<and> server_turn O' D T = ebind (serve_each O' D (sorted_list_of_set W)
    (T\<lparr>g_rpc_server_running_status := True, th_rest := a\<rparr>)) (\<lambda>T. Inr (True, T))"
  using any_owner.server_turn_serves [OF assms(1,2) os_keeps_const _ assms(5,6)] assms(3,4)
  by (simp add: thread_ok_def)

text \<open>
  C17: the sessions of the clients are reported in order and no descriptor leaks. When the thread
  has ended, every client was reported connected before its data and its disconnection and
  never twice at a time, each descriptor that was accepted and the listening socket have been
  closed exactly once, and the thread no longer counts as running.
\<close>

theorem server_thread_accounts_for_clients:
  assumes "fd_table O' owned" and "io_documented O'" and "callbacks_keep D owned"
    and "open_listener O' (sd_port D) (set_running D True a) = (Some sd, a1)" and "sd \<in> owned a1"
    and "rpc_server_handler turns O' (Some D) a = Inr (a', Some T)"
  shows "legal {} (th_session T) \<noteq> None
    \<and> mset (th_closed T) = add_mset sd (mset (accepted (th_session T)))
    \<and> \<not> json_rpc_server_is_running T"
  using assms by (rule server_thread_result)

text \<open>A system in which one client connects, sends two bytes and disconnects, after which
  \<^verbatim>\<open>select\<close> fails. The state is the number of waits and the descriptors in use.\<close>

definition example_sockets :: "(nat \<times> int set) sockets" where
  "example_sockets = \<lparr>
     so_socket = (\<lambda>(k, f). (3, (k, insert 3 f))),
     so_setsockopt = (\<lambda>a sd. (0, a)), so_ioctl = (\<lambda>a sd. (0, a)), so_bind = (\<lambda>a sd p. (0, a)),
     so_listen = (\<lambda>a sd n. (0, a)),
     so_select = (\<lambda>(k, f) n S. if k \<ge> 3 then (-1, {}, (k, f))
        else (let W = (if k = 0 then {3} else {5}) \<inter> S in (int (card W), W, (Suc k, f)))),
     so_accept = (\<lambda>(k, f) sd. if 5 \<in> f then (-1, (k, f)) else (5, (k, insert 5 f))),
     so_connect = (\<lambda>a sd h p. (-1, E_OTHER, a)),
     so_recv = (\<lambda>(k, f) fd n. if k = 2 then (int (length (take n ''{}'')), take n ''{}'', (k, f)) else (0, [], (k, f))),
     so_close = (\<lambda>(k, f) fd. (k, f - {fd}))\<rparr>"

definition example_owner :: "(nat \<times> int set) rpc_server_data_t" where
  "example_owner = \<lparr>sd_port = 40100, func_disconnect = Some (\<lambda>a fd. Inr a), func_connect = Some (\<lambda>a fd. Inr a),
     func_process = Some (\<lambda>a fd b n. Inr a), get_running = (\<lambda>_. True), set_running = (\<lambda>_ a. a)\<rparr>"

lemma example_sockets_ok:
  "fd_table example_sockets snd" "io_documented example_sockets" "callbacks_keep example_owner snd"
  by (auto simp: fd_table_def callbacks_keep_def io_documented_def example_sockets_def example_owner_def call_connect_def
      call_disconnect_def call_process_def FD_SETSIZE_def Let_def split: if_splits)

theorem ready_descriptors_all_served_witness:
  "\<exists>T'. server_turn example_sockets example_owner
     \<lparr>listen_sd = 3, max_sd = 3, master_set = {3}, g_client_list = [], g_rpc_server_running_status = False,
      th_rest = (0, {3}), th_session = [], th_closed = []\<rparr> = Inr (True, T') \<and> th_session T' = [Connect 5]"
proof -
  let ?T = "\<lparr>listen_sd = 3, max_sd = 3, master_set = {3}, g_client_list = [], g_rpc_server_running_status = False,
      th_rest = (0 :: nat, {3}), th_session = [], th_closed = []\<rparr>"
  have inv: "thread_inv snd ?T" by (simp add: thread_inv_def)
  have sel: "so_select example_sockets (th_rest ?T) (max_sd ?T + 1) (master_set ?T) = (1, {3}, (1, {3}))"
    by (simp add: example_sockets_def Let_def)
  from ready_descriptors_all_served [OF example_sockets_ok inv sel] show ?thesis
    by (simp add: serve_fd_def serve_listener_def example_sockets_def example_owner_def call_connect_def
        FD_SET_def FD_SETSIZE_def)
qed

theorem server_thread_accounts_for_clients_witness:
  "\<exists>a' T. rpc_server_handler (Suc (Suc (Suc (Suc 0)))) example_sockets (Some example_owner) (0, {}) = Inr (a', Some T)
     \<and> legal {} (th_session T) \<noteq> None \<and> mset (th_closed T) = {#3, 5#}
     \<and> th_session T = [Connect 5, Data 5 ''{}'', Disconnect 5] \<and> \<not> json_rpc_server_is_running T"
proof -
  note eval = rpc_server_handler_def thread_start_def open_listener_def server_turn_def serve_fd_def serve_listener_def serve_client_def
    close_fd_def close_all_def call_connect_def call_disconnect_def call_process_def example_sockets_def example_owner_def
    FD_SET_def FD_SETSIZE_def Let_def serve_ready.simps lower_max.simps close_fds
  have "\<exists>a' T. rpc_server_handler (Suc (Suc (Suc (Suc 0)))) example_sockets (Some example_owner) (0, {}) = Inr (a', Some T)
      \<and> th_session T = [Connect 5, Data 5 ''{}'', Disconnect 5]" by (simp add: eval)
  then obtain a' T where run: "rpc_server_handler (Suc (Suc (Suc (Suc 0)))) example_sockets (Some example_owner) (0, {}) = Inr (a', Some T)"
    and s: "th_session T = [Connect 5, Data 5 ''{}'', Disconnect 5]" by blast
  have lis: "open_listener example_sockets (sd_port example_owner) (set_running example_owner True (0, {})) = (Some 3, (0, {3}))"
    by (simp add: open_listener_def example_sockets_def example_owner_def)
  have "3 \<in> snd (0 :: nat, {3 :: int})" by simp
  from server_thread_accounts_for_clients [OF example_sockets_ok lis this run] run s show ?thesis by auto
qed

end
