(* ===== verification/Server_Thread.thy ===== *)
theory Server_Thread
  imports Server_Requests Tcp_Server
begin

text \<open>
  The HAL server on top of its socket thread: the callbacks \<^verbatim>\<open>json_hal_server_init\<close>
  installs in \<^verbatim>\<open>g_rpc_server\<close>, and \<^verbatim>\<open>json_hal_server_run\<close>. The state outside
  the thread is the state of the server library, whose \<open>world\<close> is the operating system.
\<close>

definition g_rpc_server :: "('j, 't, 'w, 's, 'v) platform \<Rightarrow> int \<Rightarrow> ('j, 'w, 'v) server rpc_server_data_t" where
  "g_rpc_server P port =
     \<lparr>sd_port = port,
      func_disconnect = Some (\<lambda>s fd. ebind (client_disconnected_cb s fd) (\<lambda>(_, s). Inr s)),
      func_connect = Some (\<lambda>s fd. ebind (client_connected_cb s fd) (\<lambda>(_, s). Inr s)),
      func_process = Some (\<lambda>s fd buffer len. ebind (message_process_cb P s fd (Some buffer) len) (\<lambda>(_, s). Inr s)),
      get_running = rpc_running, set_running = (\<lambda>b s. s\<lparr>rpc_running := b\<rparr>)\<rparr>"

definition json_hal_server_run ::
  "int \<Rightarrow> ('j, 't, 'w, 's, 'v) platform \<Rightarrow> ('j, 'w, 'v) server \<Rightarrow> int \<times> ('j, 'w, 'v) server rpc_server_data_t option" where
  "json_hal_server_run created P s = json_rpc_server_run created (Some (g_rpc_server P (rpc_port s)))"

text \<open>What the server maintains while the descriptors \<open>C\<close> are connected: its own invariant, and
  subscriptions of connected clients only. \<open>own\<close> are the descriptors of the thread in a state of
  the operating system; sending and the vendor's callbacks must leave them alone.\<close>

definition send_keeps_fds :: "'w os \<Rightarrow> ('w \<Rightarrow> 'x) \<Rightarrow> bool" where
  "send_keeps_fds os own \<longleftrightarrow> (\<forall>w fd d. own (snd (os_send os w fd d)) = own w)"

definition vendor_keeps_fds :: "('j, 'w, 'v) server \<Rightarrow> ('w \<Rightarrow> int set) \<Rightarrow> bool" where
  "vendor_keeps_fds s own \<longleftrightarrow> (\<forall>r \<in> set (g_hal_functions_list s). \<forall>cb. acl_cb r = Some cb \<longrightarrow>
     (\<forall>w j n reply rc reply' w'. cb w j n reply = Inr (rc, reply', w') \<longrightarrow> own w' = own w))"

lemma vendor_keeps_fds_cong:
  "g_hal_functions_list s' = g_hal_functions_list s \<Longrightarrow> vendor_keeps_fds s' own \<longleftrightarrow> vendor_keeps_fds s own"
  by (simp only: vendor_keeps_fds_def)

lemma vendor_keeps_fds_update [simp]:
  "vendor_keeps_fds (s\<lparr>world := w\<rparr>) own \<longleftrightarrow> vendor_keeps_fds s own"
  "vendor_keeps_fds (s\<lparr>world := w, sent := ms\<rparr>) own \<longleftrightarrow> vendor_keeps_fds s own"
  "vendor_keeps_fds (s\<lparr>g_event_subscriptions_list := es\<rparr>) own \<longleftrightarrow> vendor_keeps_fds s own"
  by (rule vendor_keeps_fds_cong, simp)+

lemma vendor_keeps_fdsD:
  "vendor_keeps_fds s own \<Longrightarrow> r \<in> set (g_hal_functions_list s) \<Longrightarrow> acl_cb r = Some cb \<Longrightarrow>
   cb w j n reply = Inr (rc, reply', w') \<Longrightarrow> own w' = own w"
  unfolding vendor_keeps_fds_def by blast

lemma vendor_keeps_fds_none: "g_hal_functions_list s = [] \<Longrightarrow> vendor_keeps_fds s own"
  by (simp add: vendor_keeps_fds_def)

definition subscribers_connected ::
  "('j, 't, 'w, 's, 'v) platform \<Rightarrow> ('w \<Rightarrow> int set) \<Rightarrow> int set \<Rightarrow> ('j, 'w, 'v) server \<Rightarrow> bool" where
  "subscribers_connected P own C s \<longleftrightarrow> send_keeps_fds (net P) own \<and> vendor_keeps_fds s own
     \<and> server_inv s \<and> es_fd ` set (g_event_subscriptions_list s) \<subseteq> C"

lemma send_loop_keeps_fds:
  "send_keeps_fds os own \<Longrightarrow> send_loop fuel os w fd b got left = Inr (rc, n, w') \<Longrightarrow> own w' = own w"
proof (induction fuel arbitrary: w got left)
  case (Suc fuel)
  show ?case
  proof (cases "got < left")
    case True
    let ?d = "take (nat left) (drop (nat got) b)"
    obtain ret w1 where snd: "os_send os w fd ?d = (ret, w1)" by (cases "os_send os w fd ?d")
    have "own w1 = own w" using Suc.prems(1) snd unfolding send_keeps_fds_def by (metis snd_conv)
    with Suc.IH [OF Suc.prems(1), of w1 "got + ret" "left - ret"] Suc.prems(2) True snd
    show ?thesis by (auto split: if_splits)
  qed (use Suc.prems in simp)
qed simp

lemma socket_send_keeps_fds:
  assumes "send_keeps_fds (net P) own" and "socket_send P s fd m = Inr (rc, s')"
  shows "own (world s') = own (world s)"
  using assms(2) send_loop_keeps_fds [OF assms(1)]
  by (auto simp: socket_send_def json_rpc_server_send_data_def result_simps simp del: send_loop.simps split: option.splits)

text \<open>A message keeps it, if its sender is connected, and does not touch the thread's descriptors.\<close>

interpretation connected: request_invariant P fd
  "\<lambda>s. fd \<in> C \<and> subscribers_connected P own C s \<and> own (world s) = F" for P :: "('j, 't, 'w, 's, 'v) platform" and fd own C F
proof unfold_locales
  fix s :: "('j, 'w, 'v) server" and fd' m rc s'
  assume Q: "fd \<in> C \<and> subscribers_connected P own C s \<and> own (world s) = F" and snd: "socket_send P s fd' m = Inr (rc, s')"
  obtain w ms where s': "s' = s\<lparr>world := w, sent := sent s @ ms\<rparr>" using send_keeps [OF snd] by blast
  show "fd \<in> C \<and> subscribers_connected P own C s' \<and> own (world s') = F"
    using Q send_inv [OF snd] socket_send_keeps_fds [OF _ snd, of own]
    by (simp add: subscribers_connected_def s')
next
  fix s :: "('j, 'w, 'v) server" and r cb j n reply rc reply' w
  assume Q: "fd \<in> C \<and> subscribers_connected P own C s \<and> own (world s) = F" and r: "r \<in> set (g_hal_functions_list s)"
    and cb: "acl_cb r = Some cb" and run: "cb (world s) j n reply = Inr (rc, reply', w)"
  have "own w = own (world s)"
    using Q by (intro vendor_keeps_fdsD [OF _ r cb run]) (simp add: subscribers_connected_def)
  with Q show "fd \<in> C \<and> subscribers_connected P own C (s\<lparr>world := w\<rparr>) \<and> own (world (s\<lparr>world := w\<rparr>)) = F"
    by (simp add: subscribers_connected_def world_inv)
next
  fix s :: "('j, 'w, 'v) server" and data s'
  assume Q: "fd \<in> C \<and> subscribers_connected P own C s \<and> own (world s) = F" and "es_fd data = fd"
    and add: "add_event_subscription_to_list s data = Inr s'"
  have "g_hal_functions_list s' = g_hal_functions_list s \<and> world s' = world s
      \<and> es_fd ` set (g_event_subscriptions_list s') = insert fd (es_fd ` set (g_event_subscriptions_list s))"
    using add \<open>es_fd data = fd\<close>
    by (auto simp: add_event_subscription_to_list_def lock_subscriptions_def unlock_subscriptions_def result_simps split: if_splits)
  with Q add_subscription_inv [OF _ add] show "fd \<in> C \<and> subscribers_connected P own C s' \<and> own (world s') = F"
    by (simp add: subscribers_connected_def vendor_keeps_fds_cong [of s' s])
next
  fix s :: "('j, 'w, 'v) server" and data es
  assume Q: "fd \<in> C \<and> subscribers_connected P own C s \<and> own (world s) = F"
    and upd: "update_event_status fd data (g_event_subscriptions_list s) = Inr es"
  have "es_fd ` set es = es_fd ` set (g_event_subscriptions_list s)"
    using update_event_status_keeps [OF upd] by (metis list.set_map)
  with Q consistent.status_update [OF _ upd]
  show "fd \<in> C \<and> subscribers_connected P own C (s\<lparr>g_event_subscriptions_list := es\<rparr>)
      \<and> own (world (s\<lparr>g_event_subscriptions_list := es\<rparr>)) = F"
    by (simp add: subscribers_connected_def)
qed

interpretation hal_server: socket_application "g_rpc_server P port" "\<lambda>s. own (world s)" "subscribers_connected P own"
  for P :: "('j, 't, 'w, 's, 'v) platform" and port own
proof unfold_locales
  fix C :: "int set" and s s' :: "('j, 'w, 'v) server" and fd
  assume "subscribers_connected P own C s" "fd \<notin> C" "call_connect (g_rpc_server P port) s fd = Inr s'"
  then show "subscribers_connected P own (insert fd C) s' \<and> own (world s') = own (world s)"
    by (auto simp: call_connect_def g_rpc_server_def client_connected_cb_def subscribers_connected_def)
next
  fix C :: "int set" and s s' :: "('j, 'w, 'v) server" and fd b n
  assume I: "subscribers_connected P own C s" "fd \<in> C" and "call_process (g_rpc_server P port) s fd b n = Inr s'"
  then obtain rc where "message_process_cb P s fd (Some b) n = Inr (rc, s')"
    by (auto simp: call_process_def g_rpc_server_def elim!: ebind_pairE)
  from connected.message_keeps [OF _ this, of C own "own (world s)"] I
  show "subscribers_connected P own C s' \<and> own (world s') = own (world s)" by simp
next
  fix C :: "int set" and s s' :: "('j, 'w, 'v) server" and fd
  assume I: "subscribers_connected P own C s" "fd \<in> C" and "call_disconnect (g_rpc_server P port) s fd = Inr s'"
  then obtain rc where run: "client_disconnected_cb s fd = Inr (rc, s')"
    by (auto simp: call_disconnect_def g_rpc_server_def elim!: ebind_pairE)
  have "s' = s\<lparr>g_event_subscriptions_list := filter (\<lambda>e. es_fd e \<noteq> fd) (g_event_subscriptions_list s)\<rparr>"
    using run client_disconnected_free [of s fd] I(1) by (simp add: subscribers_connected_def server_inv_def)
  with I disconnect_inv [OF _ run] show "subscribers_connected P own (C - {fd}) s' \<and> own (world s') = own (world s)"
    by (auto simp: subscribers_connected_def)
qed

text \<open>
  C3: events go to connected clients only. Take a server without subscriptions whose thread has
  opened its listening socket, and any state the thread reaches from there: every subscription
  belongs to a client that is connected and the server is consistent. A publication of an event
  with a value there sends its messages, one for each subscription that matches, to connected
  descriptors and to nobody else. This holds in both builds; the publication then returns, unless
  it waits for replies, which it does in the blocking build only.
\<close>

theorem events_go_to_connected_clients:
  assumes "fd_table O' (\<lambda>s. own (world s))" and "io_documented O'" and "os_keeps O' (subscribers_connected P own)"
    and "FD_SET sd {} = Inr S" and "sd \<in> own (world s)" and "subscribers_connected P own {} s"
    and "thread_run O' (g_rpc_server P port) (thread_start sd S s) T"
    and "sends_ok P"
    and "g_seqnumber (th_rest T) + int (length (g_event_subscriptions_list (th_rest T))) \<le> INT_MAX"
  shows "es_fd ` set (g_event_subscriptions_list (th_rest T)) \<subseteq> clients T \<and> server_inv (th_rest T)
    \<and> (\<exists>rc blk ms s'. publish_messages P (th_rest T) ev (Some v) = Inr (Some (rc, blk), s')
        \<and> sent s' = sent (th_rest T) @ ms
        \<and> map fst (addressed ms) = map es_fd (filter (\<lambda>e. starts_with (es_event e) ev) (g_event_subscriptions_list (th_rest T)))
        \<and> fst ` set (addressed ms) \<subseteq> clients T
        \<and> (blocking P \<and> blk \<or> json_hal_server_publish_event P (th_rest T) ev (Some v) t0 polls = Inr (rc, s')))"
proof -
  let ?s = "th_rest T" and ?es = "g_event_subscriptions_list (th_rest T)"
  have "thread_ok (\<lambda>s. own (world s)) (subscribers_connected P own) (thread_start sd S s)"
    using thread_inv_start [OF assms(4), of "\<lambda>s. own (world s)" s] assms(5,6)
    by (simp add: thread_ok_def thread_start_def)
  from hal_server.thread_run_keeps [OF assms(1-3,7) this]
  have conn: "subscribers_connected P own (clients T) ?s" by (simp add: thread_ok_def)
  then have inv: "server_inv ?s" and sub: "es_fd ` set ?es \<subseteq> clients T" by (simp_all add: subscribers_connected_def)
  have "length (subscribers ev ?es) \<le> length ?es" by (rule length_filter_le)
  then have "g_seqnumber ?s + int (length (subscribers ev ?es)) \<le> INT_MAX" using assms(9) by linarith
  from publish_messages_deliver [OF assms(8) _ _ this, of v] inv
  obtain ms blk s' where pub: "publish_messages P ?s ev (Some v) =
      Inr (Some (if all_sent ms then RETURN_OK else RETURN_ERR, blk), s')" "sent s' = sent ?s @ ms"
    "addressed ms = event_messages P ?s ev v" by (auto simp: server_inv_def)
  have "map fst (addressed ms) = map es_fd (map snd (enumerate 0 (subscribers ev ?es)))"
    unfolding pub(3) map_map by (rule map_cong) auto
  then have fds: "map fst (addressed ms) = map es_fd (subscribers ev ?es)" by (simp add: map_snd_enumerate del: map_map)
  then have "fst ` set (addressed ms) = es_fd ` set (subscribers ev ?es)" by (metis list.set_map)
  with sub have "fst ` set (addressed ms) \<subseteq> clients T" by auto
  with pub inv sub fds show ?thesis by (auto simp: json_hal_server_publish_event_def)
qed

text \<open>A system whose state lists the descriptors in use: descriptor 5 is accepted, and then has
  something to read until it has subscribed.\<close>

definition example_own :: "string \<Rightarrow> int set" where
  "example_own w = (\<lambda>c. int (of_char c)) ` set w"

definition example_thread_platform :: "(json, unit, string, unit, unit) platform" where
  "example_thread_platform = example_platform\<lparr>net := \<lparr>os_send = (\<lambda>w fd d. (int (length d), w))\<rparr>,
     tok := example_tokener example_subscribe\<rparr>"

definition example_hal_sockets :: "(json, string, unit) server sockets" where
  "example_hal_sockets = \<lparr>so_socket = (\<lambda>s. (-1, s)), so_setsockopt = (\<lambda>s sd. (0, s)), so_ioctl = (\<lambda>s sd. (0, s)),
     so_bind = (\<lambda>s sd p. (0, s)), so_listen = (\<lambda>s sd n. (0, s)),
     so_select = (\<lambda>s n S. if 5 \<in> S then (1, {5}, s) else if 3 \<in> S then (1, {3}, s) else (0, {}, s)),
     so_accept = (\<lambda>s sd. if 5 \<in> example_own (world s) then (-1, s) else (5, s\<lparr>world := CHR 0x05 # world s\<rparr>)),
     so_connect = (\<lambda>s sd h p. (-1, E_OTHER, s)), so_recv = (\<lambda>s fd n. if n = 0 then (0, [], s) else (1, ''x'', s)),
     so_close = (\<lambda>s fd. s\<lparr>world := filter (\<lambda>c. int (of_char c) \<noteq> fd) (world s)\<rparr>)\<rparr>"

lemma example_hal_sockets_ok:
  "fd_table example_hal_sockets (\<lambda>s. example_own (world s))" "io_documented example_hal_sockets"
  "os_keeps example_hal_sockets (subscribers_connected P example_own)"
  by (auto simp: fd_table_def io_documented_def os_keeps_def example_hal_sockets_def example_own_def
      subscribers_connected_def world_inv split: if_splits)

lemma example_thread_like: "like_example example_thread_platform"
  using like_example_refl by (simp add: like_example_def sends_ok_def example_thread_platform_def send_documented_def)

text \<open>The two turns of the thread: descriptor 5 connects, and subscribes.\<close>

lemma example_turns:
  fixes s0 :: "(json, string, unit) server"
  defines "s0 \<equiv> example_subscribe_server\<lparr>world := [CHR 0x03]\<rparr>"
  shows "\<exists>T. thread_run example_hal_sockets (g_rpc_server example_thread_platform 40100) (thread_start 3 {3} s0) T
    \<and> g_client_list T = [\<lparr>cl_fd = 5\<rparr>] \<and> g_seqnumber (th_rest T) = g_seqnumber s0
    \<and> g_event_subscriptions_list (th_rest T) = [\<lparr>es_fd = 5, es_event = ''Dsl.Line'',
        es_event_type = NOTIFICATION_TYPE_ON_CHANGE, es_req_id = '''', es_status = NO_EVENT_MSG\<rparr>]"
proof -
  let ?D = "g_rpc_server example_thread_platform 40100"
  let ?s1 = "example_subscribe_server\<lparr>world := [CHR 0x05, CHR 0x03]\<rparr>"
  let ?T = "\<lparr>listen_sd = 3, max_sd = 5, master_set = {5, 3}, g_client_list = [\<lparr>cl_fd = 5\<rparr>], g_rpc_server_running_status = True,
      th_rest = ?s1, th_session = [Connect 5], th_closed = []\<rparr>"
  have turn1: "server_turn example_hal_sockets ?D (thread_start 3 {3} s0) = Inr (True, ?T)"
    by (simp add: server_turn_def thread_start_def serve_ready.simps serve_fd_def serve_listener_def call_connect_def
        g_rpc_server_def client_connected_cb_def example_hal_sockets_def example_own_def FD_SET_def FD_SETSIZE_def s0_def)
  obtain s2 where m: "message_process_cb example_thread_platform ?s1 5 (Some ''x'') 1 = Inr (RETURN_OK, s2)"
    and s2: "g_event_subscriptions_list s2 = [\<lparr>es_fd = 5, es_event = ''Dsl.Line'',
        es_event_type = NOTIFICATION_TYPE_ON_CHANGE, es_req_id = '''', es_status = NO_EVENT_MSG\<rparr>]"
      "g_seqnumber s2 = g_seqnumber example_subscribe_server"
    using example_subscribe_message [OF example_thread_like, of "[CHR 0x05, CHR 0x03]" 5]
    by (auto simp: example_thread_platform_def)
  have turn2: "server_turn example_hal_sockets ?D ?T = Inr (True, ?T\<lparr>th_rest := s2, th_session := [Connect 5, Data 5 ''x'']\<rparr>)"
    using m by (simp add: server_turn_def serve_ready.simps serve_fd_def serve_client_def call_process_def
        g_rpc_server_def example_hal_sockets_def config_defs)
  from thread_run.turn [OF thread_run.turn [OF thread_run.refl turn1] turn2] s2 show ?thesis
    by (intro exI [of _ "?T\<lparr>th_rest := s2, th_session := [Connect 5, Data 5 ''x'']\<rparr>"]) (simp add: s0_def)
qed

theorem events_go_to_connected_clients_witness:
  "\<exists>T. thread_run example_hal_sockets (g_rpc_server example_thread_platform 40100)
         (thread_start 3 {3} (example_subscribe_server\<lparr>world := [CHR 0x03]\<rparr>)) T
     \<and> clients T = {5}
     \<and> (\<exists>rc ms s'. json_hal_server_publish_event example_thread_platform (th_rest T) ''Dsl.Line'' (Some ''Up'') 0 [] = Inr (rc, s')
        \<and> sent s' = sent (th_rest T) @ ms \<and> map fst (addressed ms) = [5])"
proof -
  let ?P = "example_thread_platform" and ?s = "example_subscribe_server\<lparr>world := [CHR 0x03]\<rparr>"
  obtain T where run: "thread_run example_hal_sockets (g_rpc_server ?P 40100) (thread_start 3 {3} ?s) T"
    and T: "g_client_list T = [\<lparr>cl_fd = 5\<rparr>]" "g_seqnumber (th_rest T) = g_seqnumber ?s"
      "g_event_subscriptions_list (th_rest T) = [\<lparr>es_fd = 5, es_event = ''Dsl.Line'',
        es_event_type = NOTIFICATION_TYPE_ON_CHANGE, es_req_id = '''', es_status = NO_EVENT_MSG\<rparr>]"
    using example_turns by blast
  have start: "FD_SET 3 {} = Inr {3}" "3 \<in> example_own (world ?s)" by (simp_all add: FD_SET_def FD_SETSIZE_def example_own_def)
  have conn: "subscribers_connected ?P example_own {} ?s"
    by (simp add: subscribers_connected_def send_keeps_fds_def vendor_keeps_fds_def example_thread_platform_def
        example_registered_def echo_callback_def world_inv)
      (simp add: server_inv_def initial_server_def registry_ok_def wf_subscriptions_def wf_config_def zero_config_def config_defs
        action_name_ok_def)
  have P: "sends_ok ?P" "\<not> blocking ?P" using example_thread_like by (simp_all add: like_example_def)
  have "g_seqnumber (th_rest T) + int (length (g_event_subscriptions_list (th_rest T))) \<le> INT_MAX"
    using T by (simp add: example_registered_def initial_server_def config_defs)
  from events_go_to_connected_clients [OF example_hal_sockets_ok start conn run P(1) this, of "''Dsl.Line''" "''Up''" 0 "[]"] P(2) run T
  show ?thesis by (intro exI [of _ T]) auto
qed

end
