(* ===== verification/Sample_Server.thy ===== *)
theory Sample_Server
  imports Server_Thread
begin

text \<open>
  \<^verbatim>\<open>samples/json_hal_server_test.c\<close>: the vendor software the repository gives as an
  example. Its callbacks, which the library calls through the registry, its table of
  subscriptions, the thread that publishes link events, and \<^verbatim>\<open>main\<close>. The outside world
  of the server library is here a \<open>sample\<close>: the globals of the program next to the state of the
  operating system.
\<close>

section \<open>Data\<close>

abbreviation (input) DSL_LINK_EVENT :: string where "DSL_LINK_EVENT \<equiv> ''Device.DSL.Line.1.LinkStatus''"
abbreviation (input) ETH_LINK_EVENT :: string where "ETH_LINK_EVENT \<equiv> ''Device.Ethernet.Interface.1.LinkStatus''"
abbreviation (input) LINK_UP :: string where "LINK_UP \<equiv> ''Up''"
abbreviation (input) LINK_DOWN :: string where "LINK_DOWN \<equiv> ''Down''"

text \<open>\<open>dispatchers\<close> counts the event threads that were created.\<close>

record 'w sample =
  system :: 'w
  evt_thread_started :: bool
  evt_subs_index :: int
  gsubs_event_list :: "hal_subscribe_event_request_t list"
  dispatchers :: nat

definition SUBS_SIZE :: nat where [config_defs]: "SUBS_SIZE = 5"

definition initial_sample :: "'w \<Rightarrow> 'w sample" where
  "initial_sample w = \<lparr>system = w, evt_thread_started = False, evt_subs_index = -1,
     gsubs_event_list = replicate SUBS_SIZE \<lparr>sr_name = '''', sr_type = NOTIFICATION_TYPE_ON_CHANGE\<rparr>,
     dispatchers = 0\<rparr>"

section \<open>The callbacks\<close>

text \<open>The loop of \<^verbatim>\<open>setParameters\<close> and \<^verbatim>\<open>deleteObject\<close>: every parameter is read and
  answered with a status; \<open>n\<close> is the number of turns left.\<close>

fun status_loop ::
  "'j json_c \<Rightarrow> eActionType \<Rightarrow> 'j option \<Rightarrow> nat \<Rightarrow> int \<Rightarrow> 'j option \<Rightarrow> (int \<times> 'j option) cres" where
  "status_loop J action jmsg 0 index jreply = Inr (RETURN_OK, jreply)"
| "status_loop J action jmsg (Suc n) index jreply =
     ebind (json_hal_get_param J jmsg index action (Some zero_param)) (\<lambda>(rc, _).
       if rc \<noteq> RETURN_OK then Inr (RETURN_ERR, jreply)
       else ebind (json_hal_add_result_status J jreply RESULT_SUCCESS) (\<lambda>(rc, jreply).
         if rc \<noteq> RETURN_OK then Inr (RETURN_ERR, jreply)
         else status_loop J action jmsg n (index + 1) jreply))"

definition setparam_rpc_cb ::
  "'j json_c \<Rightarrow> 'j option \<Rightarrow> int \<Rightarrow> 'j option \<Rightarrow> (int \<times> 'j option) cres" where
  "setparam_rpc_cb J jmsg param_count jreply =
     (if jmsg = None \<or> jreply = None then Inr (RETURN_ERR, jreply)
      else status_loop J SET_REQUEST_MESSAGE jmsg (nat param_count) 0 jreply)"

definition deleteobj_rpc_cb ::
  "'j json_c \<Rightarrow> 'j option \<Rightarrow> int \<Rightarrow> 'j option \<Rightarrow> (int \<times> 'j option) cres" where
  "deleteobj_rpc_cb J jmsg param_count jreply =
     (if jmsg = None \<or> jreply = None then Inr (RETURN_ERR, jreply)
      else status_loop J DELETE_REQUEST_MESSAGE jmsg (nat param_count) 0 jreply)"

text \<open>\<^verbatim>\<open>param_response\<close> is filled with one sample after the other.\<close>

definition param_response :: "string \<Rightarrow> eParamType \<Rightarrow> string \<Rightarrow> hal_param_t" where
  "param_response name ty value =
     \<lparr>hp_name = strncpy NAME_SIZE name, hp_value = strncpy VALUE_SIZE value, hp_type = Some ty\<rparr>"

definition sample_data :: "hal_param_t list" where
  "sample_data =
     [param_response ''Device.DSL.Line.1.Enable'' PARAM_BOOLEAN ''true'',
      param_response ''Device.DSL.Line.1.EnableDataGathering'' PARAM_BOOLEAN ''true'',
      param_response ''Device.DSL.Line.1.Status'' PARAM_STRING ''Up'',
      param_response ''Device.DSL.Line.1.SuccessFailureCause'' PARAM_UNSIGNED_INTEGER ''0'']"

fun add_responses :: "'j json_c \<Rightarrow> 'j option \<Rightarrow> hal_param_t list \<Rightarrow> (int \<times> 'j option) cres" where
  "add_responses J jreply [] = Inr (RETURN_OK, jreply)"
| "add_responses J jreply (p # ps) =
     ebind (json_hal_add_param J jreply GET_RESPONSE_MESSAGE (Some p)) (\<lambda>(rc, jreply).
       if rc \<noteq> RETURN_OK then Inr (RETURN_ERR, jreply) else add_responses J jreply ps)"

fun get_loop :: "'j json_c \<Rightarrow> 'j option \<Rightarrow> nat \<Rightarrow> int \<Rightarrow> 'j option \<Rightarrow> (int \<times> 'j option) cres" where
  "get_loop J jmsg 0 index jreply = Inr (RETURN_OK, jreply)"
| "get_loop J jmsg (Suc n) index jreply =
     ebind (json_hal_get_param J jmsg index GET_REQUEST_MESSAGE (Some zero_param)) (\<lambda>(rc, _).
       if rc \<noteq> RETURN_OK then Inr (RETURN_ERR, jreply)
       else ebind (add_responses J jreply sample_data) (\<lambda>(rc, jreply).
         if rc \<noteq> RETURN_OK then Inr (RETURN_ERR, jreply)
         else get_loop J jmsg n (index + 1) jreply))"

definition getparam_rpc_cb ::
  "'j json_c \<Rightarrow> 'j option \<Rightarrow> int \<Rightarrow> 'j option \<Rightarrow> (int \<times> 'j option) cres" where
  "getparam_rpc_cb J jmsg param_count jreply =
     (if jmsg = None \<or> jreply = None then Inr (RETURN_ERR, jreply)
      else get_loop J jmsg (nat param_count) 0 jreply)"

text \<open>The event thread is created once; the flag is set whether or not
  \<^verbatim>\<open>pthread_create\<close> (\<open>create\<close>) succeeds.\<close>

definition start_event_dispatch_thread :: "('w \<Rightarrow> int \<times> 'w) \<Rightarrow> 'w sample \<Rightarrow> int \<times> 'w sample" where
  "start_event_dispatch_thread create w =
     (let (rc, w') = create (system w)
      in (rc, w\<lparr>system := w', evt_thread_started := True,
                dispatchers := (if rc = 0 then Suc (dispatchers w) else dispatchers w)\<rparr>))"

text \<open>Storing one subscription: the index is advanced without a look at the size of the table.\<close>

definition store_subscription :: "'w sample \<Rightarrow> hal_subscribe_event_request_t \<Rightarrow> 'w sample cres" where
  "store_subscription w param_request =
     (let i = evt_subs_index w + 1 in
      if 0 \<le> i \<and> nat i < length (gsubs_event_list w)
      then Inr (w\<lparr>evt_subs_index := i,
        gsubs_event_list := (gsubs_event_list w)[nat i :=
          \<lparr>sr_name = strncpy BUF_512 (sr_name param_request), sr_type = sr_type param_request\<rparr>]\<rparr>)
      else Inl Buffer_Overflow)"

fun subs_loop ::
  "('j, 't, 'w sample, 's, 'v) platform \<Rightarrow> 'j option \<Rightarrow> nat \<Rightarrow> int \<Rightarrow> 'w sample \<Rightarrow> (int \<times> 'w sample) cres" where
  "subs_loop P jmsg 0 param_index w = Inr (RETURN_OK, w)"
| "subs_loop P jmsg (Suc n) param_index w =
     ebind (json_hal_get_subscribe_event_request P jmsg param_index) (\<lambda>(rc, param_request).
       if rc \<noteq> RETURN_OK then Inr (RETURN_ERR, w)
       else ebind (store_subscription w param_request) (\<lambda>w. subs_loop P jmsg n (param_index + 1) w))"

definition subs_event_cb ::
  "('j, 't, 'w sample, 's, 'v) platform \<Rightarrow> ('w \<Rightarrow> int \<times> 'w) \<Rightarrow> 'w sample \<Rightarrow> 'j option \<Rightarrow> int \<Rightarrow> 'j option
   \<Rightarrow> (int \<times> 'j option \<times> 'w sample) cres" where
  "subs_event_cb P create w jmsg param_count jreply =
     (if jmsg = None \<or> jreply = None then Inr (RETURN_ERR, jreply, w)
      else ebind (subs_loop P jmsg (nat param_count) 0 w) (\<lambda>(rc, w).
        if rc \<noteq> RETURN_OK then Inr (RETURN_ERR, jreply, w)
        else ebind (json_hal_add_result_status (json P) jreply RESULT_SUCCESS) (\<lambda>(ret, jreply).
          Inr (ret, jreply, if \<not> evt_thread_started w then snd (start_event_dispatch_thread create w) else w))))"

text \<open>The form in which the library calls a callback: neither object is NULL, and the reply is
  changed in place.\<close>

definition rpc_callback ::
  "('w \<Rightarrow> 'j option \<Rightarrow> int \<Rightarrow> 'j option \<Rightarrow> (int \<times> 'j option \<times> 'w) cres) \<Rightarrow> ('j, 'w) action_callback" where
  "rpc_callback f = (\<lambda>w jmsg n jreply. ebind (f w (Some jmsg) n (Some jreply)) (\<lambda>(rc, jreply', w').
     Inr (rc, (case jreply' of None \<Rightarrow> jreply | Some j \<Rightarrow> j), w')))"

definition without_state ::
  "('j option \<Rightarrow> int \<Rightarrow> 'j option \<Rightarrow> (int \<times> 'j option) cres)
   \<Rightarrow> 'w \<Rightarrow> 'j option \<Rightarrow> int \<Rightarrow> 'j option \<Rightarrow> (int \<times> 'j option \<times> 'w) cres" where
  "without_state f w jmsg n jreply = ebind (f jmsg n jreply) (\<lambda>(rc, jreply'). Inr (rc, jreply', w))"

section \<open>The event thread\<close>

text \<open>One round of the endless loop of \<^verbatim>\<open>rpc_event_dispatch_thread\<close>: the first two entries of
  the table; \<open>t0\<close> and \<open>polls\<close> are what a blocking publication sees while it waits.\<close>

definition dispatch_entry ::
  "('j, 't, 'w sample, 's, 'v) platform \<Rightarrow> ('j, 'w sample, 'v) server \<Rightarrow> nat
   \<Rightarrow> int \<Rightarrow> (('j, 'w sample, 'v) server \<times> (nat \<Rightarrow> int)) list \<Rightarrow> ('j, 'w sample, 'v) server cres" where
  "dispatch_entry P s i t0 polls =
     ebind (read_buf BUF_512 (sr_name (gsubs_event_list (world s) ! i))) (\<lambda>name.
       if strcmp_eq name DSL_LINK_EVENT
       then ebind (json_hal_server_publish_event P s DSL_LINK_EVENT (Some LINK_UP) t0 polls) (\<lambda>(_, s). Inr s)
       else if strcmp_eq name ETH_LINK_EVENT
       then ebind (json_hal_server_publish_event P s ETH_LINK_EVENT (Some LINK_DOWN) t0 polls) (\<lambda>(_, s). Inr s)
       else Inr s)"

definition dispatch_round ::
  "('j, 't, 'w sample, 's, 'v) platform \<Rightarrow> ('j, 'w sample, 'v) server
   \<Rightarrow> (nat \<Rightarrow> int) \<Rightarrow> (nat \<Rightarrow> (('j, 'w sample, 'v) server \<times> (nat \<Rightarrow> int)) list) \<Rightarrow> ('j, 'w sample, 'v) server cres" where
  "dispatch_round P s t0 polls =
     ebind (dispatch_entry P s 0 (t0 0) (polls 0)) (\<lambda>s. dispatch_entry P s 1 (t0 1) (polls 1))"

section \<open>main\<close>

definition register_callbacks ::
  "('j, 't, 'w sample, 's, 'v) platform \<Rightarrow> ('w \<Rightarrow> int \<times> 'w) \<Rightarrow> ('j, 'w sample, 'v) server \<Rightarrow> ('j, 'w sample, 'v) server cres" where
  "register_callbacks P create s =
     ebind (json_hal_server_register_action_callback s ''setParameters''
       (Some (rpc_callback (without_state (setparam_rpc_cb (json P)))))) (\<lambda>(_, s).
     ebind (json_hal_server_register_action_callback s ''getParameters''
       (Some (rpc_callback (without_state (getparam_rpc_cb (json P)))))) (\<lambda>(_, s).
     ebind (json_hal_server_register_action_callback s ''deleteObject''
       (Some (rpc_callback (without_state (deleteobj_rpc_cb (json P)))))) (\<lambda>(_, s).
     ebind (json_hal_server_register_action_callback s ''subscribeEvent''
       (Some (rpc_callback (subs_event_cb P create)))) (\<lambda>(_, s). Inr s))))"

text \<open>\<open>created\<close> is the result of creating the socket thread; the process then sleeps for ever,
  and the server is what its threads work on.\<close>

definition server_main ::
  "('j, 't, 'w sample, 's, 'v) platform \<Rightarrow> files \<Rightarrow> ('w \<Rightarrow> int \<times> 'w) \<Rightarrow> int \<Rightarrow> string list \<Rightarrow> 'w sample
   \<Rightarrow> (('j, 'w sample, 'v) server \<times> ('j, 'w sample, 'v) server rpc_server_data_t option) process cres" where
  "server_main P fs create created argv w =
     (if length argv \<noteq> 2 then Inr (Exited 0)
      else ebind (json_hal_server_init P fs (initial_server w) (Some (argv ! 1))) (\<lambda>(rc, s).
        if rc \<noteq> RETURN_OK then Inr Aborted
        else ebind (register_callbacks P create s) (\<lambda>s.
          let (rc, thread) = json_hal_server_run created P s in
          if rc \<noteq> RETURN_OK then Inr Aborted else Inr (Running (s, thread)))))"

text \<open>The signal handler, for the signals it was installed for.\<close>

datatype signal = SIGUSR1 | SIGKILL | SIGINT | SIG_OTHER

definition sig_handler ::
  "('j, 't, 'w, 's, 'v) platform \<Rightarrow> signal \<Rightarrow> ('j, 'w, 'v) server \<Rightarrow> (nat \<Rightarrow> bool) \<Rightarrow> ('j, 'w, 'v) server process" where
  "sig_handler P signo s stopped =
     (if signo = SIGUSR1 \<or> signo = SIGKILL \<or> signo = SIGINT
      then (case json_hal_server_terminate P s stopped of (rc, _, _) \<Rightarrow> if rc = RETURN_OK then Exited 0 else Aborted)
      else Running s)"

section \<open>What the answers hold\<close>

text \<open>The parameters a client unpacks from a reply are exactly \<open>qs\<close>.\<close>

definition holds_params :: "'j json_c \<Rightarrow> 'j \<Rightarrow> hal_param_t list \<Rightarrow> bool" where
  "holds_params J r qs \<longleftrightarrow>
     (\<exists>a. jc_object_get_ex J r JSON_RPC_FIELD_PARAMS = Some (Some a) \<and> jc_type J a = json_type_array
        \<and> jc_array_length J a = length qs)
   \<and> (\<forall>k < length qs. \<forall>x. json_hal_get_param J (Some r) (int k) GET_RESPONSE_MESSAGE (Some x) =
        Inr (RETURN_OK, Some (qs ! k)))"

text \<open>A parameter after it was packed and unpacked.\<close>

definition unpacked :: "hal_param_t \<Rightarrow> hal_param_t" where
  "unpacked p = (case hp_type p of None \<Rightarrow> p | Some t \<Rightarrow> p\<lparr>hp_value := canon_value t (hp_value p)\<rparr>)"

definition sendable :: "hal_param_t \<Rightarrow> bool" where
  "sendable p \<longleftrightarrow> wf_param p \<and> (\<exists>t. hp_type p = Some t \<and> packable t (hp_value p))"

lemma add_param_holds:
  assumes "json_c_ok J" and "holds_params J r qs" and "sendable p"
  shows "\<exists>r'. json_hal_add_param J (Some r) GET_RESPONSE_MESSAGE (Some p) = Inr (RETURN_OK, Some r')
    \<and> holds_params J r' (qs @ [unpacked p])
    \<and> (\<forall>k. k \<noteq> JSON_RPC_FIELD_PARAMS \<longrightarrow> jc_object_get_ex J r' k = jc_object_get_ex J r k)"
proof -
  from assms(2) obtain a where a: "jc_object_get_ex J r JSON_RPC_FIELD_PARAMS = Some (Some a)"
    "jc_type J a = json_type_array" "jc_array_length J a = length qs" by (auto simp: holds_params_def)
  from assms(3) obtain t where p: "wf_param p" "hp_type p = Some t" "packable t (hp_value p)"
    by (auto simp: sendable_def)
  obtain q where q: "pack_value J (named_param J (hp_name p)) t (hp_value p) = Some q"
    using pack_value_packable [OF p(3)] by (rule exE)
  let ?r' = "jc_update_member J r JSON_RPC_FIELD_PARAMS (jc_array_add J a q)"
  have last: "get_param_fields J (Some q) GET_RESPONSE_MESSAGE zero_param = Inr (RETURN_OK, unpacked p)"
    using pack_value_unpack [OF assms(1) q, of GET_RESPONSE_MESSAGE zero_param] p
    by (cases p) (simp add: wf_param_def unpacked_def zero_param_def)
  have "holds_params J ?r' (qs @ [unpacked p])"
    using assms(1,2) a last get_param_extended [OF assms(1) a(1,2), of q]
    by (auto simp: holds_params_def update_member_simps [OF assms(1) a(1)] nth_append less_Suc_eq)
  with add_param_appends [OF assms(1) a(1,2) p(1,2) q] update_member_simps [OF assms(1) a(1)]
  show ?thesis by (intro exI [of _ ?r']) simp
qed

lemma add_responses_hold:
  "json_c_ok J \<Longrightarrow> holds_params J r qs \<Longrightarrow> \<forall>p \<in> set ps. sendable p \<Longrightarrow>
   \<exists>r'. add_responses J (Some r) ps = Inr (RETURN_OK, Some r') \<and> holds_params J r' (qs @ map unpacked ps)
     \<and> (\<forall>k. k \<noteq> JSON_RPC_FIELD_PARAMS \<longrightarrow> jc_object_get_ex J r' k = jc_object_get_ex J r k)"
proof (induction ps arbitrary: r qs)
  case (Cons p ps)
  obtain r1 where r1: "json_hal_add_param J (Some r) GET_RESPONSE_MESSAGE (Some p) = Inr (RETURN_OK, Some r1)"
    "holds_params J r1 (qs @ [unpacked p])" "\<forall>k. k \<noteq> JSON_RPC_FIELD_PARAMS \<longrightarrow> jc_object_get_ex J r1 k = jc_object_get_ex J r k"
    using add_param_holds [OF Cons.prems(1,2), of p] Cons.prems(3) by auto
  from Cons.IH [OF Cons.prems(1) r1(2)] Cons.prems(3) r1 show ?case by auto
qed simp

lemma sample_data_sendable: "\<forall>p \<in> set sample_data. sendable p"
  by (simp add: sample_data_def param_response_def sendable_def wf_param_def packable_def config_defs)

text \<open>The sample data as the client sees them: a true boolean is read as 1.\<close>

definition client_view :: "hal_param_t list" where
  "client_view =
     [\<lparr>hp_name = ''Device.DSL.Line.1.Enable'', hp_value = ''1'', hp_type = Some PARAM_BOOLEAN\<rparr>,
      \<lparr>hp_name = ''Device.DSL.Line.1.EnableDataGathering'', hp_value = ''1'', hp_type = Some PARAM_BOOLEAN\<rparr>,
      \<lparr>hp_name = ''Device.DSL.Line.1.Status'', hp_value = ''Up'', hp_type = Some PARAM_STRING\<rparr>,
      \<lparr>hp_name = ''Device.DSL.Line.1.SuccessFailureCause'', hp_value = ''0'', hp_type = Some PARAM_UNSIGNED_INTEGER\<rparr>]"

lemma atoi_zero: "show_int (atoi ''0'') = ''0''"
  by code_simp

lemma unpacked_sample: "map unpacked sample_data = client_view"
  by (simp add: sample_data_def param_response_def client_view_def unpacked_def canon_value_def atoi_zero config_defs)

lemma get_loop_holds:
  "json_c_ok J \<Longrightarrow> holds_params J r qs \<Longrightarrow>
   \<forall>k < n. \<forall>x. \<exists>p. json_hal_get_param J (Some jmsg) (index + int k) GET_REQUEST_MESSAGE (Some x) = Inr (RETURN_OK, p) \<Longrightarrow>
   \<exists>r'. get_loop J (Some jmsg) n index (Some r) = Inr (RETURN_OK, Some r')
     \<and> holds_params J r' (qs @ concat (replicate n client_view))
     \<and> (\<forall>k. k \<noteq> JSON_RPC_FIELD_PARAMS \<longrightarrow> jc_object_get_ex J r' k = jc_object_get_ex J r k)"
proof (induction n arbitrary: index r qs)
  case (Suc n)
  obtain p where p: "json_hal_get_param J (Some jmsg) index GET_REQUEST_MESSAGE (Some zero_param) = Inr (RETURN_OK, p)"
    using Suc.prems(3) [rule_format, of 0] by auto
  obtain r1 where r1: "add_responses J (Some r) sample_data = Inr (RETURN_OK, Some r1)"
    "holds_params J r1 (qs @ client_view)" "\<forall>k. k \<noteq> JSON_RPC_FIELD_PARAMS \<longrightarrow> jc_object_get_ex J r1 k = jc_object_get_ex J r k"
    using add_responses_hold [OF Suc.prems(1,2) sample_data_sendable] by (auto simp: unpacked_sample)
  have "\<forall>k < n. \<forall>x. \<exists>p. json_hal_get_param J (Some jmsg) (index + 1 + int k) GET_REQUEST_MESSAGE (Some x) = Inr (RETURN_OK, p)"
    using Suc.prems(3) by (force simp: add.assoc)
  from Suc.IH [OF Suc.prems(1) r1(2) this] p r1 show ?case by auto
qed simp

section \<open>The server main starts\<close>

definition sample_callbacks ::
  "('j, 't, 'w sample, 's, 'v) platform \<Rightarrow> ('w \<Rightarrow> int \<times> 'w) \<Rightarrow> (string \<times> ('j, 'w sample) action_callback option) list" where
  "sample_callbacks P create =
     [(''setParameters'', Some (rpc_callback (without_state (setparam_rpc_cb (json P))))),
      (''getParameters'', Some (rpc_callback (without_state (getparam_rpc_cb (json P))))),
      (''deleteObject'', Some (rpc_callback (without_state (deleteobj_rpc_cb (json P))))),
      (''subscribeEvent'', Some (rpc_callback (subs_event_cb P create)))]"

lemma register_callbacks_eq:
  "register_callbacks P create s = add_all json_hal_server_register_action_callback s (sample_callbacks P create)"
  by (simp add: register_callbacks_def sample_callbacks_def)

lemma server_init_keeps:
  assumes "json_hal_server_init P fs s path = Inr (rc, s')"
  shows "world s' = world s" "g_hal_functions_list s' = g_hal_functions_list s"
    "g_event_subscriptions_list s' = g_event_subscriptions_list s" "g_seqnumber s' = g_seqnumber s"
    "subscription_mutex s' = subscription_mutex s" "sent s' = sent s"
  using assms
  by (auto simp: json_hal_server_init_def Let_def ebind_eq_Inr_iff case_prod_beta split: option.splits if_splits)

lemma register_keeps:
  assumes "json_hal_server_register_action_callback s name cb = Inr (rc, s')"
  shows "\<exists>fs. s' = s\<lparr>g_hal_functions_list := fs\<rparr>"
  using assms
  by (auto simp: json_hal_server_register_action_callback_def ebind_eq_Inr_iff split: if_splits option.splits
      intro: exI [of _ "g_hal_functions_list s"])

lemma register_all_keep:
  "add_all json_hal_server_register_action_callback s kvs = Inr s' \<Longrightarrow> \<exists>fs. s' = s\<lparr>g_hal_functions_list := fs\<rparr>"
proof (induction kvs arbitrary: s)
  case Nil
  then show ?case by (intro exI [of _ "g_hal_functions_list s"]) simp
next
  case (Cons kv kvs)
  then obtain rc s1 where s1: "json_hal_server_register_action_callback s (fst kv) (snd kv) = Inr (rc, s1)"
    "add_all json_hal_server_register_action_callback s1 kvs = Inr s'"
    by (auto simp: ebind_eq_Inr_iff)
  from Cons.IH [OF s1(2)] register_keeps [OF s1(1)] show ?case by auto
qed

lemma main_serves:
  assumes "server_main P fs create created argv w = Inr (Running (s, th))"
  shows "\<forall>name. map_option acl_cb (get_registered_rpc_action_by_name s name) = map_of (sample_callbacks P create) name"
    and "world s = w" "g_event_subscriptions_list s = []" "g_seqnumber s = DEFAULT_SEQ_START_NUMBER"
    and "\<not> subscription_mutex s" "sent s = []" "th = Some (g_rpc_server P (rpc_port s))"
proof -
  from assms obtain s0 where init: "json_hal_server_init P fs (initial_server w) (Some (argv ! 1)) = Inr (RETURN_OK, s0)"
    and reg: "add_all json_hal_server_register_action_callback s0 (sample_callbacks P create) = Inr s"
    and run: "fst (json_hal_server_run created P s) = RETURN_OK" "snd (json_hal_server_run created P s) = th"
    by (auto simp: server_main_def ebind_eq_Inr_iff register_callbacks_eq Let_def case_prod_beta split: if_splits)
  have "registry_map s0 = Map.empty"
    using server_init_keeps(2) [OF init] by (simp add: registry_map_map_of initial_server_def)
  moreover have "\<forall>kv \<in> set (sample_callbacks P create). action_name_ok (fst kv)"
    by (simp add: sample_callbacks_def action_name_ok_def)
  ultimately have "registry_map s = map_of (sample_callbacks P create)"
    using registry.add_all_first_wins [of "sample_callbacks P create" s0] reg by auto
  then show "\<forall>name. map_option acl_cb (get_registered_rpc_action_by_name s name) = map_of (sample_callbacks P create) name"
    by (auto simp: registry_map_def fun_eq_iff)
  obtain fs where s: "s = s0\<lparr>g_hal_functions_list := fs\<rparr>" using register_all_keep [OF reg] by blast
  show "world s = w" "g_event_subscriptions_list s = []" "g_seqnumber s = DEFAULT_SEQ_START_NUMBER"
    "\<not> subscription_mutex s" "sent s = []"
    using server_init_keeps [OF init] by (simp_all add: s initial_server_def)
  show "th = Some (g_rpc_server P (rpc_port s))"
    using run by (auto simp: json_hal_server_run_def json_rpc_server_run_def split: if_splits)
qed

lemma registered_cb:
  assumes "\<forall>name. map_option acl_cb (get_registered_rpc_action_by_name s0 name) = map_of (sample_callbacks P create) name"
    and "g_hal_functions_list s = g_hal_functions_list s0" and "(name, Some cb) \<in> set (sample_callbacks P create)"
  shows "Option.bind (get_registered_rpc_action_by_name s name) acl_cb = Some cb"
proof -
  have "distinct (map fst (sample_callbacks P create))" by (simp add: sample_callbacks_def)
  from this assms(3) have "map_of (sample_callbacks P create) name = Some (Some cb)" by (rule map_of_is_SomeI)
  moreover have "get_registered_rpc_action_by_name s = get_registered_rpc_action_by_name s0"
    using assms(2) by (simp add: get_registered_rpc_action_by_name_def fun_eq_iff)
  ultimately show ?thesis using assms(1) [rule_format, of name] by (auto simp: bind_eq_Some_conv)
qed

section \<open>getParameters\<close>

lemma get_header_holds:
  "json_c_ok J \<Longrightarrow> holds_params J (prepare_json_response_header J c ''getParameters'' req_id) []"
  by (simp add: holds_params_def prepare_json_response_header_def Let_def)

lemma get_loop_fails:
  "json_c_ok J \<Longrightarrow> holds_params J r qs \<Longrightarrow> length rcs = n \<Longrightarrow> \<exists>rc \<in> set rcs. rc \<noteq> RETURN_OK \<Longrightarrow>
   \<forall>k < n. \<forall>x. \<exists>p. json_hal_get_param J (Some jmsg) (index + int k) GET_REQUEST_MESSAGE (Some x) = Inr (rcs ! k, p) \<Longrightarrow>
   \<exists>r'. get_loop J (Some jmsg) n index (Some r) = Inr (RETURN_ERR, Some r')"
proof (induction n arbitrary: index r qs rcs)
  case (Suc n)
  then obtain rc rcs' where rcs: "rcs = rc # rcs'" "length rcs' = n" by (cases rcs) auto
  obtain p where p: "json_hal_get_param J (Some jmsg) index GET_REQUEST_MESSAGE (Some zero_param) = Inr (rc, p)"
    using Suc.prems(5) [rule_format, of 0] rcs by auto
  obtain r1 where r1: "add_responses J (Some r) sample_data = Inr (RETURN_OK, Some r1)" "holds_params J r1 (qs @ client_view)"
    using add_responses_hold [OF Suc.prems(1,2) sample_data_sendable] by (auto simp: unpacked_sample)
  have rest: "\<forall>k < n. \<forall>x. \<exists>p. json_hal_get_param J (Some jmsg) (index + 1 + int k) GET_REQUEST_MESSAGE (Some x) = Inr (rcs' ! k, p)"
    using Suc.prems(5) rcs(1) by (force simp: add.assoc)
  show ?case
  proof (cases "rc = RETURN_OK")
    case True
    then have "\<exists>rc \<in> set rcs'. rc \<noteq> RETURN_OK" using Suc.prems(4) rcs(1) by simp
    from Suc.IH [OF Suc.prems(1) r1(2) rcs(2) this rest] p r1(1) True show ?thesis by auto
  qed (use p in simp)
qed simp

lemma getparam_answers:
  assumes "json_c_ok J" and "length rcs = n"
    and "\<forall>k < n. \<forall>x. \<exists>p. json_hal_get_param J (Some jobj) (int k) GET_REQUEST_MESSAGE (Some x) = Inr (rcs ! k, p)"
  shows "\<exists>r. getparam_rpc_cb J (Some jobj) (int n) (Some (prepare_json_response_header J c ''getParameters'' req_id)) =
      Inr (if \<forall>rc \<in> set rcs. rc = RETURN_OK then RETURN_OK else RETURN_ERR, Some r)
    \<and> ((\<forall>rc \<in> set rcs. rc = RETURN_OK) \<longrightarrow>
        jc_object_get_ex J r JSON_RPC_FIELD_ID = Some (Some (jc_new_string J req_id))
      \<and> holds_params J r (concat (replicate n client_view)))"
proof (cases "\<forall>rc \<in> set rcs. rc = RETURN_OK")
  case True
  then have "rcs ! k = RETURN_OK" if "k < n" for k using that assms(2) by simp
  with assms(3) have "\<forall>k < n. \<forall>x. \<exists>p. json_hal_get_param J (Some jobj) (0 + int k) GET_REQUEST_MESSAGE (Some x) = Inr (RETURN_OK, p)"
    by simp
  from get_loop_holds [OF assms(1) get_header_holds [OF assms(1)] this, of c req_id] True
    response_header_id(1) [OF assms(1), of c "''getParameters''" req_id]
  show ?thesis by (auto simp: getparam_rpc_cb_def)
next
  case False
  then have "\<exists>rc \<in> set rcs. rc \<noteq> RETURN_OK" by blast
  from get_loop_fails [OF assms(1) get_header_holds [OF assms(1)] assms(2) this, of jobj 0 c req_id] assms(3) False
  show ?thesis by (auto simp: getparam_rpc_cb_def)
qed


text \<open>A run of the program for the examples: configuration and schema are read, every thread is
  created, and the network takes every message whole.\<close>

definition sample_event :: "int \<Rightarrow> string \<Rightarrow> string \<Rightarrow> json" where
  "sample_event n ev v = publish_event_body (tree_json (\<lambda>_. None) (\<lambda>_. None)) example_config n ev v"

definition sample_print :: "json \<Rightarrow> string option" where
  "sample_print j = Some (if j = sample_event 102 ETH_LINK_EVENT LINK_DOWN then ''[]'' else ''{}'')"

definition sample_read :: "string \<Rightarrow> json option" where
  "sample_read t =
     (if t = ''{}'' then Some (sample_event 101 DSL_LINK_EVENT LINK_UP)
      else if t = ''[]'' then Some (sample_event 102 ETH_LINK_EVENT LINK_DOWN)
      else example_read t)"

definition sample_platform :: "(json, unit, unit sample, unit, unit) platform" where
  "sample_platform = \<lparr>json = tree_json sample_print sample_read,
     tok = \<lparr>tok_new = Some (), tok_parse_ex = (\<lambda>t s n. (t, None, json_tokener_error_other, 0))\<rparr>,
     net = \<lparr>os_send = (\<lambda>w fd d. (int (length d), w))\<rparr>,
     nlohmann = \<lparr>nl_parse = (\<lambda>_. Some ()), nl_new = (), nl_set_root = (\<lambda>_ _. Some ()), nl_validate = (\<lambda>_ _. Some False)\<rparr>,
     blocking = False, validation = False\<rparr>"

definition example_create :: "unit \<Rightarrow> int \<times> unit" where
  "example_create w = (0, w)"

lemma sample_platform_ok:
  "sends_ok sample_platform" "\<not> blocking sample_platform" "\<not> validation sample_platform"
  "send_keeps_fds (net sample_platform) own"
  by (simp_all add: sample_platform_def sends_ok_def send_documented_def send_keeps_fds_def) (simp add: tree_json_def sample_print_def)

lemma sample_main_runs:
  "\<exists>s th. server_main sample_platform example_files example_create 0 [''server'', ''c.json''] (initial_sample ()) =
     Inr (Running (s, th)) \<and> g_server_config s = example_config"
proof -
  let ?s = "initial_server (initial_sample ()) :: (json, unit sample, unit) server"
  have "g_server_config ?s = zero_config" by (simp add: initial_server_def)
  then obtain s0 where s0: "json_hal_server_init sample_platform example_files ?s (Some ''c.json'') = Inr (RETURN_OK, s0)"
    and cfg: "g_server_config s0 = example_config"
    using example_config_read [of sample_read sample_print]
    by (auto simp: json_hal_server_init_def sample_platform_def sample_read_def Let_def)
  have "\<forall>kv \<in> set (sample_callbacks sample_platform example_create). action_name_ok (fst kv)"
    by (simp add: sample_callbacks_def action_name_ok_def)
  from registry.add_all_first_wins [OF this, of s0] obtain s where
    reg: "register_callbacks sample_platform example_create s0 = Inr s" by (auto simp: register_callbacks_eq)
  then have "g_server_config s = example_config"
    using register_all_keep [of s0 "sample_callbacks sample_platform example_create" s] cfg by (auto simp: register_callbacks_eq)
  with s0 reg show ?thesis
    by (simp add: server_main_def json_hal_server_run_def json_rpc_server_run_def RETURN_OK_def)
qed

definition example_get :: json where
  "example_get = JObject [(''reqId'', Some (JString ''1001'')), (''action'', Some (JString ''getParameters'')),
     (''params'', Some (JArray [Some (JObject [(''name'', Some (JString ''Device.DSL.Line.1.Enable''))])]))]"

lemma example_get_facts:
  "request_is (json sample_platform) example_get ''1001'' ''getParameters''"
  "request_param_count (json sample_platform) example_get = Inr 1"
  "\<exists>p. json_hal_get_param (json sample_platform) (Some example_get) 0 GET_REQUEST_MESSAGE (Some x) = Inr (RETURN_OK, p)"
  by (simp_all add: request_is_def request_param_count_def arr_length_def json_hal_get_param_def arr_get_idx_def
      get_param_fields_def get_param_name_def sample_platform_def tree_json_def tree_get_idx_def example_get_def strncpy_def)


section \<open>subscribeEvent and the table of subscriptions\<close>

definition sample_inv :: "'w sample \<Rightarrow> bool" where
  "sample_inv w \<longleftrightarrow> length (gsubs_event_list w) = SUBS_SIZE \<and> -1 \<le> evt_subs_index w \<and> evt_subs_index w < int SUBS_SIZE"

lemma initial_sample_inv [simp]: "sample_inv (initial_sample w)"
  by (simp add: sample_inv_def initial_sample_def SUBS_SIZE_def)

text \<open>The table with \<open>reqs\<close> stored behind the entries in use.\<close>

definition stored :: "'w sample \<Rightarrow> hal_subscribe_event_request_t list \<Rightarrow> 'w sample" where
  "stored w reqs =
     w\<lparr>evt_subs_index := evt_subs_index w + int (length reqs),
       gsubs_event_list := (let n = nat (evt_subs_index w + 1); tab = gsubs_event_list w
          in take n tab @ reqs @ drop (n + length reqs) tab)\<rparr>"

lemma stored_Nil [simp]: "stored w [] = w"
  by (simp add: stored_def Let_def)

lemma stored_inv: "sample_inv w \<Longrightarrow> evt_subs_index w + int (length reqs) < int SUBS_SIZE \<Longrightarrow> sample_inv (stored w reqs)"
  by (auto simp: sample_inv_def stored_def Let_def)

lemma store_one:
  assumes "sample_inv w" and "nul_free (sr_name req)" and "length (sr_name req) \<le> 512"
  shows "store_subscription w req =
    (if evt_subs_index w + 1 < int SUBS_SIZE then Inr (stored w [req]) else Inl Buffer_Overflow)"
  using assms
  by (cases req) (auto simp: store_subscription_def stored_def sample_inv_def Let_def upd_conv_take_nth_drop nat_less_iff)

lemma stored_Cons:
  assumes "sample_inv w" and "evt_subs_index w + 1 < int SUBS_SIZE"
  shows "stored (stored w [req]) reqs = stored w (req # reqs)"
proof -
  let ?i = "nat (evt_subs_index w + 1)"
  have "nat (evt_subs_index w + 1 + 1) = Suc ?i" "?i < length (gsubs_event_list w)"
    using assms by (auto simp: sample_inv_def)
  then show ?thesis by (simp add: stored_def Let_def ac_simps)
qed

lemma subs_loop_stores:
  "sample_inv w \<Longrightarrow> length reqs = n \<Longrightarrow>
   \<forall>k < n. json_hal_get_subscribe_event_request P jmsg (i + int k) = Inr (RETURN_OK, reqs ! k) \<Longrightarrow>
   subs_loop P jmsg n i w =
     (if evt_subs_index w + int n < int SUBS_SIZE then Inr (RETURN_OK, stored w reqs) else Inl Buffer_Overflow)"
proof (induction n arbitrary: w i reqs)
  case 0
  then show ?case by (simp add: sample_inv_def)
next
  case (Suc n)
  then obtain req reqs' where reqs: "reqs = req # reqs'" "length reqs' = n" by (cases reqs) auto
  have req: "json_hal_get_subscribe_event_request P jmsg i = Inr (RETURN_OK, req)"
    using Suc.prems(3) [rule_format, of 0] reqs by simp
  have rest: "\<forall>k < n. json_hal_get_subscribe_event_request P jmsg (i + 1 + int k) = Inr (RETURN_OK, reqs' ! k)"
    using Suc.prems(3) reqs(1) by (force simp: add.assoc)
  have step: "subs_loop P jmsg (Suc n) i w =
      (if evt_subs_index w + 1 < int SUBS_SIZE then subs_loop P jmsg n (i + 1) (stored w [req]) else Inl Buffer_Overflow)"
    using store_one [OF Suc.prems(1)] subscribe_request_fits [OF req] req by simp
  show ?case
  proof (cases "evt_subs_index w + 1 < int SUBS_SIZE")
    case True
    with Suc.prems(1) have "sample_inv (stored w [req])" by (intro stored_inv) simp_all
    moreover have "evt_subs_index (stored w [req]) = evt_subs_index w + 1" by (simp add: stored_def)
    ultimately have "subs_loop P jmsg n (i + 1) (stored w [req]) =
        (if evt_subs_index w + 1 + int n < int SUBS_SIZE then Inr (RETURN_OK, stored w reqs) else Inl Buffer_Overflow)"
      using Suc.IH [OF _ reqs(2) rest, of "stored w [req]"] stored_Cons [OF Suc.prems(1) True] reqs(1) by simp
    with step True show ?thesis by (simp add: ac_simps)
  next
    case False
    then have "\<not> evt_subs_index w + int (Suc n) < int SUBS_SIZE" by simp
    with step False show ?thesis by simp
  qed
qed

lemma subs_event_stores:
  assumes "json_c_ok (json P)" and "jc_type (json P) jreply = json_type_object" and "sample_inv w"
    and "length reqs = n"
    and "\<forall>k < n. json_hal_get_subscribe_event_request P (Some jmsg) (int k) = Inr (RETURN_OK, reqs ! k)"
  shows "subs_event_cb P create w (Some jmsg) (int n) (Some jreply) =
    (if evt_subs_index w + int n < 5
     then Inr (RETURN_OK,
        Some (jc_object_add (json P) jreply JSON_RPC_FILED_RESULT (status_object (json P) JSON_RPC_STATUS_SUCCESS)),
        if evt_thread_started w then stored w reqs else snd (start_event_dispatch_thread create (stored w reqs)))
     else Inl Buffer_Overflow)"
proof -
  have "subs_loop P (Some jmsg) n 0 w =
      (if evt_subs_index w + int n < 5 then Inr (RETURN_OK, stored w reqs) else Inl Buffer_Overflow)"
    using subs_loop_stores [OF assms(3,4), of P "Some jmsg" 0] assms(5) by (simp add: SUBS_SIZE_def)
  moreover have "evt_thread_started (stored w reqs) = evt_thread_started w" by (simp add: stored_def)
  ultimately show ?thesis
    using assms(1,2) by (simp add: subs_event_cb_def json_hal_add_result_status_def obj_add_def)
qed

text \<open>
  C35: the table of subscriptions of the sample server. A request with \<open>n\<close> readable subscriptions
  is accepted as long as they fit the five entries of the table: they are stored in order behind
  the earlier ones, the reply has the status \<^verbatim>\<open>Success\<close>, and the flag that says that the event
  thread was started is set afterwards. If it was not set before, the creation of one thread is tried, and the flag is
  set although there is no thread if that fails; if it was set, no thread is created. One subscription too many is written
  behind the end of the table.
\<close>

theorem sample_table_bound:
  assumes "json_c_ok (json P)" and "jc_type (json P) jreply = json_type_object" and "sample_inv w"
    and "length reqs = n"
    and "\<forall>k < n. json_hal_get_subscribe_event_request P (Some jmsg) (int k) = Inr (RETURN_OK, reqs ! k)"
  shows "if evt_subs_index w + int n < 5
    then \<exists>w'. subs_event_cb P create w (Some jmsg) (int n) (Some jreply) = Inr (RETURN_OK,
          Some (jc_object_add (json P) jreply JSON_RPC_FILED_RESULT (status_object (json P) JSON_RPC_STATUS_SUCCESS)), w')
      \<and> gsubs_event_list w' = take (nat (evt_subs_index w + 1)) (gsubs_event_list w) @ reqs
          @ drop (nat (evt_subs_index w + 1) + n) (gsubs_event_list w)
      \<and> evt_subs_index w' = evt_subs_index w + int n \<and> evt_thread_started w'
      \<and> (if evt_thread_started w then system w' = system w \<and> dispatchers w' = dispatchers w
         else system w' = snd (create (system w))
           \<and> dispatchers w' = (if fst (create (system w)) = 0 then dispatchers w + 1 else dispatchers w))
    else subs_event_cb P create w (Some jmsg) (int n) (Some jreply) = Inl Buffer_Overflow"
  using assms(4)
  by (auto simp: subs_event_stores [OF assms] stored_def start_event_dispatch_thread_def case_prod_beta Let_def)

definition example_sample_subscribe :: "string \<Rightarrow> json" where
  "example_sample_subscribe ev = JObject [(''reqId'', Some (JString ''1001'')), (''action'', Some (JString ''subscribeEvent'')),
     (''params'', Some (JArray [Some (JObject [(''name'', Some (JString ev)),
        (''notificationType'', Some (JString ''onChange''))])]))]"

lemma example_sample_request:
  "nul_free ev \<Longrightarrow> length ev < 512 \<Longrightarrow>
   json_hal_get_subscribe_event_request sample_platform (Some (example_sample_subscribe ev)) 0 =
     Inr (RETURN_OK, \<lparr>sr_name = ev, sr_type = NOTIFICATION_TYPE_ON_CHANGE\<rparr>)"
  by (simp add: json_hal_get_subscribe_event_request_def sample_platform_def tree_json_def example_sample_subscribe_def
      tree_get_idx_def arr_get_idx_def Let_def)

theorem sample_table_bound_witness:
  "subs_event_cb sample_platform example_create ((initial_sample ())\<lparr>evt_subs_index := 4\<rparr>)
     (Some (example_sample_subscribe ''Event'')) 1 (Some (JObject [])) = Inl Buffer_Overflow
   \<and> (\<exists>r w. subs_event_cb sample_platform example_create (initial_sample ())
     (Some (example_sample_subscribe ''Event'')) 1 (Some (JObject [])) = Inr (RETURN_OK, r, w)
     \<and> map sr_name (gsubs_event_list w) = [''Event'', '''', '''', '''', ''''] \<and> evt_thread_started w \<and> dispatchers w = 1)"
proof -
  have req: "json_hal_get_subscribe_event_request sample_platform (Some (example_sample_subscribe ''Event'')) 0 =
      Inr (RETURN_OK, \<lparr>sr_name = ''Event'', sr_type = NOTIFICATION_TYPE_ON_CHANGE\<rparr>)"
    by (rule example_sample_request) simp_all
  have J: "json_c_ok (json sample_platform)" "jc_type (json sample_platform) (JObject []) = json_type_object"
    by (simp_all add: sample_platform_def) (simp add: tree_json_def)
  have inv: "sample_inv ((initial_sample ())\<lparr>evt_subs_index := 4\<rparr>)"
    by (simp add: sample_inv_def initial_sample_def SUBS_SIZE_def)
  note bound = sample_table_bound [OF J, of _ "[\<lparr>sr_name = ''Event'', sr_type = NOTIFICATION_TYPE_ON_CHANGE\<rparr>]" 1
      "example_sample_subscribe ''Event''" example_create]
  show ?thesis
    using bound [OF inv] bound [OF initial_sample_inv] req
    by (auto simp: initial_sample_def example_create_def SUBS_SIZE_def numeral_eq_Suc)
qed

section \<open>Link events reach the subscriber\<close>

lemma publish_loop_keeps_fds:
  assumes "send_keeps_fds (net P) own"
  shows "publish_loop P ev v ret blk s es = Inr (r, subs, s') \<Longrightarrow> own (world s') = own (world s)"
proof (induction es arbitrary: ret blk s r subs)
  case (Cons e es)
  show ?case
  proof (cases "starts_with (es_event e) ev")
    case True
    then obtain msg s1 where m: "create_publish_event_msg (json P) s ev v = Inr (msg, s1)"
      using Cons.prems by (auto simp: ebind_eq_Inr_iff)
    then have w: "world s1 = world s"
      by (auto simp: create_publish_event_msg_def get_sequence_number_def ebind_eq_Inr_iff Let_def split: option.splits if_splits)
    show ?thesis
    proof (cases msg)
      case None
      with Cons.prems True m w show ?thesis by simp
    next
      case (Some j)
      with Cons.prems True m obtain fd rc s2 ret' blk' r' rest' where
        "socket_send P s1 fd (Some j) = Inr (rc, s2)" "publish_loop P ev v ret' blk' s2 es = Inr (r', rest', s')"
        by (auto simp: ebind_eq_Inr_iff)
      with socket_send_keeps_fds [OF assms] Cons.IH w show ?thesis by metis
    qed
  qed (use Cons in \<open>auto simp: ebind_eq_Inr_iff\<close>)
qed simp

lemma publish_keeps_fds:
  assumes "send_keeps_fds (net P) own" and "\<not> blocking P"
    and "json_hal_server_publish_event P s ev v t0 polls = Inr (rc, s')"
  shows "own (world s') = own (world s)"
  using assms(2,3) publish_loop_keeps_fds [OF assms(1)]
  by (auto simp: publish_event_defs lock_subscriptions_def unlock_subscriptions_def ebind_eq_Inr_iff Let_def
      split: if_splits option.splits dest!: publish_loop_keeps_fds [OF assms(1)])

text \<open>What is published for a link event.\<close>

definition link_value :: "string \<Rightarrow> string" where
  "link_value ev = (if ev = DSL_LINK_EVENT then LINK_UP else LINK_DOWN)"

lemma link_names:
  assumes "ev \<in> {DSL_LINK_EVENT, ETH_LINK_EVENT}"
  shows "nul_free ev" "length ev < 512"
  using assms by auto

lemma dispatch_link_entry:
  assumes "ev \<in> {DSL_LINK_EVENT, ETH_LINK_EVENT}" and "sr_name (gsubs_event_list (world s) ! i) = ev"
  shows "dispatch_entry P s i t0 polls = ebind (json_hal_server_publish_event P s ev (Some (link_value ev)) t0 polls) (\<lambda>(_, s). Inr s)"
  using assms link_names [OF assms(1)]
  by (auto simp: dispatch_entry_def strcmp_eq_def link_value_def)

lemma publish_to_one:
  assumes "sends_ok P" and "\<not> blocking P" and "\<not> subscription_mutex s" and "0 \<le> g_seqnumber s" "g_seqnumber s < INT_MAX"
    and "subscribers ev (g_event_subscriptions_list s) = [e]"
  shows "\<exists>rc s'. json_hal_server_publish_event P s ev (Some v) t0 polls = Inr (rc, s')
    \<and> addressed (sent s') = addressed (sent s) @
        [(es_fd e, publish_event_body (json P) (g_server_config s) (g_seqnumber s + 1) ev v)]
    \<and> g_event_subscriptions_list s' = g_event_subscriptions_list s \<and> \<not> subscription_mutex s'
    \<and> g_server_config s' = g_server_config s \<and> g_seqnumber s' = g_seqnumber s + 1"
  using publish_plain [OF assms(1-4), of ev v t0 polls] assms(5,6) by auto

text \<open>A subscription request at the sample server, up to the reply. The schema check, if there is one, accepts
  the reply.\<close>

definition schema_accepts :: "('j, 't, 'w, 's, 'v) platform \<Rightarrow> ('j, 'w, 'v) server \<Rightarrow> bool" where
  "schema_accepts P s \<longleftrightarrow> (\<forall>s' j. validator s' = validator s \<longrightarrow> reply_validates P s' j = Inr True)"

lemma schema_accepts_cong: "validator s' = validator s \<Longrightarrow> schema_accepts P s' = schema_accepts P s"
  by (simp add: schema_accepts_def)

lemma schema_accepts_plain: "\<not> validation P \<Longrightarrow> schema_accepts P s"
  by (simp add: schema_accepts_def reply_validates_def)

definition subscription_request :: "('j, 't, 'w, 's, 'v) platform \<Rightarrow> 'j \<Rightarrow> hal_subscribe_event_request_t \<Rightarrow> bool" where
  "subscription_request P jobj req \<longleftrightarrow> (\<exists>req_id. request_is (json P) jobj req_id ''subscribeEvent'' \<and> length req_id < 64)
     \<and> request_param_count (json P) jobj = Inr 1 \<and> json_hal_get_subscribe_event_request P (Some jobj) 0 = Inr (RETURN_OK, req)"

abbreviation table :: "'w sample \<Rightarrow> hal_subscribe_event_request_t list \<times> int" where
  "table w \<equiv> (gsubs_event_list w, evt_subs_index w)"

lemma sample_subscribes:
  assumes "server_main P fs create created argv w0 = Inr (Running (s0, th))"
    and "g_hal_functions_list s = g_hal_functions_list s0" and "sends_ok P" and "send_keeps_fds (net P) table"
    and "schema_accepts P s" and "subscription_request P jobj req" and "length (sr_name req) < 512"
    and "sample_inv (world s)" and "evt_subs_index (world s) < 4" and "\<not> subscription_mutex s"
  shows "\<exists>j s1. process_request P s fd jobj = Inr (Continue, s1, 0) \<and> addressed (sent s1) = addressed (sent s) @ [(fd, j)]
    \<and> table (world s1) = table (stored (world s) [req])
    \<and> g_event_subscriptions_list s1 = g_event_subscriptions_list s @
        [\<lparr>es_fd = fd, es_event = sr_name req, es_event_type = sr_type req, es_req_id = '''', es_status = NO_EVENT_MSG\<rparr>]
    \<and> \<not> subscription_mutex s1 \<and> g_seqnumber s1 = g_seqnumber s \<and> g_server_config s1 = g_server_config s
    \<and> g_hal_functions_list s1 = g_hal_functions_list s \<and> validator s1 = validator s"
proof -
  let ?J = "json P" and ?w = "world s"
  obtain req_id where id: "request_is ?J jobj req_id ''subscribeEvent''" "length req_id < 64"
    and n: "request_param_count ?J jobj = Inr 1" and sub: "json_hal_get_subscribe_event_request P (Some jobj) 0 = Inr (RETURN_OK, req)"
    using assms(6) by (auto simp: subscription_request_def)
  let ?header = "prepare_json_response_header ?J (g_server_config s) ''subscribeEvent'' req_id"
  let ?j = "jc_object_add ?J ?header JSON_RPC_FILED_RESULT (status_object ?J JSON_RPC_STATUS_SUCCESS)"
  let ?w' = "if evt_thread_started ?w then stored ?w [req] else snd (start_event_dispatch_thread create (stored ?w [req]))"
  have J: "json_c_ok ?J" using assms(3) by simp
  have cb: "subs_event_cb P create ?w (Some jobj) (int 1) (Some ?header) = Inr (RETURN_OK, Some ?j, ?w')"
    using subs_event_stores [OF J response_header_id(2) [OF J] assms(8), of "[req]" 1 jobj create "g_server_config s" "''subscribeEvent''" req_id]
      sub assms(9) by simp
  have "(''subscribeEvent'', Some (rpc_callback (subs_event_cb P create))) \<in> set (sample_callbacks P create)"
    by (simp add: sample_callbacks_def)
  from registered_cb [OF main_serves(1) [OF assms(1)] assms(2) this] cb id n assms(3)
  have run: "callback_runs P s jobj req_id ''subscribeEvent'' RETURN_OK ?j ?w'"
    unfolding callback_runs_def run_callback_def rpc_callback_def by auto
  have ok: "reply_validates P (s\<lparr>world := ?w'\<rparr>) ?j = Inr True" using assms(5) by (simp add: schema_accepts_def)
  obtain rc s1 where s1: "socket_send P (s\<lparr>world := ?w'\<rparr>) fd (Some ?j) = Inr (rc, s1)" "sent_one s fd ?j s1"
    "process_request P s fd jobj = Inr (Continue, s1\<lparr>g_event_subscriptions_list := g_event_subscriptions_list s @
       [\<lparr>es_fd = fd, es_event = sr_name req, es_event_type = sr_type req, es_req_id = '''', es_status = NO_EVENT_MSG\<rparr>]\<rparr>, 0)"
    using process_subscribe [OF run ok _ sub assms(7,10), of fd] by auto
  have "table (world s1) = table ?w'" using socket_send_keeps_fds [OF assms(4) s1(1)] by simp
  also have "\<dots> = table (stored ?w [req])" by (simp add: start_event_dispatch_thread_def case_prod_beta)
  finally show ?thesis
    using s1(3) sent_oneD [OF s1(2)] sent_one_keeps [OF s1(2)] assms(10) by auto
qed

text \<open>One round of the event thread for a client that has subscribed to the two link events.\<close>

lemma dispatch_link_events:
  assumes "sends_ok P" and "\<not> blocking P" and "send_keeps_fds (net P) table" and "\<not> subscription_mutex s"
    and "0 \<le> g_seqnumber s" "g_seqnumber s < INT_MAX - 1"
    and "sr_name (gsubs_event_list (world s) ! 0) = DSL_LINK_EVENT" "sr_name (gsubs_event_list (world s) ! 1) = ETH_LINK_EVENT"
    and "map es_fd (g_event_subscriptions_list s) = [fd, fd]"
      "map es_event (g_event_subscriptions_list s) = [DSL_LINK_EVENT, ETH_LINK_EVENT]"
  shows "\<exists>s'. dispatch_round P s t0 polls = Inr s' \<and> addressed (sent s') = addressed (sent s) @
    [(fd, publish_event_body (json P) (g_server_config s) (g_seqnumber s + 1) DSL_LINK_EVENT ''Up''),
     (fd, publish_event_body (json P) (g_server_config s) (g_seqnumber s + 2) ETH_LINK_EVENT ''Down'')]"
proof -
  let ?D = "DSL_LINK_EVENT" and ?E = "ETH_LINK_EVENT"
  obtain d e where de: "g_event_subscriptions_list s = [d, e]" "es_fd d = fd" "es_fd e = fd" "es_event d = ?D" "es_event e = ?E"
    using assms(9,10) by (auto simp: map_eq_Cons_conv)
  have one: "subscribers ?D [d, e] = [d]" "subscribers ?E [d, e] = [e]" using de(4,5) by simp_all
  obtain rc1 s1 where s1: "json_hal_server_publish_event P s ?D (Some (link_value ?D)) (t0 0) (polls 0) = Inr (rc1, s1)"
    "addressed (sent s1) = addressed (sent s) @ [(fd, publish_event_body (json P) (g_server_config s) (g_seqnumber s + 1) ?D (link_value ?D))]"
    "g_event_subscriptions_list s1 = [d, e]" "\<not> subscription_mutex s1" "g_server_config s1 = g_server_config s" "g_seqnumber s1 = g_seqnumber s + 1"
    using publish_to_one [OF assms(1,2,4,5), of ?D d "link_value ?D" "t0 0" "polls 0"] assms(6) de(1,2) one(1) by auto
  obtain rc2 s2 where s2: "json_hal_server_publish_event P s1 ?E (Some (link_value ?E)) (t0 1) (polls 1) = Inr (rc2, s2)"
    "addressed (sent s2) = addressed (sent s1) @ [(fd, publish_event_body (json P) (g_server_config s) (g_seqnumber s + 2) ?E (link_value ?E))]"
    using publish_to_one [OF assms(1,2) s1(4), of ?E e "link_value ?E" "t0 1" "polls 1"] assms(5,6) s1(3,5,6) de(3) one(2) by (auto simp: add.commute)
  have "table (world s1) = table (world s)" by (rule publish_keeps_fds [OF assms(3,2) s1(1)])
  then have "dispatch_entry P s1 1 (t0 1) (polls 1) = Inr s2"
    using dispatch_link_entry [of ?E s1 1 P "t0 1" "polls 1"] assms(8) s2(1) by simp
  moreover have "dispatch_entry P s 0 (t0 0) (polls 0) = Inr s1"
    using dispatch_link_entry [of ?D s 0 P "t0 0" "polls 0"] assms(7) s1(1) by simp
  ultimately show ?thesis using s1(2) s2(2) by (simp add: dispatch_round_def link_value_def)
qed

text \<open>The whole way at the server: two subscriptions and a round.\<close>

lemma sample_link_events:
  assumes "server_main P fs create created argv (initial_sample u) = Inr (Running (s, th))"
    and "sends_ok P" and "\<not> blocking P" and "send_keeps_fds (net P) table" and "schema_accepts P s"
    and "subscription_request P jd \<lparr>sr_name = DSL_LINK_EVENT, sr_type = td\<rparr>"
    and "subscription_request P je \<lparr>sr_name = ETH_LINK_EVENT, sr_type = te\<rparr>"
  shows "\<exists>s1 s2 s3 r1 r2. process_request P s fd jd = Inr (Continue, s1, 0) \<and> process_request P s1 fd je = Inr (Continue, s2, 0)
    \<and> dispatch_round P s2 t0 polls = Inr s3
    \<and> addressed (sent s3) = [(fd, r1), (fd, r2),
        (fd, publish_event_body (json P) (g_server_config s) 101 DSL_LINK_EVENT ''Up''),
        (fd, publish_event_body (json P) (g_server_config s) 102 ETH_LINK_EVENT ''Down'')]"
proof -
  note m = main_serves [OF assms(1)]
  let ?d = "\<lparr>sr_name = DSL_LINK_EVENT, sr_type = td\<rparr>" and ?e = "\<lparr>sr_name = ETH_LINK_EVENT, sr_type = te\<rparr>"
  have w: "sample_inv (world s)" "evt_subs_index (world s) < 4" by (simp_all add: m(2)) (simp add: initial_sample_def)
  obtain r1 s1 where s1: "process_request P s fd jd = Inr (Continue, s1, 0)" "addressed (sent s1) = [(fd, r1)]"
    "table (world s1) = table (stored (world s) [?d])" "\<not> subscription_mutex s1" "g_seqnumber s1 = 100"
    "g_server_config s1 = g_server_config s" "g_hal_functions_list s1 = g_hal_functions_list s" "validator s1 = validator s"
    "g_event_subscriptions_list s1 = [\<lparr>es_fd = fd, es_event = DSL_LINK_EVENT, es_event_type = td, es_req_id = '''', es_status = NO_EVENT_MSG\<rparr>]"
    using sample_subscribes [OF assms(1) HOL.refl assms(2,4,5,6) _ w m(5), of fd] m(3,4,6) by (auto simp: config_defs)
  have tab1: "gsubs_event_list (world s1) = ?d # replicate 4 \<lparr>sr_name = '''', sr_type = NOTIFICATION_TYPE_ON_CHANGE\<rparr>" "evt_subs_index (world s1) = 0"
    using s1(3) by (simp_all add: m(2) stored_def initial_sample_def SUBS_SIZE_def)
  then have w1: "sample_inv (world s1)" "evt_subs_index (world s1) < 4" by (simp_all add: sample_inv_def SUBS_SIZE_def)
  have acc: "schema_accepts P s1" using assms(5) schema_accepts_cong [OF s1(8)] by blast
  obtain r2 s2 where s2: "process_request P s1 fd je = Inr (Continue, s2, 0)" "addressed (sent s2) = [(fd, r1), (fd, r2)]"
    "table (world s2) = table (stored (world s1) [?e])" "\<not> subscription_mutex s2" "g_seqnumber s2 = 100" "g_server_config s2 = g_server_config s"
    "map es_fd (g_event_subscriptions_list s2) = [fd, fd]" "map es_event (g_event_subscriptions_list s2) = [DSL_LINK_EVENT, ETH_LINK_EVENT]"
    using sample_subscribes [OF assms(1) s1(7) assms(2,4) acc assms(7) _ w1 s1(4), of fd] s1 by auto
  have "sr_name (gsubs_event_list (world s2) ! 0) = DSL_LINK_EVENT" "sr_name (gsubs_event_list (world s2) ! 1) = ETH_LINK_EVENT"
    using s2(3) by (simp_all add: tab1 stored_def)
  from dispatch_link_events [OF assms(2-4) s2(4) _ _ this s2(7,8), of t0 polls] s1(1) s2(1,2,5,6) show ?thesis
    by (auto simp: config_defs)
qed

end
