(* ===== verification/Hal_Client.thy ===== *)
theory Hal_Client
  imports Hal_Server "HOL-Library.Signed_Division"
begin

text \<open>
  \<^verbatim>\<open>json_hal_client.c\<close>: the HAL client library. A request is a node
  (\<^verbatim>\<open>request_msg_tracking_t\<close>) owned by the thread that waits for the reply and linked
  into a global list by which the socket thread finds it. Because a node leaves the list
  before its owner reads and frees it, the model keeps the nodes in a store and the list as
  a list of addresses; reading a freed node is a fault.

  \<^verbatim>\<open>client_send_and_get_reply\<close> blocks in the middle. It is modelled by its two halves:
  \<open>send_request\<close> up to \<^verbatim>\<open>pthread_cond_wait\<close>, and \<open>collect_reply\<close> from there on.
  The requester holds the lock of its node from its creation to the wait, and whoever signals
  takes that lock first, so a signal always finds the requester waiting.
\<close>

abbreviation (input) SEND_MSG_TICKER_TIMEOUT :: int where "SEND_MSG_TICKER_TIMEOUT \<equiv> (40::int)"
abbreviation (input) LOOP_TIMEOUT :: int where "LOOP_TIMEOUT \<equiv> (250000::int)"

section \<open>Data\<close>

record request_msg_tracking_t =
  sequence :: int
  rq_buffer :: string
  rq_len :: int
  rq_rc :: int
  ticker :: int

text \<open>A registered callback is the application's code: it sees the text of the event and its length,
  may change the outside world, and may fault.\<close>

type_synonym 'w event_callback = "'w \<Rightarrow> string \<Rightarrow> int \<Rightarrow> 'w cres"

record 'w event_tracking_t =
  event_name :: string
  event_notification_type :: string
  event_cb :: "'w event_callback option"

text \<open>The globals of the file. \<open>nodes\<close> is the store of requests, \<open>next_node\<close> the address
  the next allocation returns, \<open>signalled\<close> the nodes whose condition was signalled;
  \<open>client_sent\<close> records the messages handed to the send routine.\<close>

record ('j, 'w) client =
  g_connected :: bool
  g_req_id :: int
  g_hal_client_config :: hal_config_t
  client_sock :: int
  client_port :: int
  client_running :: bool
  nodes :: "nat \<rightharpoonup> request_msg_tracking_t"
  next_node :: nat
  g_request_msg_tracking :: "nat list"
  signalled :: "nat set"
  g_event_tracking :: "'w event_tracking_t list"
  client_world :: 'w
  client_sent :: "'j list"

definition initial_client :: "'w \<Rightarrow> ('j, 'w) client" where
  "initial_client w = \<lparr>g_connected = False, g_req_id = DEFAULT_SEQ_START_NUMBER,
     g_hal_client_config = zero_config, client_sock = 0, client_port = 0, client_running = False,
     nodes = Map.empty, next_node = 0, g_request_msg_tracking = [], signalled = {},
     g_event_tracking = [], client_world = w, client_sent = []\<rparr>"

text \<open>Reading a node.\<close>

definition node :: "('j, 'w) client \<Rightarrow> nat \<Rightarrow> request_msg_tracking_t cres" where
  "node c a = (case nodes c a of None \<Rightarrow> Inl Use_After_Free | Some r \<Rightarrow> Inr r)"

section \<open>Connection state\<close>

definition json_hal_client_init ::
  "'j json_c \<Rightarrow> files \<Rightarrow> ('j, 'w) client \<Rightarrow> string option \<Rightarrow> (int \<times> ('j, 'w) client) cres" where
  "json_hal_client_init J fs c hal_conf_path =
     (case hal_conf_path of
        None \<Rightarrow> Inr (RETURN_ERR, c)
      | Some path \<Rightarrow>
          ebind (json_hal_load_config J fs (Some path) (Some (g_hal_client_config c))) (\<lambda>(ret, cfg).
            let c = (case cfg of None \<Rightarrow> c | Some cfg' \<Rightarrow> c\<lparr>g_hal_client_config := cfg'\<rparr>) in
            if ret \<noteq> RETURN_OK then Inr (ret, c)
            else Inr (ret, c\<lparr>g_hal_client_config := (g_hal_client_config c)\<lparr>request_timeout_period := int IDLE_TIMEOUT_PERIOD\<rparr>,
                             client_port := server_port_number (g_hal_client_config c)\<rparr>)))"

definition client_connected :: "('j, 'w) client \<Rightarrow> int \<Rightarrow> int \<times> ('j, 'w) client" where
  "client_connected c fd = (RETURN_OK, c\<lparr>g_connected := True\<rparr>)"

definition client_disconnected :: "('j, 'w) client \<Rightarrow> int \<Rightarrow> int \<times> ('j, 'w) client" where
  "client_disconnected c fd = (RETURN_OK, c\<lparr>g_connected := False\<rparr>)"

definition json_hal_is_client_connected :: "('j, 'w) client \<Rightarrow> bool" where
  "json_hal_is_client_connected c = g_connected c"

section \<open>Messages\<close>

definition get_req_id :: "('j, 'w) client \<Rightarrow> (int \<times> ('j, 'w) client) cres" where
  "get_req_id c =
     (if g_req_id c = INT_MAX then Inl Signed_Overflow
      else
        (let n = g_req_id c + 1;
             n' = (if n > INT_MAX then DEFAULT_SEQ_START_NUMBER else n)
         in Inr (n', c\<lparr>g_req_id := n'\<rparr>)))"

definition json_hal_client_get_request_header ::
  "'j json_c \<Rightarrow> ('j, 'w) client \<Rightarrow> string option \<Rightarrow> ('j option \<times> ('j, 'w) client) cres" where
  "json_hal_client_get_request_header J c action_name =
     (case action_name of
        None \<Rightarrow> Inr (None, c)
      | Some action \<Rightarrow>
          ebind (get_req_id c) (\<lambda>(req_id, c).
          ebind (strcpy 17 (show_8_8d req_id)) (\<lambda>id.
          let jmsg = jc_object_add J (jc_object_add J (message_header J (g_hal_client_config c))
                JSON_RPC_FIELD_ID (jc_new_string J id))
                JSON_RPC_FIELD_ACTION (jc_new_string J action)
          in Inr (Some (if \<not> starts_with action JSON_RPC_ACTION_GET_SCHEMA
                        then jc_object_add J jmsg JSON_RPC_FIELD_PARAMS (jc_new_array J)
                        else jmsg), c))))"

text \<open>\<^verbatim>\<open>json_object_array_add\<close> on the member \<open>k\<close> of a message, in place.\<close>

definition arr_add :: "'j json_c \<Rightarrow> 'j \<Rightarrow> string \<Rightarrow> 'j option \<Rightarrow> 'j \<Rightarrow> 'j cres" where
  "arr_add J jmsg k p v = (case p of
     Some a \<Rightarrow> if jc_type J a = json_type_array then Inr (jc_update_member J jmsg k (jc_array_add J a v)) else Inl Json_Assert
   | None \<Rightarrow> Inl Json_Assert)"

definition create_event_subscription_message ::
  "'j json_c \<Rightarrow> ('j, 'w) client \<Rightarrow> string \<Rightarrow> string \<Rightarrow> ('j option \<times> ('j, 'w) client) cres" where
  "create_event_subscription_message J c event_dml_path notification =
     ebind (json_hal_client_get_request_header J c (Some JSON_RPC_SUBSCRIBE_EVENT_ACTION_NAME)) (\<lambda>(jsubs_msg, c).
       case jsubs_msg of
         None \<Rightarrow> Inr (None, c)
       | Some jmsg \<Rightarrow>
           let jobj = jc_object_add J (jc_object_add J (jc_new_object J)
                 JSON_RPC_FIELD_PARAM_NAME (jc_new_string J event_dml_path))
                 JSON_RPC_FIELD_PARAM_NOTIFICATION_TYPE (jc_new_string J notification)
           in case get_ex J (Some jmsg) JSON_RPC_FIELD_PARAMS of
                Some jparams \<Rightarrow>
                  ebind (arr_add J jmsg JSON_RPC_FIELD_PARAMS jparams jobj) (\<lambda>m. Inr (Some m, c))
              | None \<Rightarrow>
                  Inr (Some (jc_object_add J jmsg JSON_RPC_FIELD_PARAMS (jc_array_add J (jc_new_array J) jobj)), c))"

text \<open>The reply to a blocking event.\<close>

definition create_json_reply_event_msg ::
  "'j json_c \<Rightarrow> hal_config_t \<Rightarrow> string \<Rightarrow> string \<Rightarrow> response_msg_type_t \<Rightarrow> 'j" where
  "create_json_reply_event_msg J cfg event req_id type =
     jc_object_add J (jc_object_add J (jc_object_add J (jc_object_add J (message_header J cfg)
       JSON_RPC_FIELD_ACTION (jc_new_string J JSON_RPC_ACTION_RESULT))
       JSON_RPC_FIELD_ID (jc_new_string J req_id))
       JSON_RPC_FIELD_PARAMS (jc_array_add J (jc_new_array J)
         (jc_object_add J (jc_new_object J) JSON_RPC_FIELD_PARAM_NAME (jc_new_string J event))))
       JSON_RPC_FILED_RESULT (status_object J (status_text type))"

definition json_message_send ::
  "'j json_c \<Rightarrow> 'w os \<Rightarrow> ('j, 'w) client \<Rightarrow> 'j option \<Rightarrow> (int \<times> ('j, 'w) client) cres" where
  "json_message_send J os c jmsg =
     (case jmsg of
        None \<Rightarrow> Inr (RETURN_ERR, c)
      | Some j \<Rightarrow>
          (case jc_to_string J j of
             None \<Rightarrow> Inr (RETURN_ERR, c)
           | Some b \<Rightarrow>
               if client_running c
               then ebind (json_rpc_client_send_data os (client_world c) (client_sock c) (Some b)) (\<lambda>(rc, n, w).
                 Inr (rc, c\<lparr>client_world := w, client_sent := client_sent c @ [j]\<rparr>))
               else Inr (RETURN_ERR, c)))"

definition json_hal_get_result_status :: "'j json_c \<Rightarrow> 'j option \<Rightarrow> (int \<times> bool option) cres" where
  "json_hal_get_result_status J jobj =
     (case jobj of
        None \<Rightarrow> Inr (RETURN_ERR, None)
      | Some j \<Rightarrow>
          (case get_ex J (Some j) JSON_RPC_FILED_RESULT of
             None \<Rightarrow> Inr (RETURN_ERR, None)
           | Some jresult \<Rightarrow>
               (case get_ex J jresult JSON_RPC_PARAM_STATUS_FIELD of
                  None \<Rightarrow> Inr (RETURN_ERR, None)
                | Some jstatus \<Rightarrow>
                    ebind (get_str J jstatus) (\<lambda>result.
                      Inr (RETURN_OK, Some (starts_with result JSON_RPC_STATUS_SUCCESS))))))"

definition json_hal_get_total_param_count :: "'j json_c \<Rightarrow> 'j option \<Rightarrow> nat cres" where
  "json_hal_get_total_param_count J json_msg =
     (case get_ex J json_msg JSON_RPC_FIELD_PARAMS of
        None \<Rightarrow> Inr 0
      | Some jparams \<Rightarrow> arr_length J jparams)"

section \<open>Tracking requests\<close>

text \<open>The number a request is tracked by: its id read as a hexadecimal number.\<close>

definition id_sequence :: "string \<Rightarrow> int" where
  "id_sequence req = to_int (strtol req 16)"

text \<open>The search for the first node with a sequence number.\<close>

fun find_node :: "('j, 'w) client \<Rightarrow> int \<Rightarrow> nat list \<Rightarrow> nat option cres" where
  "find_node c seq [] = Inr None"
| "find_node c seq (a # as) =
     ebind (node c a) (\<lambda>rpc. if sequence rpc = seq then Inr (Some a) else find_node c seq as)"

definition request_delete_cb :: "('j, 'w) client \<Rightarrow> int \<Rightarrow> ('j, 'w) client cres" where
  "request_delete_cb c seq =
     ebind (find_node c seq (g_request_msg_tracking c)) (\<lambda>r.
       Inr (case r of
              None \<Rightarrow> c
            | Some a \<Rightarrow> c\<lparr>g_request_msg_tracking := remove1 a (g_request_msg_tracking c)\<rparr>))"

text \<open>One pass over the list by the socket thread: every ticker is decremented, and a request
  whose ticker has run out is unlinked, marked as failed and its owner woken.\<close>

fun tick_loop :: "('j, 'w) client \<Rightarrow> nat list \<Rightarrow> ('j, 'w) client cres" where
  "tick_loop c [] = Inr c"
| "tick_loop c (a # as) =
     ebind (node c a) (\<lambda>rpc.
       let rpc = rpc\<lparr>ticker := ticker rpc - 1\<rparr> in
       if ticker rpc \<le> 0
       then tick_loop (c\<lparr>g_request_msg_tracking := remove1 a (g_request_msg_tracking c),
                          nodes := (nodes c)(a \<mapsto> rpc\<lparr>rq_rc := RETURN_ERR, rq_len := INVALD_LENGTH\<rparr>),
                          signalled := insert a (signalled c)\<rparr>) as
       else tick_loop (c\<lparr>nodes := (nodes c)(a \<mapsto> rpc)\<rparr>) as)"

definition request_tracking_cb :: "('j, 'w) client \<Rightarrow> ('j, 'w) client cres" where
  "request_tracking_cb c = tick_loop c (g_request_msg_tracking c)"

definition request_idle_cb :: "('j, 'w) client \<Rightarrow> (int \<times> ('j, 'w) client) cres" where
  "request_idle_cb c = ebind (request_tracking_cb c) (\<lambda>c. Inr (RETURN_OK, c))"

text \<open>The reply to a request: the node it belongs to gets the received bytes.\<close>

definition deliver_response :: "('j, 'w) client \<Rightarrow> int \<Rightarrow> string \<Rightarrow> int \<Rightarrow> ('j, 'w) client cres" where
  "deliver_response c seq buffer len =
     ebind (find_node c seq (g_request_msg_tracking c)) (\<lambda>r.
       case r of
         None \<Rightarrow> Inr c
       | Some a \<Rightarrow>
           ebind (node c a) (\<lambda>rpc.
             if len + 1 > int MAX_BUFFER_SIZE then Inl Buffer_Overflow
             else Inr (c\<lparr>g_request_msg_tracking := remove1 a (g_request_msg_tracking c),
                    nodes := (nodes c)(a \<mapsto> rpc\<lparr>rq_buffer := strncpy (nat len) buffer, rq_rc := RETURN_OK, rq_len := len\<rparr>),
                    signalled := insert a (signalled c)\<rparr>)))"

section \<open>Sending a request\<close>

text \<open>Up to the wait: \<open>Inr (Some a, c)\<close> when the caller now waits on node \<open>a\<close>, and
  \<open>Inr (None, c)\<close> when the call has returned \<^verbatim>\<open>RETURN_ERR\<close>.\<close>

definition send_request ::
  "'j json_c \<Rightarrow> 'w os \<Rightarrow> ('j, 'w) client \<Rightarrow> 'j option \<Rightarrow> int \<Rightarrow> (nat option \<times> ('j, 'w) client) cres" where
  "send_request J os c jrequest_msg tick_timeout =
     (case jrequest_msg of
        None \<Rightarrow> Inr (None, c)
      | Some jmsg \<Rightarrow>
          (case get_ex J (Some jmsg) JSON_RPC_FIELD_ID of
             None \<Rightarrow> Inr (None, c)
           | Some jid \<Rightarrow>
               ebind (get_str J jid) (\<lambda>id.
               let a = next_node c;
                   rpc = \<lparr>sequence = id_sequence id, rq_buffer = '''', rq_len = 0, rq_rc = RETURN_ERR, ticker = tick_timeout\<rparr>;
                   c = c\<lparr>nodes := (nodes c)(a \<mapsto> rpc), next_node := Suc a,
                         g_request_msg_tracking := g_request_msg_tracking c @ [a]\<rparr>
               in
                 ebind (json_message_send J os c (Some jmsg)) (\<lambda>(rc, c).
                   if rc \<noteq> RETURN_OK
                   then ebind (request_delete_cb c (id_sequence id)) (\<lambda>c.
                     Inr (None, c\<lparr>nodes := (nodes c)(a := None)\<rparr>))
                   else Inr (Some a, c)))))"

text \<open>After the wake-up: the return code and the parsed reply. The caller's pointer is left
  alone when the request failed, which is the outer \<open>None\<close>.\<close>

definition collect_reply ::
  "'j json_c \<Rightarrow> ('j, 'w) client \<Rightarrow> nat \<Rightarrow> (int \<times> 'j option option \<times> ('j, 'w) client) cres" where
  "collect_reply J c a =
     ebind (node c a) (\<lambda>rpc.
     ebind (request_delete_cb c (sequence rpc)) (\<lambda>c.
     ebind (if rq_rc rpc \<ge> 0
            then ebind (read_buf MAX_BUFFER_SIZE (rq_buffer rpc)) (\<lambda>b. Inr (Some (jc_parse J b)))
            else Inr None) (\<lambda>reply.
       Inr (rq_rc rpc, reply, c\<lparr>nodes := (nodes c)(a := None), signalled := signalled c - {a}\<rparr>))))"

text \<open>The two public entry points differ in the number of ticks; the division is that of C.\<close>

definition timeout_ticks :: "int \<Rightarrow> int cres" where
  "timeout_ticks timeout =
     (if \<not> int_range (timeout * 1000000) then Inl Signed_Overflow
      else
        (let tick = (timeout * 1000000) sdiv LOOP_TIMEOUT in
         Inr (if tick < SEND_MSG_TICKER_TIMEOUT then SEND_MSG_TICKER_TIMEOUT else if tick > 480 then 480 else tick)))"

definition json_hal_client_send_and_get_reply_with_timeout ::
  "'j json_c \<Rightarrow> 'w os \<Rightarrow> ('j, 'w) client \<Rightarrow> 'j option \<Rightarrow> int \<Rightarrow> (nat option \<times> ('j, 'w) client) cres" where
  "json_hal_client_send_and_get_reply_with_timeout J os c jrequest_msg timeout =
     ebind (timeout_ticks timeout) (\<lambda>tick. send_request J os c jrequest_msg tick)"

definition json_hal_client_send_and_get_reply ::
  "'j json_c \<Rightarrow> 'w os \<Rightarrow> ('j, 'w) client \<Rightarrow> 'j option \<Rightarrow> (nat option \<times> ('j, 'w) client) cres" where
  "json_hal_client_send_and_get_reply J os c jrequest_msg = send_request J os c jrequest_msg SEND_MSG_TICKER_TIMEOUT"

section \<open>Subscribing to an event\<close>

text \<open>Up to the wait for the reply to the subscription request.\<close>

definition subscribe_event_request ::
  "'j json_c \<Rightarrow> 'w os \<Rightarrow> ('j, 'w) client \<Rightarrow> string option \<Rightarrow> string option
   \<Rightarrow> (nat option \<times> ('j, 'w) client) cres" where
  "subscribe_event_request J os c event_path_name notification =
     (case (event_path_name, notification) of
        (Some path, Some ty) \<Rightarrow>
          ebind (create_event_subscription_message J c path ty) (\<lambda>(jsubs_msg, c).
            case jsubs_msg of
              None \<Rightarrow> Inr (None, c)
            | Some m \<Rightarrow> json_hal_client_send_and_get_reply J os c (Some m))
      | _ \<Rightarrow> Inr (None, c))"

text \<open>After the wake-up: the subscription is stored unless the request failed. What the reply
  says is not looked at.\<close>

definition subscribe_event_reply ::
  "'j json_c \<Rightarrow> ('j, 'w) client \<Rightarrow> nat \<Rightarrow> 'w event_callback option \<Rightarrow> string \<Rightarrow> string
   \<Rightarrow> (int \<times> ('j, 'w) client) cres" where
  "subscribe_event_reply J c a eventcb path ty =
     ebind (collect_reply J c a) (\<lambda>(rc, reply, c).
       if rc < 0 then Inr (RETURN_ERR, c)
       else Inr (RETURN_OK, c\<lparr>g_event_tracking := g_event_tracking c @
         [\<lparr>event_name = strncpy BUF_512 path, event_notification_type = strncpy BUF_512 ty, event_cb = eventcb\<rparr>]\<rparr>))"

section \<open>Receiving\<close>

text \<open>The answer of the blocking build to an event, inside the loop over the subscriptions. The
  second component counts the references left on the event message, which this code releases
  when the message has no id.\<close>

definition answer_event ::
  "'j json_c \<Rightarrow> 'w os \<Rightarrow> ('j, 'w) client \<Rightarrow> 'j \<Rightarrow> string \<Rightarrow> nat \<Rightarrow> (('j, 'w) client \<times> nat) cres" where
  "answer_event J os c jobj ev refs =
     (case get_ex J (Some jobj) JSON_RPC_FIELD_ID of
        None \<Rightarrow> ebind (json_object_put refs) (\<lambda>refs. Inr (c, refs))
      | Some jid \<Rightarrow>
          ebind (get_str J jid) (\<lambda>id.
          ebind (read_buf BUF_64 (strncpy BUF_64 id)) (\<lambda>req_id.
          ebind (json_message_send J os c
                   (Some (create_json_reply_event_msg J (g_hal_client_config c) ev req_id RESPONSE_SUCCESS)))
            (\<lambda>(rc, c). Inr (c, refs)))))"

fun event_loop ::
  "'j json_c \<Rightarrow> 'w os \<Rightarrow> bool \<Rightarrow> ('j, 'w) client \<Rightarrow> 'j \<Rightarrow> string \<Rightarrow> nat \<Rightarrow> 'w event_tracking_t list
   \<Rightarrow> (('j, 'w) client \<times> nat) cres" where
  "event_loop J os blk c jobj ev refs [] = Inr (c, refs)"
| "event_loop J os blk c jobj ev refs (e # es) =
     (if starts_with (event_name e) ev
      then
        (case event_cb e of
           None \<Rightarrow> event_loop J os blk c jobj ev refs es
         | Some cb \<Rightarrow>
             if refs = 0 then Inl Use_After_Free
             else
               (case jc_to_string J jobj of
                  None \<Rightarrow> Inl Null_Deref
                | Some event_buf \<Rightarrow>
                    ebind (cb (client_world c) event_buf (int (length (cstr event_buf)))) (\<lambda>w.
                    let c = c\<lparr>client_world := w\<rparr> in
                    if blk
                    then ebind (answer_event J os c jobj ev refs) (\<lambda>(c, refs). event_loop J os blk c jobj ev refs es)
                    else event_loop J os blk c jobj ev refs es)))
      else event_loop J os blk c jobj ev refs es)"

definition process_event ::
  "'j json_c \<Rightarrow> 'w os \<Rightarrow> bool \<Rightarrow> ('j, 'w) client \<Rightarrow> 'j \<Rightarrow> nat \<Rightarrow> (('j, 'w) client \<times> nat) cres" where
  "process_event J os blk c jobj refs =
     (case get_ex J (Some jobj) JSON_RPC_FIELD_PARAMS of
        None \<Rightarrow> Inr (c, refs)
      | Some jparams \<Rightarrow>
          ebind (arr_get_idx J jparams JSON_RPC_PARAM_ARR_INDEX) (\<lambda>jparam.
          case get_ex J jparam JSON_RPC_FIELD_PARAM_NAME of
            None \<Rightarrow> Inr (c, refs)
          | Some jname \<Rightarrow>
              ebind (get_str J jname) (\<lambda>name.
              ebind (read_buf BUF_512 (strncpy BUF_512 name)) (\<lambda>ev.
                event_loop J os blk c jobj ev refs (g_event_tracking c)))))"

text \<open>One parsed message: \<open>True\<close> when the loop goes on, \<open>False\<close> for the early return with
  \<^verbatim>\<open>RETURN_ERR\<close>.\<close>

definition process_message ::
  "'j json_c \<Rightarrow> 'w os \<Rightarrow> bool \<Rightarrow> ('j, 'w) client \<Rightarrow> 'j \<Rightarrow> string \<Rightarrow> int \<Rightarrow> (bool \<times> ('j, 'w) client) cres" where
  "process_message J os blk c jobj buffer len =
     (case get_ex J (Some jobj) JSON_RPC_FIELD_ACTION of
        None \<Rightarrow> ebind (json_object_put 1) (\<lambda>_. Inr (True, c))
      | Some jaction \<Rightarrow>
          ebind (get_str J jaction) (\<lambda>action.
          if starts_with action JSON_RPC_PUBLISH_EVENT_ACTION_NAME
          then ebind (process_event J os blk c jobj 1) (\<lambda>(c, refs).
               ebind (json_object_put refs) (\<lambda>_. Inr (True, c)))
          else
            (case get_ex J (Some jobj) JSON_RPC_FIELD_ID of
               None \<Rightarrow> ebind (json_object_put 1) (\<lambda>_. Inr (False, c))
             | Some jid \<Rightarrow>
                 ebind (get_str J jid) (\<lambda>id.
                 ebind (deliver_response c (id_sequence id) buffer len) (\<lambda>c.
                 ebind (json_object_put 1) (\<lambda>_. Inr (True, c)))))))"

text \<open>The character the parser stopped at, NUL behind the expected end.\<close>

definition stopped_at :: "string \<Rightarrow> int \<Rightarrow> int \<Rightarrow> char" where
  "stopped_at buffer pos parse_end_expected =
     (if pos < parse_end_expected \<and> 0 \<le> pos \<and> nat pos < length buffer then buffer ! nat pos else CHR 0x00)"

text \<open>The loop. A turn either shortens the expected end (messages glued together: the parse is
  repeated with a new tokener on a shorter text) or advances the start; the theory
  \<open>Client_Receive\<close> says when the fuel suffices.\<close>

fun response_loop ::
  "nat \<Rightarrow> 'j json_c \<Rightarrow> ('j, 't) tokener \<Rightarrow> 'w os \<Rightarrow> bool \<Rightarrow> ('j, 'w) client \<Rightarrow> string \<Rightarrow> int \<Rightarrow> 't \<Rightarrow> int \<Rightarrow> int
   \<Rightarrow> (int \<times> ('j, 'w) client) cres" where
  "response_loop 0 J T os blk c buffer len t start_pos parse_end_expected = Inl No_Return"
| "response_loop (Suc fuel) J T os blk c buffer len t start_pos parse_end_expected =
     (if start_pos = len then Inr (RETURN_OK, c)
      else
        (case tok_parse_ex T t (drop (nat start_pos) buffer) (parse_end_expected - start_pos) of
           (t', jobj, jerr, parse_end) \<Rightarrow>
             if jobj = None \<and> jerr = json_tokener_error_parse_unexpected
                \<and> stopped_at buffer (start_pos + parse_end) parse_end_expected = CHR ''{''
             then
               (case tok_new T of
                  None \<Rightarrow> Inr (RETURN_ERR, c)
                | Some t'' \<Rightarrow> response_loop fuel J T os blk c buffer len t'' start_pos parse_end)
             else if jobj = None \<and> jerr \<noteq> json_tokener_continue then Inr (RETURN_ERR, c)
             else
               ebind (case jobj of None \<Rightarrow> Inr (True, c) | Some j \<Rightarrow> process_message J os blk c j buffer len)
                 (\<lambda>(go_on, c).
                   if \<not> go_on then Inr (RETURN_ERR, c)
                   else if start_pos + parse_end \<ge> len then Inr (RETURN_OK, c)
                   else response_loop fuel J T os blk c buffer len t' (start_pos + parse_end) len)))"

definition response_parse_cb ::
  "'j json_c \<Rightarrow> ('j, 't) tokener \<Rightarrow> 'w os \<Rightarrow> bool \<Rightarrow> ('j, 'w) client \<Rightarrow> string option \<Rightarrow> int
   \<Rightarrow> (int \<times> ('j, 'w) client) cres" where
  "response_parse_cb J T os blk c buffer len =
     (case buffer of
        None \<Rightarrow> Inr (RETURN_ERR, c)
      | Some b \<Rightarrow>
          (case tok_new T of
             None \<Rightarrow> Inr (RETURN_ERR, c)
           | Some t \<Rightarrow> response_loop (Suc (nat len) * Suc (Suc (nat len))) J T os blk c b len t 0 len))"

section \<open>Termination\<close>

text \<open>The nodes still linked are freed, whoever waits for them; \<open>await_stop\<close> is the polling
  loop both libraries share.\<close>

definition json_hal_client_terminate :: "('j, 'w) client \<Rightarrow> (nat \<Rightarrow> bool) \<Rightarrow> int \<times> nat \<times> ('j, 'w) client" where
  "json_hal_client_terminate c stopped =
     (let c = c\<lparr>client_running := False\<rparr>;
          polls = await_stop stopped 0 IDLE_TIMEOUT_PERIOD
      in (RETURN_OK, polls,
          c\<lparr>nodes := nodes c |` (- set (g_request_msg_tracking c)), g_request_msg_tracking := [], g_event_tracking := []\<rparr>))"

end
