(* ===== verification/Client_Requests.thy ===== *)
theory Client_Requests
  imports Hal_Client
begin

text \<open>
  The requests of a client: their ids, the tracking data and its invariant, replies, timeouts
  and the states a client can reach.
\<close>

section \<open>Request ids\<close>

lemma pad8_length: "length s \<le> 8 \<Longrightarrow> length (pad8 s) = 8"
  by (simp add: pad8_def)

lemma show_8_8d_eight:
  assumes "0 \<le> n" and "n < 100000000"
  shows "decimal (show_8_8d n)" and "length (show_8_8d n) = 8" and "digits_val 10 0 (show_8_8d n) = n"
proof -
  from assms have "nat n < 10 ^ Suc 7" by simp
  then have "length (show_nat (nat n)) \<le> Suc 7" by (rule show_nat_length)
  with assms show "decimal (show_8_8d n)" "length (show_8_8d n) = 8" "digits_val 10 0 (show_8_8d n) = n"
    by (simp_all add: show_8_8d_def pad8_length digits_val_show_nat)
qed

lemma id_sequence_eight:
  assumes "0 \<le> n" and "n < 100000000"
  shows "id_sequence (show_8_8d n) = to_int (digits_val 16 0 (show_8_8d n))"
    and "0 \<le> digits_val 16 0 (show_8_8d n)" and "digits_val 16 0 (show_8_8d n) < 4294967296"
proof -
  note s = show_8_8d_eight [OF assms]
  show b: "0 \<le> digits_val 16 0 (show_8_8d n)" "digits_val 16 0 (show_8_8d n) < 4294967296"
    using digits_val_bounds [OF s(1), of 16] s(2) by simp_all
  then have "long_range (digits_val 16 0 (show_8_8d n))"
    by (simp add: long_range_def config_defs)
  then show "id_sequence (show_8_8d n) = to_int (digits_val 16 0 (show_8_8d n))"
    by (simp add: id_sequence_def strtol_decimal [OF s(1)])
qed

lemma id_sequence_inject:
  assumes "0 \<le> n" "n < 100000000" "0 \<le> m" "m < 100000000"
    and "id_sequence (show_8_8d n) = id_sequence (show_8_8d m)"
  shows "n = m"
proof -
  note n = show_8_8d_eight [OF assms(1,2)] id_sequence_eight [OF assms(1,2)]
  note m = show_8_8d_eight [OF assms(3,4)] id_sequence_eight [OF assms(3,4)]
  have "digits_val 16 0 (show_8_8d n) = digits_val 16 0 (show_8_8d m)"
    using assms(5) n(4-6) m(4-6) by (simp add: to_int_cong)
  then have "show_8_8d n = show_8_8d m"
    using digits_val_inject [of 16 "show_8_8d n" "show_8_8d m"] n(1,2) m(1,2) by simp
  with n(3) m(3) show ?thesis by metis
qed

text \<open>The ids of successive headers.\<close>

lemma get_req_id_step:
  "g_req_id c < INT_MAX \<Longrightarrow> get_req_id c = Inr (g_req_id c + 1, c\<lparr>g_req_id := g_req_id c + 1\<rparr>)"
  by (simp add: get_req_id_def Let_def)

definition has_id :: "'j json_c \<Rightarrow> 'j \<Rightarrow> string \<Rightarrow> bool" where
  "has_id J j req \<longleftrightarrow> (\<exists>ji. jc_object_get_ex J j JSON_RPC_FIELD_ID = Some (Some ji) \<and> cstr (jc_get_string J ji) = req)"

lemma request_header_id:
  assumes "json_c_ok J" and "0 \<le> g_req_id c" and "g_req_id c < 99999999"
  shows "\<exists>j. json_hal_client_get_request_header J c (Some action) = Inr (Some j, c\<lparr>g_req_id := g_req_id c + 1\<rparr>)
    \<and> has_id J j (show_8_8d (g_req_id c + 1)) \<and> jc_type J j = json_type_object
    \<and> (jc_object_get_ex J j JSON_RPC_FIELD_ACTION = Some (Some (jc_new_string J action)))
    \<and> (\<not> starts_with action JSON_RPC_ACTION_GET_SCHEMA \<longrightarrow>
         jc_object_get_ex J j JSON_RPC_FIELD_PARAMS = Some (Some (jc_new_array J)))"
proof -
  let ?n = "g_req_id c + 1"
  have lim: "g_req_id c < INT_MAX" using assms(3) by (simp add: config_defs)
  have s: "decimal (show_8_8d ?n)" "length (show_8_8d ?n) = 8"
    using show_8_8d_eight [of ?n] assms(2,3) by simp_all
  then have "strcpy 17 (show_8_8d ?n) = Inr (show_8_8d ?n)" by simp
  then have eq: "json_hal_client_get_request_header J c (Some action) = Inr (Some (
      let jmsg = jc_object_add J (jc_object_add J (message_header J (g_hal_client_config c))
            JSON_RPC_FIELD_ID (jc_new_string J (show_8_8d ?n))) JSON_RPC_FIELD_ACTION (jc_new_string J action)
      in if \<not> starts_with action JSON_RPC_ACTION_GET_SCHEMA then jc_object_add J jmsg JSON_RPC_FIELD_PARAMS (jc_new_array J)
         else jmsg), c\<lparr>g_req_id := ?n\<rparr>)"
    by (simp add: json_hal_client_get_request_header_def get_req_id_step [OF lim] Let_def)
  show ?thesis
    unfolding eq by (cases "starts_with action JSON_RPC_ACTION_GET_SCHEMA") (simp_all add: assms(1) s has_id_def)
qed

text \<open>Numbers below one hundred million are told apart.\<close>

lemma request_ids_distinct:
  assumes "json_c_ok J" and "0 \<le> g_req_id c" and "g_req_id c < 99999998"
  shows "\<exists>j1 c1 j2 c2 id1 id2. json_hal_client_get_request_header J c (Some action1) = Inr (Some j1, c1)
    \<and> json_hal_client_get_request_header J c1 (Some action2) = Inr (Some j2, c2)
    \<and> has_id J j1 id1 \<and> has_id J j2 id2 \<and> length id1 = 8 \<and> length id2 = 8
    \<and> id_sequence id2 \<noteq> id_sequence id1
    \<and> (\<forall>m. 0 \<le> m \<and> m \<le> g_req_id c \<longrightarrow>
         id_sequence (show_8_8d m) \<noteq> id_sequence id1 \<and> id_sequence (show_8_8d m) \<noteq> id_sequence id2)"
proof -
  let ?c1 = "c\<lparr>g_req_id := g_req_id c + 1\<rparr>"
  obtain j1 where h1: "json_hal_client_get_request_header J c (Some action1) = Inr (Some j1, ?c1)"
    "has_id J j1 (show_8_8d (g_req_id c + 1))"
    using request_header_id [OF assms(1,2)] assms(3) by auto
  obtain j2 c2 where h2: "json_hal_client_get_request_header J ?c1 (Some action2) = Inr (Some j2, c2)"
    "has_id J j2 (show_8_8d (g_req_id c + 2))"
    using request_header_id [OF assms(1), of ?c1 action2] assms(2,3) by (auto simp: add.assoc)
  have neq: "id_sequence (show_8_8d a) \<noteq> id_sequence (show_8_8d b)"
    if "0 \<le> a" "a \<le> g_req_id c + 2" "0 \<le> b" "b \<le> g_req_id c + 2" "a \<noteq> b" for a b
    using id_sequence_inject [of a b] that assms(3) by auto
  have len: "length (show_8_8d (g_req_id c + 1)) = 8" "length (show_8_8d (g_req_id c + 2)) = 8"
    using show_8_8d_eight(2) assms(2,3) by simp_all
  have old: "\<forall>m. 0 \<le> m \<and> m \<le> g_req_id c \<longrightarrow>
      id_sequence (show_8_8d m) \<noteq> id_sequence (show_8_8d (g_req_id c + 1))
    \<and> id_sequence (show_8_8d m) \<noteq> id_sequence (show_8_8d (g_req_id c + 2))"
  proof (intro allI impI)
    fix m
    assume "0 \<le> m \<and> m \<le> g_req_id c"
    then show "id_sequence (show_8_8d m) \<noteq> id_sequence (show_8_8d (g_req_id c + 1))
      \<and> id_sequence (show_8_8d m) \<noteq> id_sequence (show_8_8d (g_req_id c + 2))"
      by (intro conjI neq) auto
  qed
  have "id_sequence (show_8_8d (g_req_id c + 2)) \<noteq> id_sequence (show_8_8d (g_req_id c + 1))"
    using assms(2) by (intro neq) auto
  with h1 h2 len old show ?thesis by (intro exI conjI) assumption+
qed

text \<open>The digits of a number in a field of fixed width.\<close>

fun fixed_width :: "nat \<Rightarrow> nat \<Rightarrow> string" where
  "fixed_width 0 n = []"
| "fixed_width (Suc k) n = fixed_width k (n div 10) @ [digit_char (n mod 10)]"

lemma fixed_width_length [simp]: "length (fixed_width k n) = k"
  by (induction k arbitrary: n) auto

lemma fixed_width_zero: "fixed_width k 0 = replicate k (CHR ''0'')"
  by (induction k) (simp_all add: replicate_append_same)

lemma show_nat_power: "n < 10 ^ k \<Longrightarrow> show_nat (10 ^ k + n) = CHR ''1'' # fixed_width k n"
proof (induction k arbitrary: n)
  case 0
  then show ?case by (simp add: show_nat.simps [of 1])
next
  case (Suc k)
  have "(10 ^ Suc k + n) div 10 = 10 ^ k + n div 10" "(10 ^ Suc k + n) mod 10 = n mod 10" by simp_all
  moreover have "show_nat (10 ^ k + n div 10) = CHR ''1'' # fixed_width k (n div 10)"
    using Suc.prems by (intro Suc.IH) simp
  moreover have "\<not> 10 ^ Suc k + n < (10::nat)" by (simp add: not_less trans_le_add1)
  ultimately show ?case by (subst show_nat.simps) simp
qed

lemma pad_show_nat:
  "n < 10 ^ Suc k \<Longrightarrow> replicate (Suc k - length (show_nat n)) (CHR ''0'') @ show_nat n = fixed_width (Suc k) n"
proof (induction k arbitrary: n)
  case 0
  then show ?case by (simp add: show_nat.simps [of n])
next
  case (Suc k)
  show ?case
  proof (cases "n < 10")
    case True
    then show ?thesis by (simp add: show_nat.simps [of n] fixed_width_zero replicate_append_same)
  next
    case False
    then have "show_nat n = show_nat (n div 10) @ [digit_char (n mod 10)]" by (subst show_nat.simps) simp
    with Suc.IH [of "n div 10"] Suc.prems show ?thesis by simp
  qed
qed

text \<open>From one hundred million on the ids have nine digits.\<close>

lemma request_ids_overflow:
  assumes "0 \<le> n" and "n < 100000000"
  shows "id_sequence (show_8_8d (100000000 + n)) = id_sequence (show_8_8d n)"
proof -
  have m: "nat n < 10 ^ 8" using assms by simp
  have nine: "show_8_8d (100000000 + n) = CHR ''1'' # fixed_width 8 (nat n)"
  proof -
    have "nat (100000000 + n) = 10 ^ 8 + nat n" using assms by (simp add: nat_add_distrib)
    then have "show_nat (nat (100000000 + n)) = CHR ''1'' # fixed_width 8 (nat n)"
      using show_nat_power [OF m] by simp
    then show ?thesis using assms by (simp add: show_8_8d_def pad8_def)
  qed
  have eight: "show_8_8d n = fixed_width 8 (nat n)"
    using pad_show_nat [of "nat n" 7] m assms by (simp add: show_8_8d_def pad8_def)
  have dec: "decimal (fixed_width 8 (nat n))" using show_8_8d_eight(1) [OF assms] eight by simp
  let ?v = "digits_val 16 0 (fixed_width 8 (nat n))"
  have b: "0 \<le> ?v" "?v < 4294967296" using digits_val_bounds [OF dec, of 16] by simp_all
  have v9: "digits_val 16 0 (CHR ''1'' # fixed_width 8 (nat n)) = 16 ^ 8 + ?v"
    using digits_val_acc [OF dec, of 16 1] by (simp add: digit_val_def)
  have dec9: "decimal (CHR ''1'' # fixed_width 8 (nat n))"
    using dec digit_char_eqs(2) by (auto intro!: exI [of _ 1])
  have "clamp_long (16 ^ 8 + ?v) = 16 ^ 8 + ?v" "clamp_long ?v = ?v"
    using b by (simp_all add: long_range_def config_defs)
  then show ?thesis
    unfolding nine eight id_sequence_def strtol_decimal [OF dec] strtol_decimal [OF dec9] v9
    by (simp add: to_int_cong)
qed

text \<open>
  C30: requests of one client are told apart, up to a limit. The header of a request carries the
  next number as eight decimal digits; although the library reads the digits back as a
  hexadecimal number into an \<^verbatim>\<open>int\<close>, two numbers below one hundred million are tracked under
  different sequence numbers. From there on the ids have nine digits and no longer fit the
  \<^verbatim>\<open>int\<close>: request \<open>100000000 + n\<close> has the sequence number of request \<open>n\<close>.
\<close>

theorem request_ids_distinguish:
  assumes "json_c_ok J" and "0 \<le> g_req_id c" and "g_req_id c < 99999998"
  shows "\<exists>j1 c1 j2 c2 id1 id2. json_hal_client_get_request_header J c (Some action1) = Inr (Some j1, c1)
    \<and> json_hal_client_get_request_header J c1 (Some action2) = Inr (Some j2, c2)
    \<and> has_id J j1 id1 \<and> has_id J j2 id2 \<and> length id1 = 8 \<and> length id2 = 8
    \<and> id_sequence id2 \<noteq> id_sequence id1
    \<and> (\<forall>m. 0 \<le> m \<and> m \<le> g_req_id c \<longrightarrow>
         id_sequence (show_8_8d m) \<noteq> id_sequence id1 \<and> id_sequence (show_8_8d m) \<noteq> id_sequence id2)
    \<and> (\<forall>n. 0 \<le> n \<and> n < 100000000 \<longrightarrow> id_sequence (show_8_8d (100000000 + n)) = id_sequence (show_8_8d n))"
proof -
  from request_ids_distinct [OF assms, of action1 action2] obtain j1 c1 j2 c2 id1 id2
    where "json_hal_client_get_request_header J c (Some action1) = Inr (Some j1, c1)"
      "json_hal_client_get_request_header J c1 (Some action2) = Inr (Some j2, c2)" "has_id J j1 id1" "has_id J j2 id2"
      "length id1 = 8" "length id2 = 8" "id_sequence id2 \<noteq> id_sequence id1"
      "\<forall>m. 0 \<le> m \<and> m \<le> g_req_id c \<longrightarrow>
         id_sequence (show_8_8d m) \<noteq> id_sequence id1 \<and> id_sequence (show_8_8d m) \<noteq> id_sequence id2" by (elim exE conjE)
  moreover have "\<forall>n. 0 \<le> n \<and> n < 100000000 \<longrightarrow> id_sequence (show_8_8d (100000000 + n)) = id_sequence (show_8_8d n)"
    using request_ids_overflow by blast
  ultimately show ?thesis by (intro exI conjI)
qed

theorem request_ids_distinguish_witness:
  "\<exists>j1 c1 j2 c2 id1 id2.
      json_hal_client_get_request_header no_text (initial_client () :: (json, unit) client) (Some ''getParameters'') = Inr (Some j1, c1)
    \<and> json_hal_client_get_request_header no_text c1 (Some ''setParameters'') = Inr (Some j2, c2)
    \<and> has_id no_text j1 id1 \<and> has_id no_text j2 id2 \<and> id_sequence id2 \<noteq> id_sequence id1"
proof -
  have "0 \<le> g_req_id (initial_client () :: (json, unit) client)" "g_req_id (initial_client () :: (json, unit) client) < 99999998"
    by (simp_all add: initial_client_def)
  from request_ids_distinguish [OF no_text_ok this, of "''getParameters''" "''setParameters''"]
  show ?thesis by (elim exE conjE, intro exI conjI) assumption+
qed

section \<open>Tracking: no request is lost\<close>

text \<open>
  The invariant of the tracking data: the list holds live nodes, each once and with ticks
  left; the live nodes have different sequence numbers; addresses not handed out yet are free; and a live
  node is either still linked, so that a reply or its timeout will find it, or its owner was
  signalled, and never both. No request is forgotten and none is completed twice.
\<close>

definition seq_of :: "('j, 'w) client \<Rightarrow> nat \<Rightarrow> int" where
  "seq_of c a = sequence (the (nodes c a))"

definition ticks_of :: "('j, 'w) client \<Rightarrow> nat \<Rightarrow> int" where
  "ticks_of c a = ticker (the (nodes c a))"

definition client_inv :: "('j, 'w) client \<Rightarrow> bool" where
  "client_inv c \<longleftrightarrow>
     distinct (g_request_msg_tracking c) \<and> dom (nodes c) = set (g_request_msg_tracking c) \<union> signalled c
   \<and> set (g_request_msg_tracking c) \<inter> signalled c = {} \<and> (\<forall>a \<in> dom (nodes c). a < next_node c)
   \<and> inj_on (seq_of c) (dom (nodes c))
   \<and> (\<forall>a \<in> set (g_request_msg_tracking c). 0 < ticks_of c a)
   \<and> (\<forall>r \<in> ran (nodes c). length (rq_buffer r) < 65536)"

lemma node_live [simp]: "a \<in> dom (nodes c) \<Longrightarrow> node c a = Inr (the (nodes c a))"
  by (auto simp: node_def)

lemma find_node_find:
  "set as \<subseteq> dom (nodes c) \<Longrightarrow> find_node c seq as = Inr (find (\<lambda>a. seq_of c a = seq) as)"
  by (induction as) (auto simp: seq_of_def node_def)

lemma find_inj:
  assumes "inj_on f (set as)" and "a \<in> set as"
  shows "find (\<lambda>x. f x = f a) as = Some a"
  using assms
proof (induction as)
  case (Cons b as)
  show ?case
  proof (cases "b = a")
    case False
    then have "f b \<noteq> f a" "a \<in> set as" using Cons.prems by (auto simp: inj_on_def)
    with Cons show ?thesis by (simp add: inj_on_def)
  qed simp
qed simp

lemma find_absent: "k \<notin> f ` set as \<Longrightarrow> find (\<lambda>x. f x = k) as = None"
  by (auto simp: find_None_iff)

lemma inv_list_live: "client_inv c \<Longrightarrow> set (g_request_msg_tracking c) \<subseteq> dom (nodes c)"
  by (auto simp: client_inv_def)

lemma inv_list_inj: "client_inv c \<Longrightarrow> inj_on (seq_of c) (set (g_request_msg_tracking c))"
  unfolding client_inv_def by (auto intro: inj_on_subset)

lemma find_linked:
  "client_inv c \<Longrightarrow> a \<in> set (g_request_msg_tracking c) \<Longrightarrow>
   find (\<lambda>x. seq_of c x = seq_of c a) (g_request_msg_tracking c) = Some a"
  by (rule find_inj [OF inv_list_inj])

text \<open>The state once the owner of a linked node was woken with a new content of the node.\<close>

definition wake :: "('j, 'w) client \<Rightarrow> nat \<Rightarrow> request_msg_tracking_t \<Rightarrow> ('j, 'w) client" where
  "wake c a r = c\<lparr>g_request_msg_tracking := remove1 a (g_request_msg_tracking c),
     nodes := (nodes c)(a \<mapsto> r), signalled := insert a (signalled c)\<rparr>"

lemma wake_simps [simp]:
  "nodes (wake c a r) = (nodes c)(a \<mapsto> r)" "signalled (wake c a r) = insert a (signalled c)"
  "g_request_msg_tracking (wake c a r) = remove1 a (g_request_msg_tracking c)"
  "next_node (wake c a r) = next_node c"
  by (simp_all add: wake_def)

lemma wake_inv:
  assumes "client_inv c" and "a \<in> set (g_request_msg_tracking c)" and "length (rq_buffer r) < 65536"
    and "sequence r = seq_of c a"
  shows "client_inv (wake c a r)"
proof -
  let ?c = "wake c a r" and ?L = "g_request_msg_tracking c"
  have L: "set (g_request_msg_tracking ?c) = set ?L - {a}" "distinct (g_request_msg_tracking ?c)"
    using assms(1) by (simp_all add: client_inv_def)
  have d: "dom (nodes ?c) = dom (nodes c)" using assms(1,2) by (auto simp: client_inv_def)
  have "seq_of ?c b = seq_of c b" for b using assms(4) by (simp add: seq_of_def)
  then have inj: "inj_on (seq_of ?c) (dom (nodes ?c))"
    unfolding d using assms(1) by (simp add: client_inv_def inj_on_def)
  have live: "dom (nodes ?c) = set (g_request_msg_tracking ?c) \<union> signalled ?c"
    unfolding d L using assms(1,2) by (auto simp: client_inv_def)
  have disj: "set (g_request_msg_tracking ?c) \<inter> signalled ?c = {}"
    unfolding L using assms(1) by (auto simp: client_inv_def)
  have lim: "\<forall>b \<in> dom (nodes ?c). b < next_node ?c"
    unfolding d using assms(1) by (simp add: client_inv_def)
  have ticks: "\<forall>b \<in> set (g_request_msg_tracking ?c). 0 < ticks_of ?c b"
    unfolding L using assms(1) by (simp add: client_inv_def ticks_of_def)
  have len: "\<forall>r' \<in> ran (nodes ?c). length (rq_buffer r') < 65536"
    using assms(1,3) by (auto simp: client_inv_def ran_def)
  show ?thesis unfolding client_inv_def
    by (intro conjI L(2) live disj lim inj ticks len)
qed

lemma deliver_response_found:
  assumes "client_inv c" and "a \<in> set (g_request_msg_tracking c)" and "len < 65536"
  shows "deliver_response c (seq_of c a) buffer len = Inr (wake c a ((the (nodes c a))
    \<lparr>rq_buffer := strncpy (nat len) buffer, rq_rc := RETURN_OK, rq_len := len\<rparr>))"
proof -
  have live: "set (g_request_msg_tracking c) \<subseteq> dom (nodes c)" using inv_list_live [OF assms(1)] .
  have "find (\<lambda>x. seq_of c x = seq_of c a) (g_request_msg_tracking c) = Some a"
    using assms(1,2) by (rule find_linked)
  then show ?thesis
    using assms(2,3) live subsetD [OF live assms(2)]
    by (simp add: deliver_response_def find_node_find [OF live] wake_def)
qed

lemma deliver_response_unknown:
  assumes "client_inv c" and "seq \<notin> seq_of c ` set (g_request_msg_tracking c)"
  shows "deliver_response c seq buffer len = Inr c"
  using assms by (simp add: deliver_response_def find_node_find [OF inv_list_live] find_absent)

lemma deliver_response_inv:
  assumes "client_inv c" and "deliver_response c seq buffer len = Inr c'"
  shows "client_inv c'"
proof (cases "seq \<in> seq_of c ` set (g_request_msg_tracking c)")
  case False
  with assms deliver_response_unknown [OF assms(1) False] show ?thesis by simp
next
  case True
  then obtain a where a: "seq = seq_of c a" "a \<in> set (g_request_msg_tracking c)" by blast
  show ?thesis
  proof (cases "len < 65536")
    case True
    have "length (strncpy (nat len) buffer) < 65536"
      using strncpy_length [of "nat len" buffer] True by linarith
    then have "client_inv (wake c a ((the (nodes c a))\<lparr>rq_buffer := strncpy (nat len) buffer, rq_rc := RETURN_OK, rq_len := len\<rparr>))"
      by (intro wake_inv [OF assms(1) a(2)]) (simp_all add: seq_of_def)
    with assms(2) a deliver_response_found [OF assms(1) a(2) True] show ?thesis by simp
  next
    case False
    have live: "set (g_request_msg_tracking c) \<subseteq> dom (nodes c)" using inv_list_live [OF assms(1)] .
    have "find (\<lambda>x. seq_of c x = seq_of c a) (g_request_msg_tracking c) = Some a"
      using assms(1) a(2) by (rule find_linked)
    with False assms(2) a subsetD [OF live a(2)] show ?thesis
      by (simp add: deliver_response_def find_node_find [OF live])
  qed
qed

text \<open>Collecting the reply of a woken request frees its node and leaves the others alone.\<close>

lemma delete_absent:
  "client_inv c \<Longrightarrow> seq \<notin> seq_of c ` set (g_request_msg_tracking c) \<Longrightarrow> request_delete_cb c seq = Inr c"
  by (simp add: request_delete_cb_def find_node_find [OF inv_list_live] find_absent)

lemma collect_reply_woken:
  assumes "client_inv c" and "a \<in> signalled c"
  shows "collect_reply J c a = Inr (rq_rc (the (nodes c a)),
      if rq_rc (the (nodes c a)) \<ge> 0 then Some (jc_parse J (rq_buffer (the (nodes c a)))) else None,
      c\<lparr>nodes := (nodes c)(a := None), signalled := signalled c - {a}\<rparr>)"
proof -
  have a: "a \<in> dom (nodes c)" using assms(1,2) by (auto simp: client_inv_def)
  then obtain r where r: "nodes c a = Some r" by blast
  then have "r \<in> ran (nodes c)" by (rule ranI)
  with assms(1) r have "length (rq_buffer (the (nodes c a))) < 65536"
    by (simp add: client_inv_def)
  moreover have "seq_of c a \<notin> seq_of c ` set (g_request_msg_tracking c)"
  proof
    assume "seq_of c a \<in> seq_of c ` set (g_request_msg_tracking c)"
    then obtain b where b: "b \<in> set (g_request_msg_tracking c)" "seq_of c a = seq_of c b" by blast
    with assms have "b \<in> dom (nodes c)" "a \<noteq> b" by (auto simp: client_inv_def)
    with a b(2) assms(1) show False unfolding client_inv_def inj_on_def by blast
  qed
  ultimately show ?thesis
    using a delete_absent [OF assms(1)] by (simp add: collect_reply_def seq_of_def)
qed

lemma free_woken_inv:
  assumes "client_inv c" and "a \<in> signalled c"
  shows "client_inv (c\<lparr>nodes := (nodes c)(a := None), signalled := signalled c - {a}\<rparr>)"
proof -
  let ?c = "c\<lparr>nodes := (nodes c)(a := None), signalled := signalled c - {a}\<rparr>"
  have "a \<notin> set (g_request_msg_tracking c)" using assms by (auto simp: client_inv_def)
  then have "\<forall>b \<in> set (g_request_msg_tracking c). 0 < ticks_of ?c b"
    using assms(1) by (auto simp: client_inv_def ticks_of_def)
  moreover have "inj_on (seq_of ?c) (dom (nodes ?c))"
    using assms(1) by (simp add: client_inv_def inj_on_def seq_of_def)
  moreover have "\<forall>r \<in> ran (nodes ?c). length (rq_buffer r) < 65536"
    using assms(1) by (auto simp: client_inv_def ran_def)
  ultimately show ?thesis
    using assms \<open>a \<notin> _\<close> unfolding client_inv_def by auto
qed

lemma deliver_and_collect:
  assumes "client_inv c" and "a \<in> set (g_request_msg_tracking c)" and "len < 65536"
    and "jc_object_get_ex J jobj JSON_RPC_FIELD_ACTION = Some (Some ja)"
    and "\<not> starts_with (cstr (jc_get_string J ja)) JSON_RPC_PUBLISH_EVENT_ACTION_NAME"
    and "has_id J jobj req" and "id_sequence req = seq_of c a"
  shows "\<exists>c1 c2. process_message J os blk c jobj buffer len = Inr (True, c1) \<and> a \<in> signalled c1
    \<and> collect_reply J c1 a = Inr (RETURN_OK, Some (jc_parse J (strncpy (nat len) buffer)), c2)
    \<and> nodes c2 = (nodes c)(a := None) \<and> signalled c2 = signalled c
    \<and> g_request_msg_tracking c2 = remove1 a (g_request_msg_tracking c) \<and> client_inv c2"
proof -
  let ?r = "(the (nodes c a))\<lparr>rq_buffer := strncpy (nat len) buffer, rq_rc := RETURN_OK, rq_len := len\<rparr>"
  let ?c1 = "wake c a ?r"
  have "process_message J os blk c jobj buffer len = Inr (True, ?c1)"
    using assms(4-7) deliver_response_found [OF assms(1-3), of buffer]
    by (auto simp: process_message_def has_id_def simp del: starts_with_simps)
  moreover have "length (strncpy (nat len) buffer) < 65536"
    using strncpy_length [of "nat len" buffer] assms(3) by linarith
  then have inv: "client_inv ?c1" by (intro wake_inv [OF assms(1,2)]) (simp_all add: seq_of_def)
  have "a \<notin> signalled c" using assms(1,2) by (auto simp: client_inv_def)
  ultimately show ?thesis
    using collect_reply_woken [OF inv, of a J] free_woken_inv [OF inv, of a]
    by (auto simp: wake_def)
qed

text \<open>
  C5: a reply reaches the request it answers, and no other. When a message that is not an
  event arrives with the id of a pending request, the request is unlinked, its owner is
  woken, and the call it made returns \<open>RETURN_OK\<close> with the parsed text of the received
  buffer; every other request stays as it is and the tracking data stay consistent.
\<close>

theorem reply_reaches_its_request:
  assumes "client_inv c" and "a \<in> set (g_request_msg_tracking c)" and "len < 65536"
    and "jc_object_get_ex J jobj JSON_RPC_FIELD_ACTION = Some (Some ja)"
    and "\<not> starts_with (cstr (jc_get_string J ja)) JSON_RPC_PUBLISH_EVENT_ACTION_NAME"
    and "has_id J jobj req" and "id_sequence req = seq_of c a"
  shows "\<exists>c1 c2. process_message J os blk c jobj buffer len = Inr (True, c1) \<and> a \<in> signalled c1
    \<and> collect_reply J c1 a = Inr (RETURN_OK, Some (jc_parse J (strncpy (nat len) buffer)), c2)
    \<and> nodes c2 = (nodes c)(a := None) \<and> signalled c2 = signalled c
    \<and> g_request_msg_tracking c2 = remove1 a (g_request_msg_tracking c) \<and> client_inv c2"
  using assms by (rule deliver_and_collect)

section \<open>Timeouts\<close>

text \<open>The effect of a pass on one linked node.\<close>

definition tick_one :: "nat \<Rightarrow> ('j, 'w) client \<Rightarrow> ('j, 'w) client" where
  "tick_one a c = (let r = (the (nodes c a))\<lparr>ticker := ticks_of c a - 1\<rparr> in
     if ticks_of c a \<le> 1 then wake c a (r\<lparr>rq_rc := RETURN_ERR, rq_len := INVALD_LENGTH\<rparr>)
     else c\<lparr>nodes := (nodes c)(a \<mapsto> r)\<rparr>)"

lemma tick_one_inv:
  assumes "client_inv c" and "a \<in> set (g_request_msg_tracking c)"
  shows "client_inv (tick_one a c)"
proof -
  from assms have "a \<in> dom (nodes c)" by (auto simp: client_inv_def)
  then obtain r where r: "nodes c a = Some r" by blast
  then have "r \<in> ran (nodes c)" by (rule ranI)
  then have len: "length (rq_buffer r) < 65536" using assms(1) by (simp add: client_inv_def)
  show ?thesis
  proof (cases "ticks_of c a \<le> 1")
    case True
    then show ?thesis using r len by (simp add: tick_one_def wake_inv [OF assms] seq_of_def)
  next
    case False
    let ?c = "c\<lparr>nodes := (nodes c)(a \<mapsto> r\<lparr>ticker := ticks_of c a - 1\<rparr>)\<rparr>"
    have "seq_of ?c b = seq_of c b" "ticks_of ?c b = (if b = a then ticks_of c a - 1 else ticks_of c b)" for b
      using r by (simp_all add: seq_of_def ticks_of_def)
    moreover have "dom (nodes ?c) = dom (nodes c)" using r by auto
    moreover have "\<forall>r' \<in> ran (nodes ?c). length (rq_buffer r') < 65536"
      using assms(1) len by (auto simp: client_inv_def ran_def)
    ultimately have "client_inv ?c"
      using assms(1) False unfolding client_inv_def by (simp add: inj_on_def)
    with False r show ?thesis by (simp add: tick_one_def)
  qed
qed

lemma tick_one_list: "set (g_request_msg_tracking c) - {a} \<subseteq> set (g_request_msg_tracking (tick_one a c))"
  by (auto simp: tick_one_def Let_def intro: in_set_remove1 [THEN iffD2])

lemma tick_one_other [simp]: "b \<noteq> a \<Longrightarrow> nodes (tick_one a c) b = nodes c b"
  by (simp add: tick_one_def Let_def)

lemma tick_loop_fold:
  "client_inv c \<Longrightarrow> distinct as \<Longrightarrow> set as \<subseteq> set (g_request_msg_tracking c) \<Longrightarrow>
   tick_loop c as = Inr (fold tick_one as c) \<and> client_inv (fold tick_one as c)"
proof (induction as arbitrary: c)
  case (Cons a as)
  have a: "a \<in> set (g_request_msg_tracking c)" using Cons.prems by simp
  then have live: "a \<in> dom (nodes c)" using inv_list_live [OF Cons.prems(1)] by blast
  have "set as \<subseteq> set (g_request_msg_tracking (tick_one a c))"
    using Cons.prems tick_one_list [of c a] by auto
  then have ih: "tick_loop (tick_one a c) as = Inr (fold tick_one as (tick_one a c))
      \<and> client_inv (fold tick_one as (tick_one a c))"
    using Cons.prems tick_one_inv [OF Cons.prems(1) a] by (intro Cons.IH) simp_all
  have "tick_loop c (a # as) = tick_loop (tick_one a c) as"
    using live by (simp add: tick_one_def wake_def ticks_of_def Let_def)
  with ih show ?case by simp
qed simp

lemma request_tracking_fold:
  assumes "client_inv c"
  shows "request_tracking_cb c = Inr (fold tick_one (g_request_msg_tracking c) c)"
    and "client_inv (fold tick_one (g_request_msg_tracking c) c)"
proof -
  have "distinct (g_request_msg_tracking c)" using assms by (simp add: client_inv_def)
  from tick_loop_fold [OF assms this subset_refl]
  show "request_tracking_cb c = Inr (fold tick_one (g_request_msg_tracking c) c)"
    "client_inv (fold tick_one (g_request_msg_tracking c) c)"
    by (simp_all add: request_tracking_cb_def)
qed

lemma tick_one_linked:
  "b \<noteq> a \<Longrightarrow> (b \<in> set (g_request_msg_tracking (tick_one a c)) \<longleftrightarrow> b \<in> set (g_request_msg_tracking c))
     \<and> (b \<in> signalled (tick_one a c) \<longleftrightarrow> b \<in> signalled c)"
  by (auto simp: tick_one_def Let_def)

lemma fold_tick_other:
  "a \<notin> set as \<Longrightarrow> nodes (fold tick_one as c) a = nodes c a
     \<and> (a \<in> set (g_request_msg_tracking (fold tick_one as c)) \<longleftrightarrow> a \<in> set (g_request_msg_tracking c))
     \<and> (a \<in> signalled (fold tick_one as c) \<longleftrightarrow> a \<in> signalled c)"
  by (induction as arbitrary: c) (auto simp: tick_one_linked)

lemma fold_tick_self:
  fixes c :: "('j, 'w) client"
  shows "distinct as \<Longrightarrow> a \<in> set as \<Longrightarrow>
   \<exists>c' :: ('j, 'w) client. nodes c' a = nodes c a \<and> (a \<in> set (g_request_msg_tracking c') \<longleftrightarrow> a \<in> set (g_request_msg_tracking c))
     \<and> (a \<in> signalled c' \<longleftrightarrow> a \<in> signalled c)
     \<and> nodes (fold tick_one as c) a = nodes (tick_one a c') a
     \<and> (a \<in> set (g_request_msg_tracking (fold tick_one as c)) \<longleftrightarrow> a \<in> set (g_request_msg_tracking (tick_one a c')))
     \<and> (a \<in> signalled (fold tick_one as c) \<longleftrightarrow> a \<in> signalled (tick_one a c'))"
proof (induction as arbitrary: c)
  case (Cons b as)
  show ?case
  proof (cases "b = a")
    case True
    with Cons.prems have "a \<notin> set as" by simp
    from fold_tick_other [OF this, of "tick_one a c"] True show ?thesis
      by (intro exI [of _ c]) simp
  next
    case False
    with Cons.prems have "distinct as" "a \<in> set as" by auto
    from Cons.IH [OF this, of "tick_one b c"] False show ?thesis
      by (simp add: tick_one_linked)
  qed
qed simp

text \<open>One pass, seen from one pending request.\<close>

lemma request_tracking_pending:
  assumes "client_inv c" and "a \<in> set (g_request_msg_tracking c)"
  shows "\<exists>c'. request_tracking_cb c = Inr c' \<and> client_inv c'
    \<and> (if 1 < ticks_of c a then a \<in> set (g_request_msg_tracking c') \<and> ticks_of c' a = ticks_of c a - 1
       else a \<in> signalled c' \<and> rq_rc (the (nodes c' a)) = RETURN_ERR)"
proof -
  let ?c' = "fold tick_one (g_request_msg_tracking c) c"
  have "distinct (g_request_msg_tracking c)" using assms(1) by (simp add: client_inv_def)
  from fold_tick_self [OF this assms(2), of c] obtain d :: "('a, 'b) client" where
    d: "nodes d a = nodes c a" "a \<in> set (g_request_msg_tracking d) \<longleftrightarrow> a \<in> set (g_request_msg_tracking c)"
      "nodes ?c' a = nodes (tick_one a d) a"
      "a \<in> set (g_request_msg_tracking ?c') \<longleftrightarrow> a \<in> set (g_request_msg_tracking (tick_one a d))"
      "a \<in> signalled ?c' \<longleftrightarrow> a \<in> signalled (tick_one a d)"
    by blast
  have "ticks_of d a = ticks_of c a" using d(1) by (simp add: ticks_of_def)
  then have "if 1 < ticks_of c a then a \<in> set (g_request_msg_tracking ?c') \<and> ticks_of ?c' a = ticks_of c a - 1
      else a \<in> signalled ?c' \<and> rq_rc (the (nodes ?c' a)) = RETURN_ERR"
    using d assms(2) by (simp add: tick_one_def ticks_of_def)
  with request_tracking_fold [OF assms(1)] show ?thesis by blast
qed

fun idle_times :: "nat \<Rightarrow> ('j, 'w) client \<Rightarrow> ('j, 'w) client cres" where
  "idle_times 0 c = Inr c"
| "idle_times (Suc n) c = ebind (request_idle_cb c) (\<lambda>(rc, c). idle_times n c)"

lemma woken_stays:
  assumes "client_inv c" and "a \<in> signalled c"
  shows "\<exists>c'. request_tracking_cb c = Inr c' \<and> client_inv c' \<and> a \<in> signalled c' \<and> nodes c' a = nodes c a"
proof -
  have "a \<notin> set (g_request_msg_tracking c)" using assms by (auto simp: client_inv_def)
  from fold_tick_other [OF this, of c] request_tracking_fold [OF assms(1)] assms(2) show ?thesis by simp
qed

lemma idle_times_woken:
  "client_inv c \<Longrightarrow> a \<in> signalled c \<Longrightarrow>
   \<exists>c'. idle_times n c = Inr c' \<and> client_inv c' \<and> a \<in> signalled c' \<and> nodes c' a = nodes c a"
proof (induction n arbitrary: c)
  case (Suc n)
  from woken_stays [OF Suc.prems] obtain c1 where c1: "request_tracking_cb c = Inr c1" "client_inv c1"
    "a \<in> signalled c1" "nodes c1 a = nodes c a" by blast
  from Suc.IH [OF c1(2,3)] c1 show ?case by (simp add: request_idle_cb_def)
qed auto

text \<open>
  C28: a request without a reply ends. A pending request with \<open>t\<close> ticks left is still
  pending after fewer than \<open>t\<close> calls of the idle callback, and after \<open>t\<close> calls or more
  its owner has been woken with the error code, whatever else is pending.
\<close>

theorem unanswered_request_times_out:
  assumes "client_inv c" and "a \<in> set (g_request_msg_tracking c)"
  shows "\<exists>c'. idle_times n c = Inr c' \<and> client_inv c'
    \<and> (if int n < ticks_of c a
       then a \<in> set (g_request_msg_tracking c') \<and> ticks_of c' a = ticks_of c a - int n
       else a \<in> signalled c' \<and> rq_rc (the (nodes c' a)) = RETURN_ERR)"
  using assms
proof (induction n arbitrary: c)
  case 0
  then have "0 < ticks_of c a" by (simp add: client_inv_def)
  with 0 show ?case by simp
next
  case (Suc n)
  from request_tracking_pending [OF Suc.prems] obtain c1 where c1: "request_tracking_cb c = Inr c1" "client_inv c1"
    "if 1 < ticks_of c a then a \<in> set (g_request_msg_tracking c1) \<and> ticks_of c1 a = ticks_of c a - 1
     else a \<in> signalled c1 \<and> rq_rc (the (nodes c1 a)) = RETURN_ERR" by blast
  show ?case
  proof (cases "1 < ticks_of c a")
    case True
    with c1(3) have l: "a \<in> set (g_request_msg_tracking c1)" "ticks_of c1 a = ticks_of c a - 1" by simp_all
    from Suc.IH [OF c1(2) l(1)] l(2) c1(1) show ?thesis by (auto simp: request_idle_cb_def)
  next
    case False
    with c1(3) have w: "a \<in> signalled c1" "rq_rc (the (nodes c1 a)) = RETURN_ERR" by simp_all
    from idle_times_woken [OF c1(2) w(1), of n] w(2) False c1(1) show ?thesis
      by (auto simp: request_idle_cb_def)
  qed
qed

section \<open>Sending keeps the tracking data consistent\<close>

lemma message_send_keeps:
  "json_message_send J os c m = Inr (rc, c') \<Longrightarrow> \<exists>w ms. c' = c\<lparr>client_world := w, client_sent := client_sent c @ ms\<rparr>"
  by (cases c) (auto simp: json_message_send_def result_simps split: option.splits if_splits)

lemma world_client_inv: "client_inv (c\<lparr>client_world := w, client_sent := ms\<rparr>) = client_inv c"
  by (simp add: client_inv_def seq_of_def [abs_def] ticks_of_def)

lemma message_send_inv: "json_message_send J os c m = Inr (rc, c') \<Longrightarrow> client_inv c' = client_inv c"
  by (auto dest!: message_send_keeps simp: world_client_inv)

text \<open>The state with a new request linked in.\<close>

definition track :: "('j, 'w) client \<Rightarrow> request_msg_tracking_t \<Rightarrow> ('j, 'w) client" where
  "track c r = c\<lparr>nodes := (nodes c)(next_node c \<mapsto> r), next_node := Suc (next_node c),
     g_request_msg_tracking := g_request_msg_tracking c @ [next_node c]\<rparr>"

lemma next_node_fresh: "client_inv c \<Longrightarrow> nodes c (next_node c) = None"
  by (auto simp: client_inv_def)

lemma track_inv:
  assumes "client_inv c" and "sequence r \<notin> seq_of c ` dom (nodes c)" and "0 < ticker r"
    and "length (rq_buffer r) < 65536"
  shows "client_inv (track c r)"
proof -
  let ?a = "next_node c" and ?L = "g_request_msg_tracking c"
  have fresh: "?a \<notin> set ?L" "?a \<notin> signalled c" "\<forall>b \<in> dom (nodes c). b < ?a"
    using assms(1) by (auto simp: client_inv_def)
  let ?c = "track c r"
  have L: "g_request_msg_tracking ?c = ?L @ [?a]" "signalled ?c = signalled c" by (simp_all add: track_def)
  have d: "dom (nodes ?c) = insert ?a (dom (nodes c))" by (simp add: track_def)
  have live: "dom (nodes ?c) = set (g_request_msg_tracking ?c) \<union> signalled ?c"
    unfolding d L using assms(1) by (auto simp: client_inv_def)
  have disj: "set (g_request_msg_tracking ?c) \<inter> signalled ?c = {}"
    unfolding L using assms(1) fresh by (auto simp: client_inv_def)
  have lim: "\<forall>b \<in> dom (nodes ?c). b < next_node ?c"
    unfolding d using fresh(3) by (auto simp: track_def intro: less_SucI)
  have dist: "distinct (g_request_msg_tracking ?c)"
    unfolding L using assms(1) fresh by (simp add: client_inv_def)
  have old: "seq_of ?c b = seq_of c b" "ticks_of ?c b = ticks_of c b" if "b \<noteq> ?a" for b
    using that by (simp_all add: track_def seq_of_def ticks_of_def)
  have new: "seq_of ?c ?a = sequence r" "ticks_of ?c ?a = ticker r"
    by (simp_all add: track_def seq_of_def ticks_of_def)
  have notin: "?a \<notin> dom (nodes c)" using fresh(3) by blast
  have "inj_on (seq_of ?c) (dom (nodes c))"
    using assms(1) old notin unfolding client_inv_def inj_on_def by metis
  moreover have "seq_of ?c ?a \<notin> seq_of ?c ` dom (nodes c)"
    using assms(2) old notin new by (metis (no_types, lifting) image_cong)
  ultimately have inj: "inj_on (seq_of ?c) (dom (nodes ?c))"
    unfolding d using notin by (simp add: inj_on_insert)
  have ticks: "\<forall>b \<in> set (g_request_msg_tracking ?c). 0 < ticks_of ?c b"
    unfolding L using assms(1,3) old new by (auto simp: client_inv_def) (metis)
  have len: "\<forall>r' \<in> ran (nodes ?c). length (rq_buffer r') < 65536"
    using assms(1,4) by (auto simp: client_inv_def ran_def track_def)
  show ?thesis unfolding client_inv_def
    by (intro conjI dist live disj lim inj ticks len)
qed

lemma untrack:
  assumes "client_inv c" and "sequence r \<notin> seq_of c ` dom (nodes c)" and "0 < ticker r"
    and "length (rq_buffer r) < 65536"
  shows "request_delete_cb ((track c r)\<lparr>client_world := w, client_sent := ms\<rparr>) (sequence r) =
    Inr ((track c r)\<lparr>client_world := w, client_sent := ms, g_request_msg_tracking := g_request_msg_tracking c\<rparr>)"
proof -
  let ?c = "(track c r)\<lparr>client_world := w, client_sent := ms\<rparr>" and ?a = "next_node c"
  have inv: "client_inv ?c" using track_inv [OF assms] by (simp add: world_client_inv)
  have "?a \<notin> set (g_request_msg_tracking c)" using assms(1) by (auto simp: client_inv_def)
  have L: "g_request_msg_tracking (track c r) = g_request_msg_tracking c @ [?a]" by (simp add: track_def)
  have "find (\<lambda>x. seq_of ?c x = seq_of ?c ?a) (g_request_msg_tracking ?c) = Some ?a"
    by (rule find_linked [OF inv]) (simp add: L)
  moreover have "seq_of ?c ?a = sequence r" by (simp add: track_def seq_of_def)
  ultimately have "find_node ?c (sequence r) (g_request_msg_tracking ?c) = Inr (Some ?a)"
    by (simp only: find_node_find [OF inv_list_live [OF inv]])
  then show ?thesis
    using \<open>?a \<notin> _\<close> by (simp add: request_delete_cb_def L remove1_append)
qed

lemma send_request_cases:
  assumes "client_inv c" and "has_id J jmsg req" and "id_sequence req \<notin> seq_of c ` dom (nodes c)"
    and "0 < tick" and "send_request J os c (Some jmsg) tick = Inr (r, c')"
  shows "client_inv c'
    \<and> (case r of
         None \<Rightarrow> nodes c' = nodes c \<and> g_request_msg_tracking c' = g_request_msg_tracking c \<and> signalled c' = signalled c
       | Some a \<Rightarrow> nodes c a = None \<and> g_request_msg_tracking c' = g_request_msg_tracking c @ [a]
           \<and> seq_of c' a = id_sequence req \<and> ticks_of c' a = tick \<and> signalled c' = signalled c)"
proof -
  let ?r = "\<lparr>sequence = id_sequence req, rq_buffer = '''', rq_len = 0, rq_rc = RETURN_ERR, ticker = tick\<rparr>"
  let ?a = "next_node c"
  have pre: "sequence ?r \<notin> seq_of c ` dom (nodes c)" "0 < ticker ?r" "length (rq_buffer ?r) < 65536"
    using assms(3,4) by simp_all
  from assms(2,5) have "ebind (json_message_send J os (track c ?r) (Some jmsg)) (\<lambda>(rc, c).
       if rc \<noteq> RETURN_OK
       then ebind (request_delete_cb c (id_sequence req)) (\<lambda>c. Inr (None, c\<lparr>nodes := (nodes c)(?a := None)\<rparr>))
       else Inr (Some ?a, c)) = Inr (r, c')"
    by (auto simp: send_request_def has_id_def Let_def track_def)
  then obtain rc c1 where m: "json_message_send J os (track c ?r) (Some jmsg) = Inr (rc, c1)"
    and rest: "(if rc \<noteq> RETURN_OK
       then ebind (request_delete_cb c1 (id_sequence req)) (\<lambda>c. Inr (None, c\<lparr>nodes := (nodes c)(?a := None)\<rparr>))
       else Inr (Some ?a, c1)) = Inr (r, c')" by (rule ebind_pairE)
  from message_send_keeps [OF m] obtain w ms where
    c1: "c1 = (track c ?r)\<lparr>client_world := w, client_sent := ms\<rparr>" by blast
  show ?thesis
  proof (cases "rc = RETURN_OK")
    case True
    with rest c1 show ?thesis
      using track_inv [OF assms(1) pre] next_node_fresh [OF assms(1)]
      by (auto simp: world_client_inv) (simp_all add: track_def seq_of_def ticks_of_def)
  next
    case False
    with rest untrack [OF assms(1) pre, where w = w and ms = ms] c1 have
      c': "r = None" "c' = c\<lparr>next_node := Suc ?a, client_world := w, client_sent := ms\<rparr>"
      using next_node_fresh [OF assms(1)] by (auto simp: track_def fun_upd_idem)
    have "client_inv c'" using assms(1) c'(2)
      by (auto simp: client_inv_def seq_of_def [abs_def] ticks_of_def less_SucI)
    with c' show ?thesis by simp
  qed
qed

section \<open>Receiving keeps the tracking data consistent\<close>

text \<open>Handling an event changes nothing but the outside world and the messages sent.\<close>

definition only_world :: "('j, 'w) client \<Rightarrow> ('j, 'w) client \<Rightarrow> bool" where
  "only_world c c' \<longleftrightarrow> (\<exists>w ms. c' = c\<lparr>client_world := w, client_sent := ms\<rparr>)"

lemma only_world_refl [simp]: "only_world c c"
  by (cases c) (auto simp: only_world_def intro!: exI [of _ "client_world c"] exI [of _ "client_sent c"])

lemma only_world_trans: "only_world c c' \<Longrightarrow> only_world c' c'' \<Longrightarrow> only_world c c''"
  unfolding only_world_def by (elim exE, simp) blast

lemma only_world_set [simp]: "only_world c (c\<lparr>client_world := w\<rparr>)"
  by (cases c) (auto simp: only_world_def)

lemma only_world_inv: "only_world c c' \<Longrightarrow> client_inv c' = client_inv c"
  by (auto simp: only_world_def world_client_inv)

lemma message_send_only_world: "json_message_send J os c m = Inr (rc, c') \<Longrightarrow> only_world c c'"
  by (auto dest!: message_send_keeps simp: only_world_def)

lemma answer_event_only_world:
  assumes "answer_event J os c jobj ev refs = Inr (c', refs')"
  shows "only_world c c'"
proof (cases "jc_object_get_ex J jobj JSON_RPC_FIELD_ID")
  case None
  with assms show ?thesis by (auto simp: answer_event_def ebind_eq_Inr_iff)
next
  case (Some jid)
  with assms show ?thesis
    by (auto simp: answer_event_def ebind_eq_Inr_iff dest: message_send_only_world)
qed

lemma event_loop_only_world:
  "event_loop J os blk c jobj ev refs es = Inr (c', refs') \<Longrightarrow> only_world c c'"
proof (induction es arbitrary: c refs)
  case (Cons e es)
  show ?case
  proof (cases "starts_with (event_name e) ev \<and> event_cb e \<noteq> None")
    case False
    with Cons show ?thesis by (auto split: option.splits if_splits)
  next
    case True
    then obtain cb where cb: "event_cb e = Some cb" by auto
    with True Cons.prems obtain b where b: "jc_to_string J jobj = Some b" "refs \<noteq> 0"
      by (auto split: option.splits if_splits)
    with True Cons.prems cb obtain w where w: "cb (client_world c) b (int (length (cstr b))) = Inr w"
      by (auto simp: ebind_eq_Inr_iff)
    let ?c = "c\<lparr>client_world := w\<rparr>"
    have "only_world ?c c'"
    proof (cases blk)
      case blk: True
      with True Cons.prems cb b w obtain c1 refs1 where "answer_event J os ?c jobj ev refs = Inr (c1, refs1)"
        "event_loop J os blk c1 jobj ev refs1 es = Inr (c', refs')" by (auto simp: ebind_eq_Inr_iff)
      with Cons.IH answer_event_only_world only_world_trans show ?thesis by metis
    next
      case False
      with True Cons.prems cb b w Cons.IH show ?thesis by auto
    qed
    then show ?thesis using only_world_trans only_world_set by metis
  qed
qed simp

lemma process_event_only_world:
  assumes "process_event J os blk c jobj refs = Inr (c', refs')"
  shows "only_world c c'"
  using assms
  by (auto simp: process_event_def ebind_eq_Inr_iff dest: event_loop_only_world split: option.splits)

text \<open>
  What receiving may change, as a contract: a property of the client that is kept by changes of
  the outside world and by handing a reply to its request is kept by the receive callback.
\<close>

locale receive_invariant =
  fixes Q :: "('j, 'w) client \<Rightarrow> bool"
  assumes world_keeps: "Q c \<Longrightarrow> only_world c c' \<Longrightarrow> Q c'"
    and deliver_keeps: "Q c \<Longrightarrow> deliver_response c seq buffer len = Inr c' \<Longrightarrow> Q c'"
begin

lemma handling_keeps:
  assumes "Q c" and "process_message J os blk c jobj buffer len = Inr (go_on, c')"
  shows "Q c'"
proof (cases "jc_object_get_ex J jobj JSON_RPC_FIELD_ACTION")
  case None
  with assms show ?thesis by (simp add: process_message_def)
next
  case (Some jact)
  with assms(2) obtain ja where ja: "jact = Some ja" by (cases jact) (simp_all add: process_message_def)
  show ?thesis
  proof (cases "starts_with (cstr (jc_get_string J ja)) JSON_RPC_PUBLISH_EVENT_ACTION_NAME")
    case True
    with assms(2) Some ja obtain refs where e: "process_event J os blk c jobj 1 = Inr (c', refs)"
      by (auto simp: process_message_def ebind_eq_Inr_iff simp del: starts_with_simps)
    from world_keeps [OF assms(1) process_event_only_world [OF e]] show ?thesis .
  next
    case False
    show ?thesis
    proof (cases "jc_object_get_ex J jobj JSON_RPC_FIELD_ID")
      case None
      with assms Some ja False show ?thesis by (simp add: process_message_def del: starts_with_simps)
    next
      case (Some jid)
      with assms(2) \<open>jc_object_get_ex J jobj JSON_RPC_FIELD_ACTION = Some jact\<close> ja False
      obtain seq where "deliver_response c seq buffer len = Inr c'"
        by (auto simp: process_message_def ebind_eq_Inr_iff simp del: starts_with_simps)
      with deliver_keeps [OF assms(1)] show ?thesis .
    qed
  qed
qed

lemma receiving_keeps:
  "Q c \<Longrightarrow> response_loop fuel J T os blk c buffer len t start pe = Inr (rc, c') \<Longrightarrow> Q c'"
proof (induction fuel arbitrary: c t start pe)
  case (Suc fuel)
  obtain t' jobj jerr p where tk: "tok_parse_ex T t (drop (nat start) buffer) (pe - start) = (t', jobj, jerr, p)"
    by (metis prod_cases4)
  let ?m = "case jobj of None \<Rightarrow> Inr (True, c) | Some j \<Rightarrow> process_message J os blk c j buffer len"
  from Suc.prems(2) tk consider "c' = c"
    | t2 where "response_loop fuel J T os blk c buffer len t2 start p = Inr (rc, c')"
    | go_on c1 where "?m = Inr (go_on, c1)"
        "c' = c1 \<or> response_loop fuel J T os blk c1 buffer len t' (start + p) len = Inr (rc, c')"
    by (auto simp: ebind_eq_Inr_iff split: if_splits option.splits)
  then show ?case
  proof cases
    case 1
    with Suc.prems show ?thesis by simp
  next
    case 2
    with Suc show ?thesis by blast
  next
    case 3
    have "Q c1" using 3(1) Suc.prems(1) handling_keeps by (auto split: option.splits)
    with 3(2) Suc.IH show ?thesis by blast
  qed
qed simp

lemma response_keeps: "Q c \<Longrightarrow> response_parse_cb J T os blk c buffer len = Inr (rc, c') \<Longrightarrow> Q c'"
  by (auto simp: response_parse_cb_def intro: receiving_keeps simp del: response_loop.simps mult_Suc split: option.splits)

end

interpretation tracking: receive_invariant client_inv
  by unfold_locales (auto simp: only_world_inv dest: deliver_response_inv)

text \<open>The states a client can be in: calls of the public functions and of the callbacks of the
  socket thread, in any order, termination included. Each call is one step here. A request with an
  id is sent under one that no live request has, as the headers of the library provide them; what happens
  under an id that is in use is shown by \<open>reused_id_loses_request\<close> below.\<close>

definition fresh_id :: "'j json_c \<Rightarrow> ('j, 'w) client \<Rightarrow> 'j option \<Rightarrow> bool" where
  "fresh_id J c m \<longleftrightarrow> (\<forall>jmsg req. m = Some jmsg \<longrightarrow> has_id J jmsg req \<longrightarrow> id_sequence req \<notin> seq_of c ` dom (nodes c))"

lemma fresh_idI: "has_id J jmsg req \<Longrightarrow> id_sequence req \<notin> seq_of c ` dom (nodes c) \<Longrightarrow> fresh_id J c (Some jmsg)"
  by (auto simp: fresh_id_def has_id_def)

lemma send_fresh_inv:
  assumes "client_inv c" and "fresh_id J c m" and "0 < tick" and "send_request J os c m tick = Inr (r, c')"
  shows "client_inv c'"
proof (cases "\<exists>jmsg req. m = Some jmsg \<and> has_id J jmsg req")
  case True
  then obtain jmsg req where m: "m = Some jmsg" "has_id J jmsg req" by blast
  with assms(2) have "id_sequence req \<notin> seq_of c ` dom (nodes c)" by (simp add: fresh_id_def)
  from send_request_cases [OF assms(1) m(2) this assms(3)] assms(4) m(1) show ?thesis by simp
next
  case False
  with assms(4) have "c' = c"
    by (auto simp: send_request_def has_id_def ebind_eq_Inr_iff split: option.splits)
  with assms(1) show ?thesis by simp
qed

lemma terminate_client_inv: "client_inv c \<Longrightarrow> client_inv (snd (snd (json_hal_client_terminate c stopped)))"
proof -
  assume inv: "client_inv c"
  then have "dom (nodes c |` (- set (g_request_msg_tracking c))) = signalled c" by (auto simp: client_inv_def)
  moreover have "r \<in> ran (nodes c |` (- set (g_request_msg_tracking c))) \<Longrightarrow> r \<in> ran (nodes c)" for r
    by (auto simp: ran_def restrict_map_def split: if_splits)
  moreover have "inj_on (\<lambda>a. sequence (the ((nodes c |` (- set (g_request_msg_tracking c))) a))) (signalled c)"
    using inv by (auto simp: client_inv_def seq_of_def inj_on_def restrict_map_def)
  ultimately show ?thesis
    using inv by (auto simp: json_hal_client_terminate_def Let_def client_inv_def seq_of_def [abs_def])
qed

inductive client_reachable ::
  "'j json_c \<Rightarrow> ('j, 't) tokener \<Rightarrow> 'w os \<Rightarrow> bool \<Rightarrow> ('j, 'w) client \<Rightarrow> bool"
  for J :: "'j json_c" and T :: "('j, 't) tokener" and os :: "'w os" and blk :: bool where
  start: "client_reachable J T os blk (initial_client w)"
| init: "client_reachable J T os blk c \<Longrightarrow> json_hal_client_init J fs c path = Inr (rc, c') \<Longrightarrow> client_reachable J T os blk c'"
| thread: "client_reachable J T os blk c \<Longrightarrow> client_reachable J T os blk (c\<lparr>client_sock := sock, client_running := running\<rparr>)"
| connected: "client_reachable J T os blk c \<Longrightarrow> client_reachable J T os blk (snd (client_connected c fd))"
| disconnected: "client_reachable J T os blk c \<Longrightarrow> client_reachable J T os blk (snd (client_disconnected c fd))"
| header: "client_reachable J T os blk c \<Longrightarrow> json_hal_client_get_request_header J c action = Inr (j, c') \<Longrightarrow>
    client_reachable J T os blk c'"
| send: "client_reachable J T os blk c \<Longrightarrow> fresh_id J c m \<Longrightarrow>
    0 < tick \<Longrightarrow> send_request J os c m tick = Inr (r, c') \<Longrightarrow> client_reachable J T os blk c'"
| idle: "client_reachable J T os blk c \<Longrightarrow> request_idle_cb c = Inr (rc, c') \<Longrightarrow> client_reachable J T os blk c'"
| receive: "client_reachable J T os blk c \<Longrightarrow> response_parse_cb J T os blk c buffer len = Inr (rc, c') \<Longrightarrow>
    client_reachable J T os blk c'"
| collect: "client_reachable J T os blk c \<Longrightarrow> a \<in> signalled c \<Longrightarrow> collect_reply J c a = Inr (rc, reply, c') \<Longrightarrow>
    client_reachable J T os blk c'"
| subscribed: "client_reachable J T os blk c \<Longrightarrow> a \<in> signalled c \<Longrightarrow>
    subscribe_event_reply J c a cb path ty = Inr (rc, c') \<Longrightarrow> client_reachable J T os blk c'"
| terminate: "client_reachable J T os blk c \<Longrightarrow> client_reachable J T os blk (snd (snd (json_hal_client_terminate c stopped)))"

lemma unrelated_client_inv:
  "client_inv (c\<lparr>g_connected := b\<rparr>) = client_inv c" "client_inv (c\<lparr>g_req_id := n\<rparr>) = client_inv c"
  "client_inv (c\<lparr>g_hal_client_config := cfg\<rparr>) = client_inv c" "client_inv (c\<lparr>client_port := p\<rparr>) = client_inv c"
  "client_inv (c\<lparr>client_sock := k\<rparr>) = client_inv c" "client_inv (c\<lparr>client_running := b\<rparr>) = client_inv c"
  "client_inv (c\<lparr>g_event_tracking := es\<rparr>) = client_inv c"
  by (simp_all add: client_inv_def seq_of_def [abs_def] ticks_of_def)

lemma header_client_inv:
  "json_hal_client_get_request_header J c action = Inr (j, c') \<Longrightarrow> client_inv c' = client_inv c"
  by (auto simp: json_hal_client_get_request_header_def get_req_id_def result_simps Let_def unrelated_client_inv
      split: option.splits if_splits)

lemma client_init_inv: "json_hal_client_init J fs c path = Inr (rc, c') \<Longrightarrow> client_inv c' = client_inv c"
  by (auto simp: json_hal_client_init_def result_simps Let_def unrelated_client_inv split: option.splits if_splits)

lemma collect_client_inv:
  assumes "client_inv c" and "a \<in> signalled c" and "collect_reply J c a = Inr (rc, reply, c')"
  shows "client_inv c'"
  using assms(3) collect_reply_woken [OF assms(1,2), of J] free_woken_inv [OF assms(1,2)] by auto

lemma reachable_client_inv:
  assumes "client_reachable J T os blk c"
  shows "client_inv c"
  using assms
proof (induction rule: client_reachable.induct)
  case (start w)
  show ?case by (simp add: client_inv_def initial_client_def)
next
  case (init c fs path rc c')
  then show ?case using client_init_inv by blast
next
  case (thread c sock running)
  then show ?case by (simp add: unrelated_client_inv)
next
  case (connected c fd)
  then show ?case by (simp add: client_connected_def unrelated_client_inv)
next
  case (disconnected c fd)
  then show ?case by (simp add: client_disconnected_def unrelated_client_inv)
next
  case (header c action j c')
  then show ?case using header_client_inv by blast
next
  case (send c m tick r c')
  from send_fresh_inv [OF send(5,2,3,4)] show ?case .
next
  case (idle c rc c')
  with request_tracking_fold [OF idle(3)] show ?case by (auto simp: request_idle_cb_def)
next
  case (receive c buffer len rc c')
  from tracking.response_keeps [OF receive(3,2)] show ?case .
next
  case (collect c a rc reply c')
  from collect_client_inv [OF collect(4,2,3)] show ?case .
next
  case (subscribed c a cb path ty rc c')
  from subscribed(3) obtain rc1 reply c1 where "collect_reply J c a = Inr (rc1, reply, c1)"
    "c' = c1 \<or> (\<exists>es. c' = c1\<lparr>g_event_tracking := es\<rparr>)"
    by (auto simp: subscribe_event_reply_def ebind_eq_Inr_iff split: if_splits)
  with collect_client_inv [OF subscribed(4,2)] show ?case by (auto simp: unrelated_client_inv)
next
  case (terminate c stopped)
  from terminate_client_inv [OF terminate(2)] show ?case .
qed


lemma send_request_sent:
  assumes "has_id J jmsg req" and "send_request J os c (Some jmsg) tick = Inr (Some b, c0)"
  shows "b = next_node c \<and> (\<exists>w ms. c0 = (track c \<lparr>sequence = id_sequence req, rq_buffer = '''', rq_len = 0, rq_rc = RETURN_ERR,
     ticker = tick\<rparr>)\<lparr>client_world := w, client_sent := ms\<rparr>)"
proof -
  let ?r = "\<lparr>sequence = id_sequence req, rq_buffer = '''', rq_len = 0, rq_rc = RETURN_ERR, ticker = tick\<rparr>"
  let ?a = "next_node c"
  from assms have "ebind (json_message_send J os (track c ?r) (Some jmsg)) (\<lambda>(rc, c).
       if rc \<noteq> RETURN_OK
       then ebind (request_delete_cb c (id_sequence req)) (\<lambda>c. Inr (None, c\<lparr>nodes := (nodes c)(?a := None)\<rparr>))
       else Inr (Some ?a, c)) = Inr (Some b, c0)"
    by (auto simp: send_request_def has_id_def Let_def track_def)
  then obtain rc c1 where m: "json_message_send J os (track c ?r) (Some jmsg) = Inr (rc, c1)"
    and rest: "(if rc \<noteq> RETURN_OK
       then ebind (request_delete_cb c1 (id_sequence req)) (\<lambda>c. Inr (None, c\<lparr>nodes := (nodes c)(?a := None)\<rparr>))
       else Inr (Some ?a, c1)) = Inr (Some b, c0)" by (rule ebind_pairE)
  then have "b = ?a" "c0 = c1" by (auto simp: ebind_eq_Inr_iff split: if_splits)
  with message_send_keeps [OF m] show ?thesis by blast
qed

text \<open>Two linked nodes with one number: the reply goes to the first, and collecting it unlinks the
  second.\<close>

lemma deliver_to_first:
  assumes "set (L @ [b]) \<subseteq> dom (nodes c)" and "g_request_msg_tracking c = L @ [b]" and "distinct (L @ [b])"
    and "inj_on (seq_of c) (set L)" and "a \<in> set L" and "seq_of c b = seq_of c a" and "len < 65536"
  shows "\<exists>c1 reply c2. deliver_response c (seq_of c a) buffer len = Inr c1 \<and> collect_reply J c1 a = Inr (RETURN_OK, reply, c2)
    \<and> nodes c2 = (nodes c)(a := None) \<and> g_request_msg_tracking c2 = remove1 a L \<and> signalled c2 = signalled c - {a}"
proof -
  note live = assms(1) [folded assms(2)]
  let ?c1 = "wake c a ((the (nodes c a))\<lparr>rq_buffer := strncpy (nat len) buffer, rq_rc := RETURN_OK, rq_len := len\<rparr>)"
  let ?seq = "seq_of c a"
  have "find_node c ?seq (g_request_msg_tracking c) = Inr (Some a)"
    unfolding find_node_find [OF live] using find_inj [OF assms(4,5)] by (simp add: assms(2) find_append)
  then have d: "deliver_response c ?seq buffer len = Inr ?c1"
    using assms(1,5,7) by (simp add: deliver_response_def wake_def subset_iff)
  have L1: "g_request_msg_tracking ?c1 = remove1 a L @ [b]" using assms(2,5) by (simp add: remove1_append)
  have live1: "set (g_request_msg_tracking ?c1) \<subseteq> dom (nodes ?c1)"
    using assms(1) unfolding L1 by (auto dest: notin_set_remove1)
  have seq1: "seq_of ?c1 x = seq_of c x" for x by (simp add: seq_of_def)
  have "seq_of c x \<noteq> ?seq" if "x \<in> set (remove1 a L)" for x
    using that assms(3-5) by (auto simp: inj_on_def)
  then have "find (\<lambda>x. seq_of ?c1 x = ?seq) (remove1 a L) = None" by (auto simp: find_None_iff seq1)
  moreover have "seq_of ?c1 b = ?seq" by (simp only: seq1 assms(6))
  ultimately have "find (\<lambda>x. seq_of ?c1 x = ?seq) (g_request_msg_tracking ?c1) = Some b"
    unfolding L1 by (simp add: find_append)
  then have "find_node ?c1 ?seq (g_request_msg_tracking ?c1) = Inr (Some b)"
    unfolding find_node_find [OF live1] by (simp only:)
  then have del: "request_delete_cb ?c1 ?seq = Inr (?c1\<lparr>g_request_msg_tracking := remove1 a L\<rparr>)"
    using assms(3) L1 by (simp add: request_delete_cb_def remove1_append notin_set_remove1)
  have s: "sequence (the (nodes ?c1 a)) = ?seq" using seq1 [of a] by (simp add: seq_of_def)
  have "length (strncpy (nat len) buffer) < 65536" using strncpy_length [of "nat len" buffer] assms(7) by linarith
  with del s have col: "\<exists>reply. collect_reply J ?c1 a = Inr (RETURN_OK, reply,
      ?c1\<lparr>g_request_msg_tracking := remove1 a L, nodes := (nodes ?c1)(a := None), signalled := signalled ?c1 - {a}\<rparr>)"
    by (simp add: collect_reply_def node_def)
  then show ?thesis using d by fastforce
qed

text \<open>
  A request sent under an id that is in use is lost. If a request is waiting and another one is
  sent under the same number, the reply to that number wakes the first one; when its owner collects the reply, the
  deletion by number unlinks the second one, which then is neither linked nor signalled, so
  that neither a reply nor the timeout wakes its owner.
\<close>

lemma reused_id_loses_request:
  assumes "client_inv c" and "a \<in> set (g_request_msg_tracking c)" and "has_id J jmsg req"
    and "id_sequence req = seq_of c a" and "send_request J os c (Some jmsg) tick = Inr (Some b, c0)" and "len < 65536"
  shows "\<exists>c1 reply c2. deliver_response c0 (id_sequence req) buffer len = Inr c1
    \<and> collect_reply J c1 a = Inr (RETURN_OK, reply, c2)
    \<and> nodes c2 b \<noteq> None \<and> b \<notin> set (g_request_msg_tracking c2) \<and> b \<notin> signalled c2"
proof -
  let ?r = "\<lparr>sequence = id_sequence req, rq_buffer = '''', rq_len = 0, rq_rc = RETURN_ERR, ticker = tick\<rparr>"
  let ?L = "g_request_msg_tracking c"
  obtain w ms where c0: "c0 = (track c ?r)\<lparr>client_world := w, client_sent := ms\<rparr>" and b: "b = next_node c"
    using send_request_sent [OF assms(3,5)] by blast
  have ab: "a \<noteq> b" "b \<notin> set ?L" "b \<notin> signalled c" "distinct ?L" using assms(1,2) b by (auto simp: client_inv_def)
  have seq: "seq_of c0 x = (if x = b then id_sequence req else seq_of c x)" for x
    by (simp add: c0 b track_def seq_of_def)
  have "inj_on (seq_of c0) (set ?L)" using inv_list_inj [OF assms(1)] ab(2) by (auto simp: inj_on_def seq)
  moreover have "g_request_msg_tracking c0 = ?L @ [b]" "set (?L @ [b]) \<subseteq> dom (nodes c0)"
    using inv_list_live [OF assms(1)] by (auto simp: c0 b track_def)
  moreover have "seq_of c0 b = seq_of c0 a" "seq_of c0 a = id_sequence req" using ab(1) assms(4) by (simp_all add: seq)
  ultimately obtain c1 reply c2 where "deliver_response c0 (id_sequence req) buffer len = Inr c1"
    "collect_reply J c1 a = Inr (RETURN_OK, reply, c2)" "nodes c2 = (nodes c0)(a := None)"
    "g_request_msg_tracking c2 = remove1 a ?L" "signalled c2 = signalled c0 - {a}"
    using deliver_to_first [of ?L b c0 a len buffer J] ab assms(2,6) by auto
  moreover have "nodes c0 b \<noteq> None" "b \<notin> signalled c0" using ab(3) by (simp_all add: c0 b track_def)
  ultimately show ?thesis using ab by (auto dest: notin_set_remove1)
qed

section \<open>Examples\<close>

text \<open>A client with one pending request.\<close>

definition print_json :: "json json_c" where
  "print_json = tree_json (\<lambda>_. Some ''{}'') (\<lambda>_. Some (JBool True))"

definition example_message :: "string \<Rightarrow> json" where
  "example_message action = JObject [(''reqId'', Some (JString ''00000101'')), (''action'', Some (JString action))]"

abbreviation example_client :: "(json, string) client" where
  "example_client \<equiv> (initial_client [])\<lparr>client_sock := 5, client_running := True\<rparr>"

lemma example_has_id: "has_id print_json (example_message action) ''00000101''"
  by (simp add: has_id_def example_message_def print_json_def tree_json_def)

lemma example_client_reachable: "client_reachable print_json T (chunk_os 1) blk example_client"
  by (rule client_reachable.thread [OF client_reachable.start])

lemma example_send:
  "\<exists>c. send_request print_json (chunk_os 1) example_client (Some (example_message ''getParameters'')) 40 = Inr (Some 0, c)
     \<and> client_reachable print_json T (chunk_os 1) blk c
     \<and> g_request_msg_tracking c = [0] \<and> seq_of c 0 = id_sequence ''00000101'' \<and> ticks_of c 0 = 40 \<and> client_inv c"
proof -
  have fresh: "id_sequence ''00000101'' \<notin> seq_of example_client ` dom (nodes example_client)"
    by (simp add: initial_client_def)
  have "\<exists>c. send_request print_json (chunk_os 1) example_client (Some (example_message ''getParameters'')) 40 = Inr (Some 0, c)"
    by (simp add: send_request_def example_message_def print_json_def tree_json_def json_message_send_def initial_client_def
        json_rpc_client_send_data_def chunk_os_def cstr_def Let_def RETURN_ERR_def)
  then obtain c where c: "send_request print_json (chunk_os 1) example_client (Some (example_message ''getParameters'')) 40 = Inr (Some 0, c)"
    by blast
  have "client_inv example_client" using reachable_client_inv [OF example_client_reachable] .
  from send_request_cases [OF this example_has_id fresh _ c] c
    client_reachable.send [OF example_client_reachable fresh_idI [OF example_has_id fresh] _ c]
  show ?thesis by (auto simp: initial_client_def)
qed


lemma reused_id_example:
  "\<exists>c c0 c1 reply c2. send_request print_json (chunk_os 1) example_client (Some (example_message ''getParameters'')) 40 = Inr (Some 0, c)
     \<and> send_request print_json (chunk_os 1) c (Some (example_message ''setParameters'')) 40 = Inr (Some 1, c0)
     \<and> deliver_response c0 (id_sequence ''00000101'') ''{...}'' 5 = Inr c1
     \<and> collect_reply print_json c1 0 = Inr (RETURN_OK, reply, c2)
     \<and> nodes c2 1 \<noteq> None \<and> 1 \<notin> set (g_request_msg_tracking c2) \<and> 1 \<notin> signalled c2"
proof -
  let ?send = "\<lambda>c action. send_request print_json (chunk_os 1) c (Some (example_message action)) 40"
  have "\<exists>c c0. ?send example_client ''getParameters'' = Inr (Some 0, c) \<and> ?send c ''setParameters'' = Inr (Some 1, c0)"
    by (simp add: send_request_def example_message_def print_json_def tree_json_def json_message_send_def initial_client_def
        json_rpc_client_send_data_def chunk_os_def cstr_def Let_def RETURN_ERR_def)
  then obtain c c0 where c: "?send example_client ''getParameters'' = Inr (Some 0, c)" "?send c ''setParameters'' = Inr (Some 1, c0)"
    by blast
  with example_send have "g_request_msg_tracking c = [0]" "seq_of c 0 = id_sequence ''00000101''" "client_inv c" by fastforce+
  with reused_id_loses_request [OF _ _ example_has_id _ c(2), of 0 5 "''{...}''"] c show ?thesis by fastforce
qed

theorem unanswered_request_times_out_witness:
  "\<exists>c c'. send_request print_json (chunk_os 1) example_client (Some (example_message ''getParameters'')) 40 = Inr (Some 0, c)
     \<and> idle_times 40 c = Inr c' \<and> 0 \<in> signalled c' \<and> rq_rc (the (nodes c' 0)) = RETURN_ERR"
proof -
  obtain c where c: "send_request print_json (chunk_os 1) example_client (Some (example_message ''getParameters'')) 40 = Inr (Some 0, c)"
    "g_request_msg_tracking c = [0]" "ticks_of c 0 = 40" "client_inv c"
    using example_send by blast
  with unanswered_request_times_out [OF c(4), of 0 40] show ?thesis by auto
qed

theorem reply_reaches_its_request_witness:
  "\<exists>c c1 c2. send_request print_json (chunk_os 1) example_client (Some (example_message ''getParameters'')) 40 = Inr (Some 0, c)
     \<and> process_message print_json (chunk_os 1) False c (example_message ''getParametersResponse'') ''{...}'' 5 = Inr (True, c1)
     \<and> collect_reply print_json c1 0 = Inr (RETURN_OK, Some (Some (JBool True)), c2)"
proof -
  obtain c where c: "send_request print_json (chunk_os 1) example_client (Some (example_message ''getParameters'')) 40 = Inr (Some 0, c)"
    "g_request_msg_tracking c = [0]" "seq_of c 0 = id_sequence ''00000101''" "client_inv c"
    using example_send by blast
  have act: "jc_object_get_ex print_json (example_message ''getParametersResponse'') JSON_RPC_FIELD_ACTION =
      Some (Some (JString ''getParametersResponse''))"
    by (simp add: example_message_def print_json_def tree_json_def)
  have "\<not> starts_with (cstr (jc_get_string print_json (JString ''getParametersResponse''))) JSON_RPC_PUBLISH_EVENT_ACTION_NAME"
    by (simp add: print_json_def tree_json_def)
  from reply_reaches_its_request [OF c(4) _ _ act this example_has_id, of 0 5 "chunk_os 1" False "''{...}''"] c
  show ?thesis by (auto simp: print_json_def tree_json_def)
qed

text \<open>
  The number of ticks a caller gets. For a timeout in seconds that does not overflow the
  multiplication, the request lives between 40 and 480 ticks, four per second from 10 to 120
  seconds; a timeout of 2148 seconds or more overflows.
\<close>

lemma timeout_is_clamped:
  "(int_range (timeout * 1000000) \<longrightarrow>
      (\<exists>t. timeout_ticks timeout = Inr t \<and> 40 \<le> t \<and> t \<le> 480
         \<and> (10 \<le> timeout \<and> timeout \<le> 120 \<longrightarrow> t = 4 * timeout)
         \<and> (timeout \<le> 10 \<longrightarrow> t = 40) \<and> (120 \<le> timeout \<longrightarrow> t = 480)))
   \<and> (2148 \<le> timeout \<longrightarrow> timeout_ticks timeout = Inl Signed_Overflow)"
proof -
  have "\<bar>timeout * 1000000\<bar> div 250000 = 4 * \<bar>timeout\<bar>" by (simp add: abs_mult)
  then have "timeout * 1000000 sdiv 250000 = 4 * timeout"
    by (simp add: signed_divide_int_def sgn_mult) (simp add: sgn_if abs_if)
  then show ?thesis
    by (auto simp: timeout_ticks_def Let_def int_range_def config_defs)
qed

end
