(* ===== verification/Protocol.thy ===== *)
theory Protocol
  imports Client_Requests Server_Requests
begin

text \<open>
  The client library and the server library together: the messages one side makes are
  understood by the other. A call of the client that the server has handled returns, a
  subscription arrives as it was made, and the acknowledgement of a blocking event reaches the
  subscription that waits for it.
\<close>

section \<open>Replies carry the id of the request\<close>

definition echoes :: "'j json_c \<Rightarrow> 'j \<Rightarrow> string \<Rightarrow> bool" where
  "echoes J m req_id \<longleftrightarrow> jc_object_get_ex J m JSON_RPC_FIELD_ID = Some (Some (jc_new_string J req_id))
     \<and> (\<exists>ja. jc_object_get_ex J m JSON_RPC_FIELD_ACTION = Some (Some ja)
          \<and> \<not> starts_with (cstr (jc_get_string J ja)) JSON_RPC_PUBLISH_EVENT_ACTION_NAME)"

text \<open>The vendor's callbacks fill in the reply they are given and leave its header alone.\<close>

definition callbacks_echo :: "'j json_c \<Rightarrow> ('j, 'w, 'v) server \<Rightarrow> bool" where
  "callbacks_echo J s \<longleftrightarrow> (\<forall>r \<in> set (g_hal_functions_list s). \<forall>cb. acl_cb r = Some cb \<longrightarrow>
     (\<forall>w j n reply rc reply' w' req. cb w j n reply = Inr (rc, reply', w') \<longrightarrow> echoes J reply req \<longrightarrow> echoes J reply' req))"

lemma callbacks_echoD:
  assumes "callbacks_echo J s" and "r \<in> set (g_hal_functions_list s)" and "acl_cb r = Some cb"
    and "cb w j n reply = Inr (rc, reply', w')" and "echoes J reply req"
  shows "echoes J reply' req"
  using assms unfolding callbacks_echo_def by blast

lemma status_reply_echoes:
  assumes "json_c_ok J"
  shows "echoes J (create_json_reply_msg J c req_id ty) req_id"
  using assms by (simp add: echoes_def create_json_reply_msg_def)

lemma response_header_echoes:
  assumes "json_c_ok J"
  shows "echoes J (prepare_json_response_header J c action req_id) req_id"
  using assms by (simp add: echoes_def prepare_json_response_header_def Let_def)

lemma request_reply_echoes:
  assumes "sends_ok P" and "callbacks_echo (json P) s" and "request_is (json P) jobj req_id action"
    and "\<not> is_event_reply P s action" and "process_request P s fd jobj = Inr (flow, s', refs)"
  shows "\<exists>m. addressed (sent s') = addressed (sent s) @ [(fd, m)] \<and> echoes (json P) m req_id"
proof -
  note J = sends_ok_json [OF assms(1)]
  have reg: "r \<in> set (g_hal_functions_list s)" if "get_registered_rpc_action_by_name s action = Some r" for r
    using that by (auto simp: get_registered_rpc_action_by_name_def find_Some_iff)
  from assms(4,5) reg consider "process_unsupported P s fd req_id action 1 = Inr (flow, s', refs)"
    | r cb where "r \<in> set (g_hal_functions_list s)" "acl_cb r = Some cb"
        "process_action P s fd jobj req_id action cb 1 = Inr (flow, s', refs)"
    by (auto simp: process_request_eq [OF assms(3)] is_event_reply_def split: option.splits if_splits)
  then show ?thesis
  proof cases
    case 1
    then have "sent_one s fd (create_json_reply_msg (json P) (g_server_config s) req_id RESPONSE_NOT_SUPPORTED) s'"
      using process_unsupported_cases [OF assms(1)] by simp
    from sent_oneD [OF this] show ?thesis using status_reply_echoes [OF J] by blast
  next
    case 2
    show ?thesis
    proof (rule process_action_cases [OF assms(1) 2(3)])
      fix n rc j w
      assume run: "run_callback P s jobj req_id action cb n = Inr (rc, j, w)"
        and failed: "rc \<noteq> RETURN_OK \<Longrightarrow> sent_one s fd (create_json_reply_msg (json P) (g_server_config s) req_id RESPONSE_FAILURE) s'"
        and invalid: "rc = RETURN_OK \<Longrightarrow> reply_validates P (s\<lparr>world := w\<rparr>) j = Inr False \<Longrightarrow>
          sent_one s fd (create_json_reply_msg (json P) (g_server_config s) req_id RESPONSE_NOT_SUPPORTED) s'"
        and ok: "rc = RETURN_OK \<Longrightarrow> reply_validates P (s\<lparr>world := w\<rparr>) j \<noteq> Inr False \<Longrightarrow>
          \<exists>s1. sent_one s fd j s1 \<and> process_subscription P s1 fd jobj action 1 = Inr (Continue, s', 0)"
      have j: "echoes (json P) j req_id"
        using callbacks_echoD [OF assms(2) 2(1,2) run [unfolded run_callback_def]] response_header_echoes [OF J] by simp
      show ?thesis
      proof (cases "rc = RETURN_OK \<and> reply_validates P (s\<lparr>world := w\<rparr>) j \<noteq> Inr False")
        case True
        with ok obtain s1 where s1: "sent_one s fd j s1" "process_subscription P s1 fd jobj action 1 = Inr (Continue, s', 0)" by blast
        have "sent s' = sent s1" using process_subscription_released [OF s1(2)] by simp
        with sent_oneD [OF s1(1)] j show ?thesis by auto
      next
        case False
        then obtain ty where "sent_one s fd (create_json_reply_msg (json P) (g_server_config s) req_id ty) s'"
          using failed invalid by (cases "rc = RETURN_OK") auto
        from sent_oneD [OF this] show ?thesis using status_reply_echoes [OF J] by blast
      qed
    qed
  qed
qed

section \<open>A call returns with the reply to it\<close>

text \<open>Every live request of a client has an id the library gave out before.\<close>

definition ids_given_out :: "('j, 'w) client \<Rightarrow> bool" where
  "ids_given_out c \<longleftrightarrow> (\<forall>a \<in> dom (nodes c). \<exists>m. 0 \<le> m \<and> m \<le> g_req_id c \<and> seq_of c a = id_sequence (show_8_8d m))"

lemma new_id_unused:
  assumes "ids_given_out c" and "0 \<le> g_req_id c" and "g_req_id c < 99999999"
  shows "id_sequence (show_8_8d (g_req_id c + 1)) \<notin> seq_of c ` dom (nodes c)"
proof
  assume "id_sequence (show_8_8d (g_req_id c + 1)) \<in> seq_of c ` dom (nodes c)"
  then obtain a where "a \<in> dom (nodes c)" "id_sequence (show_8_8d (g_req_id c + 1)) = seq_of c a" by blast
  with assms(1) obtain m where m: "0 \<le> m" "m \<le> g_req_id c" "id_sequence (show_8_8d (g_req_id c + 1)) = id_sequence (show_8_8d m)"
    unfolding ids_given_out_def by metis
  from id_sequence_inject [OF _ _ _ _ m(3)] m(1,2) assms(2,3) show False by simp
qed

lemma header_is_request:
  assumes "json_c_ok J" and "has_id J j i" and "jc_object_get_ex J j JSON_RPC_FIELD_ACTION = Some (Some (jc_new_string J action))"
    and "nul_free action" and "length action < 64" and "length i < 64"
  shows "request_is J j i action"
proof -
  from assms(2) obtain ji where "jc_object_get_ex J j JSON_RPC_FIELD_ID = Some (Some ji)" "cstr (jc_get_string J ji) = i"
    by (auto simp: has_id_def)
  moreover from this have "i = strncpy 64 (jc_get_string J ji)" using assms(6) by (auto simp: strncpy_def)
  moreover have "action = strncpy 64 (jc_get_string J (jc_new_string J action))"
    using assms(1,4,5) by (simp add: strncpy_def)
  ultimately show ?thesis using assms(3) unfolding request_is_def by blast
qed

text \<open>
  C1: a call returns with the reply to it. A client makes a request with the header of the
  library and sends it; whenever the server gets through that request, it sends one message,
  and when this message reaches the client, in whatever buffer, the call it answers returns
  \<open>RETURN_OK\<close> with the text of the buffer, and all other requests are as before the call.
\<close>

theorem call_returns_with_its_reply:
  assumes "sends_ok P" and "client_inv c" and "ids_given_out c" and "0 \<le> g_req_id c" and "g_req_id c < 99999999"
    and "nul_free action" and "length action < 64"
    and "json_hal_client_get_request_header (json P) c (Some action) = Inr (Some j, c1)"
    and "json_hal_client_send_and_get_reply (json P) os c1 (Some j) = Inr (Some a, c2)"
    and "callbacks_echo (json P) s" and "\<not> is_event_reply P s action"
    and "process_request P s fd j = Inr (flow, s', refs)" and "len < 65536"
  shows "\<exists>m c3 c4. addressed (sent s') = addressed (sent s) @ [(fd, m)]
    \<and> process_message (json P) os blk c2 m buffer len = Inr (True, c3)
    \<and> collect_reply (json P) c3 a = Inr (RETURN_OK, Some (jc_parse (json P) (strncpy (nat len) buffer)), c4)
    \<and> nodes c4 = (nodes c2)(a := None) \<and> g_request_msg_tracking c4 = g_request_msg_tracking c \<and> client_inv c4"
proof -
  let ?J = "json P" and ?id = "show_8_8d (g_req_id c + 1)"
  note J = sends_ok_json [OF assms(1)]
  from request_header_id [OF J assms(4,5), of action] assms(8)
  have c1: "c1 = c\<lparr>g_req_id := g_req_id c + 1\<rparr>" and id: "has_id ?J j ?id"
    and act: "jc_object_get_ex ?J j JSON_RPC_FIELD_ACTION = Some (Some (jc_new_string ?J action))" by auto
  have id8: "decimal ?id" "length ?id = 8" using show_8_8d_eight [of "g_req_id c + 1"] assms(4,5) by simp_all
  have inv1: "client_inv c1" using assms(2) by (simp add: c1 unrelated_client_inv)
  have unused: "id_sequence ?id \<notin> seq_of c1 ` dom (nodes c1)"
    using new_id_unused [OF assms(3-5)] by (simp add: c1 seq_of_def [abs_def])
  from send_request_cases [OF inv1 id unused _ assms(9) [unfolded json_hal_client_send_and_get_reply_def]]
  have c2: "client_inv c2" "nodes c1 a = None" "g_request_msg_tracking c2 = g_request_msg_tracking c1 @ [a]"
    "seq_of c2 a = id_sequence ?id" by simp_all
  have req: "request_is ?J j ?id action" using id8 by (intro header_is_request [OF J id act assms(6,7)]) simp
  obtain m where m: "addressed (sent s') = addressed (sent s) @ [(fd, m)]" "echoes ?J m ?id"
    using request_reply_echoes [OF assms(1,10) req assms(11,12)] by blast
  from m(2) obtain ja where ja: "jc_object_get_ex ?J m JSON_RPC_FIELD_ACTION = Some (Some ja)"
    "\<not> starts_with (cstr (jc_get_string ?J ja)) JSON_RPC_PUBLISH_EVENT_ACTION_NAME" unfolding echoes_def by blast
  have mid: "has_id ?J m ?id" using m(2) id8 J by (simp add: echoes_def has_id_def decimal_nul_free)
  have linked: "a \<in> set (g_request_msg_tracking c2)" by (simp add: c2(3))
  have fresh: "a \<notin> set (g_request_msg_tracking c)" using c2(2) inv1 by (auto simp: c1 client_inv_def)
  from deliver_and_collect [OF c2(1) linked assms(13) ja mid c2(4) [symmetric], of os blk buffer] m(1) fresh
  show ?thesis by (auto simp: c2(3) c1 remove1_append)
qed

section \<open>Subscriptions\<close>

lemma strncmp_eq_short: "length p < n \<Longrightarrow> strncmp_eq t p n \<longleftrightarrow> t = p"
  by (metis append.right_neutral append_take_drop_id leD le_cases strncmp_eq_def take_all_iff length_take min.absorb2)

lemma notification_type_exact:
  "notification_type ty = (if ty = ''onChangeSync'' then NOTIFICATION_TYPE_ON_CHANGE_SYNC
     else if ty = ''onChangeSyncTimeout'' then NOTIFICATION_TYPE_ON_CHANGE_SYNC_TIMEOUT
     else NOTIFICATION_TYPE_ON_CHANGE)"
  by (simp add: notification_type_def strncmp_eq_short)

text \<open>
  C24: a subscription arrives as it was made. The message the client makes for an event name that
  fits its array is a request for the action \<^verbatim>\<open>subscribeEvent\<close> under the next id, and the
  server reads from it the event name. In the blocking build it also reads the notification type:
  \<^verbatim>\<open>onChangeSync\<close> and \<^verbatim>\<open>onChangeSyncTimeout\<close> as these types, and \<^verbatim>\<open>onChange\<close> and
  everything else as \<^verbatim>\<open>onChange\<close>. In the default build every subscription is read as \<^verbatim>\<open>onChange\<close>, whatever was asked for.
\<close>

theorem subscription_arrives_as_made:
  assumes "json_c_ok (json P)" and "0 \<le> g_req_id c" and "g_req_id c < 99999999"
    and "nul_free path" and "length path < 512" and "nul_free ty"
  shows "\<exists>m c'. create_event_subscription_message (json P) c path ty = Inr (Some m, c')
    \<and> request_is (json P) m (show_8_8d (g_req_id c + 1)) JSON_RPC_SUBSCRIBE_EVENT_ACTION_NAME
    \<and> json_hal_get_subscribe_event_request P (Some m) JSON_RPC_PARAM_ARR_INDEX = Inr (RETURN_OK,
        \<lparr>sr_name = path, sr_type =
           if blocking P \<and> ty = ''onChangeSync'' then NOTIFICATION_TYPE_ON_CHANGE_SYNC
           else if blocking P \<and> ty = ''onChangeSyncTimeout'' then NOTIFICATION_TYPE_ON_CHANGE_SYNC_TIMEOUT
           else NOTIFICATION_TYPE_ON_CHANGE\<rparr>)"
proof -
  let ?J = "json P" and ?id = "show_8_8d (g_req_id c + 1)"
  let ?p = "jc_object_add ?J (jc_object_add ?J (jc_new_object ?J) JSON_RPC_FIELD_PARAM_NAME (jc_new_string ?J path))
      JSON_RPC_FIELD_PARAM_NOTIFICATION_TYPE (jc_new_string ?J ty)"
  obtain j where hdr: "json_hal_client_get_request_header ?J c (Some JSON_RPC_SUBSCRIBE_EVENT_ACTION_NAME) = Inr (Some j, c\<lparr>g_req_id := g_req_id c + 1\<rparr>)"
    and id: "has_id ?J j ?id"
    and act: "jc_object_get_ex ?J j JSON_RPC_FIELD_ACTION = Some (Some (jc_new_string ?J JSON_RPC_SUBSCRIBE_EVENT_ACTION_NAME))"
    and par: "jc_object_get_ex ?J j JSON_RPC_FIELD_PARAMS = Some (Some (jc_new_array ?J))"
    using request_header_id [OF assms(1-3), of JSON_RPC_SUBSCRIBE_EVENT_ACTION_NAME] by auto
  let ?m = "jc_update_member ?J j JSON_RPC_FIELD_PARAMS (jc_array_add ?J (jc_new_array ?J) ?p)"
  note upd = update_member_simps [OF assms(1) par, of "jc_array_add ?J (jc_new_array ?J) ?p"]
  have made: "create_event_subscription_message ?J c path ty = Inr (Some ?m, c\<lparr>g_req_id := g_req_id c + 1\<rparr>)"
    using par assms(1) by (simp add: create_event_subscription_message_def hdr arr_add_def Let_def)
  have "length ?id < 64" using show_8_8d_eight [of "g_req_id c + 1"] assms(2,3) by simp
  then have "request_is ?J ?m ?id JSON_RPC_SUBSCRIBE_EVENT_ACTION_NAME"
    using id act upd(2) by (intro header_is_request [OF assms(1)]) (simp_all add: has_id_def)
  moreover have "json_hal_get_subscribe_event_request P (Some ?m) 0 = Inr (RETURN_OK,
      \<lparr>sr_name = path, sr_type = (if blocking P then notification_type ty else NOTIFICATION_TYPE_ON_CHANGE)\<rparr>)"
    using assms by (simp add: json_hal_get_subscribe_event_request_def Let_def upd(2) strncpy_def)
  ultimately show ?thesis using made by (auto simp: notification_type_exact cong: if_cong)
qed

section \<open>Acknowledgements\<close>

lemma update_event_status_all:
  assumes "length (es_event data) < 512" and "length (es_req_id data) < 64"
  shows "update_event_status fd data es = Inr (map (\<lambda>e.
    if starts_with (es_event e) (es_event data) \<and> es_fd e = fd \<and> starts_with (es_req_id e) (es_req_id data)
    then e\<lparr>es_status := es_status data\<rparr> else e) es)"
  using assms by (induction es) (auto simp del: starts_with_simps)

text \<open>
  C25: the acknowledgement of an event reaches the subscriptions that wait for it. In the blocking
  build the client answers event message \<open>n\<close> with the number it carries; the server releases
  the answer, sends nothing, and sets the status of exactly those subscriptions of the client
  whose event name and awaited id start with the name and the number acknowledged.
\<close>

theorem acknowledgement_reaches_subscription:
  assumes "json_c_ok (json P)" and "blocking P" and "int_range n" and "nul_free ev" and "length ev < 512"
    and "get_registered_rpc_action_by_name s JSON_RPC_ACTION_RESULT = None" and "\<not> subscription_mutex s"
  shows "\<exists>m s'. answer_event (json P) os c (publish_event_body (json P) cfg n ev v) ev 1 =
        ebind (json_message_send (json P) os c (Some m)) (\<lambda>(rc, c). Inr (c, 1))
    \<and> process_request P s fd m = Inr (Continue, s', 0) \<and> sent s' = sent s
    \<and> g_event_subscriptions_list s' = map (\<lambda>e.
        if starts_with (es_event e) ev \<and> es_fd e = fd \<and> starts_with (es_req_id e) (show_int n)
        then e\<lparr>es_status := EVENT_REPLY_SUCCESS\<rparr> else e) (g_event_subscriptions_list s)"
proof -
  let ?J = "json P" and ?es = "g_event_subscriptions_list s"
  let ?m = "create_json_reply_event_msg ?J (g_hal_client_config c) ev (show_int n) RESPONSE_SUCCESS"
  let ?d = "zero_subscription\<lparr>es_status := EVENT_REPLY_SUCCESS, es_event := ev, es_req_id := show_int n\<rparr>"
  have len: "strncpy 64 (show_int n) = show_int n" "length (show_int n) < 64"
    using strncpy_show_int [OF assms(3)] show_int_length [of n] assms(3)
    by (auto simp: strncpy_def int_range_def long_range_def config_defs)
  have ans: "answer_event ?J os c (publish_event_body ?J cfg n ev v) ev 1 =
      ebind (json_message_send ?J os c (Some ?m)) (\<lambda>(rc, c). Inr (c, 1))"
    using assms(1,3) len by (simp add: answer_event_def)
  have req: "request_is ?J ?m (show_int n) JSON_RPC_ACTION_RESULT"
    using assms(1) len by (intro header_is_request) (simp_all add: create_json_reply_event_msg_def has_id_def)
  have data: "get_event_reply_data_from_msg ?J ?m 1 zero_subscription = Inr (RETURN_OK, ?d, 1)"
    using assms(1,4,5) len
    by (simp add: get_event_reply_data_from_msg_def event_reply_fields_def event_reply_name_def event_reply_id_def
        create_json_reply_event_msg_def status_object_def strncpy_def)
  let ?map = "map (\<lambda>e. if starts_with (es_event e) ev \<and> es_fd e = fd \<and> starts_with (es_req_id e) (show_int n)
        then e\<lparr>es_status := EVENT_REPLY_SUCCESS\<rparr> else e) ?es"
  have upd: "update_event_status fd ?d ?es = Inr ?map"
    using update_event_status_all [of ?d fd ?es] assms(5) len by simp
  have "process_request P s fd ?m = process_event_reply P s fd ?m 1"
    using assms(2,6) by (simp add: process_request_eq [OF req])
  also have "\<dots> = Inr (Continue, s\<lparr>g_event_subscriptions_list := ?map\<rparr>, 0)"
    using data upd assms(7) by (cases s) (simp add: process_event_reply_def lock_subscriptions_def unlock_subscriptions_def)
  finally show ?thesis using ans by (intro exI [of _ ?m]) simp
qed

section \<open>Examples\<close>

theorem subscription_arrives_as_made_witness:
  "\<exists>m c'. create_event_subscription_message (json example_blocking_platform) (initial_client [] :: (json, string) client)
        ''Dsl.Line'' ''onChangeSync'' = Inr (Some m, c')
    \<and> json_hal_get_subscribe_event_request example_blocking_platform (Some m) 0 = Inr (RETURN_OK,
        \<lparr>sr_name = ''Dsl.Line'', sr_type = NOTIFICATION_TYPE_ON_CHANGE_SYNC\<rparr>)"
  using subscription_arrives_as_made [of example_blocking_platform "initial_client [] :: (json, string) client" "''Dsl.Line''" "''onChangeSync''"]
  by (auto simp: example_blocking_platform_def example_platform_def initial_client_def)

theorem acknowledgement_reaches_subscription_witness:
  "\<exists>m s'. process_request (example_platform\<lparr>blocking := True\<rparr>) (example_waiting WAIT_EVENT_REPLY_MSG) 7 m = Inr (Continue, s', 0)
     \<and> sent s' = sent (example_waiting WAIT_EVENT_REPLY_MSG)"
  using acknowledgement_reaches_subscription [of "example_platform\<lparr>blocking := True\<rparr>" 101 "''Dsl.Line''"
      "example_waiting WAIT_EVENT_REPLY_MSG" "chunk_os 1" example_client zero_config "''Up''" 7]
  by (auto simp: example_platform_def example_waiting_def example_subscribed_def initial_server_def
      get_registered_rpc_action_by_name_def int_range_def config_defs)

theorem call_returns_with_its_reply_witness:
  "\<exists>j c1 a c2 s' m c3 c4.
      json_hal_client_get_request_header (json example_platform) example_client (Some ''getStats'') = Inr (Some j, c1)
    \<and> json_hal_client_send_and_get_reply (json example_platform) (chunk_os 1) c1 (Some j) = Inr (Some a, c2)
    \<and> process_request example_platform (initial_server []) 7 j = Inr (Continue, s', 0)
    \<and> addressed (sent s') = [(7, m)]
    \<and> process_message (json example_platform) (chunk_os 1) False c2 m ''{}'' 2 = Inr (True, c3)
    \<and> collect_reply (json example_platform) c3 a = Inr (RETURN_OK, Some None, c4)"
proof -
  let ?P = example_platform and ?s = "initial_server [] :: (json, string, unit) server"
  let ?c1 = "example_client\<lparr>g_req_id := 101\<rparr>"
  have J: "json_c_ok (json ?P)" by (simp add: example_platform_def)
  obtain j where hdr: "json_hal_client_get_request_header (json ?P) example_client (Some ''getStats'') = Inr (Some j, ?c1)"
    and j: "has_id (json ?P) j (show_8_8d 101)"
    and act: "jc_object_get_ex (json ?P) j JSON_RPC_FIELD_ACTION = Some (Some (jc_new_string (json ?P) ''getStats''))"
    using request_header_id [OF J, of example_client "''getStats''"] by (auto simp: initial_client_def)
  from j have "\<exists>a c2. send_request (json ?P) (chunk_os 1) ?c1 (Some j) 40 = Inr (Some a, c2)"
    by (auto simp: send_request_def has_id_def json_message_send_def json_rpc_client_send_data_def example_platform_def
        tree_json_def chunk_os_def initial_client_def Let_def RETURN_ERR_def)
  then obtain a c2 where snd: "json_hal_client_send_and_get_reply (json ?P) (chunk_os 1) ?c1 (Some j) = Inr (Some a, c2)"
    by (auto simp: json_hal_client_send_and_get_reply_def)
  have "request_is (json ?P) j (show_8_8d 101) ''getStats''"
    by (rule header_is_request [OF J j act]) (simp_all add: show_8_8d_eight)
  moreover have none: "get_registered_rpc_action_by_name ?s x = None" for x
    by (simp add: get_registered_rpc_action_by_name_def initial_server_def)
  moreover have ev: "\<not> is_event_reply ?P ?s ''getStats''" by (simp add: is_event_reply_def)
  ultimately obtain s' where run: "process_request ?P ?s 7 j = Inr (Continue, s', 0)"
    using unsupported_runs [of ?P j "show_8_8d 101" "''getStats''" ?s 7] by (auto simp: show_8_8d_eight)
  have c: "client_inv example_client" "ids_given_out example_client" "0 \<le> g_req_id example_client" "g_req_id example_client < 99999999"
    by (simp_all add: client_inv_def ids_given_out_def initial_client_def)
  have "callbacks_echo (json ?P) ?s" by (simp add: callbacks_echo_def initial_server_def)
  from call_returns_with_its_reply [OF example_sends_ok c _ _ hdr snd this ev run, of 2 False "''{}''"]
  obtain m c3 c4 where "addressed (sent s') = addressed (sent ?s) @ [(7, m)]"
    "process_message (json ?P) (chunk_os 1) False c2 m ''{}'' 2 = Inr (True, c3)"
    "collect_reply (json ?P) c3 a = Inr (RETURN_OK, Some (jc_parse (json ?P) (strncpy (nat 2) ''{}'')), c4)" by auto
  moreover have "addressed (sent ?s) = []" "jc_parse (json ?P) x = None" for x
    by (simp_all add: initial_server_def example_platform_def tree_json_def)
  ultimately show ?thesis using hdr snd run
    by (intro exI [of _ j] exI [of _ ?c1] exI [of _ a] exI [of _ c2] exI [of _ s'] exI [of _ m] exI [of _ c3] exI [of _ c4]) simp
qed

end
