(* ===== verification/Tcp_Client.thy ===== *)
theory Tcp_Client
  imports Tcp_Sockets "HOL-Library.Multiset"
begin

text \<open>
  \<^verbatim>\<open>tcp_client.c\<close>: the socket thread of the client, a state machine that creates a
  socket, connects it (again and again until it succeeds) and receives, and that starts over
  when the server closes the connection. The theory shows that the callbacks are called in a
  sensible order and that no socket leaks.
\<close>

section \<open>Data\<close>

datatype SOCKET_TRANISTION_STAGE = SOCKET_INIT | SOCKET_CONNECT | SOCKET_RECEIVE

abbreviation (input) INVALID_SOCKFD :: int where "INVALID_SOCKFD \<equiv> (-1::int)"
abbreviation (input) SERVER_HOST :: string where "SERVER_HOST \<equiv> ''127.0.0.1''"

text \<open>The owner's data. The members \<^verbatim>\<open>sock\<close> and \<^verbatim>\<open>RUNNING\<close> are shared with other
  threads, so they are a part of the rest of the system.\<close>

record 'a rpc_client_data_t =
  cd_port :: int
  cd_host :: string
  func_connected :: "('a \<Rightarrow> int \<Rightarrow> 'a cres) option"
  func_disconnected :: "('a \<Rightarrow> int \<Rightarrow> 'a cres) option"
  func_parse :: "('a \<Rightarrow> int \<Rightarrow> string \<Rightarrow> int \<Rightarrow> 'a cres) option"
  func_idle :: "('a \<Rightarrow> 'a cres) option"
  get_sock :: "'a \<Rightarrow> int"
  set_sock :: "int \<Rightarrow> 'a \<Rightarrow> 'a"
  get_RUNNING :: "'a \<Rightarrow> bool"
  set_RUNNING :: "bool \<Rightarrow> 'a \<Rightarrow> 'a"

text \<open>The state of the thread. \<open>ct_session\<close>, \<open>ct_opened\<close> and \<open>ct_closed\<close> record, for the
  theorems only, what was reported and which sockets were opened and closed.\<close>

record 'a client_thread =
  ct_stage :: SOCKET_TRANISTION_STAGE
  g_rpc_client_running_status :: bool
  ct_rest :: 'a
  ct_session :: "session_event list"
  ct_opened :: "int list"
  ct_closed :: "int list"

section \<open>The stages\<close>

definition call_connected :: "'a rpc_client_data_t \<Rightarrow> 'a \<Rightarrow> 'a cres" where
  "call_connected D a = (case func_connected D of None \<Rightarrow> Inr a | Some f \<Rightarrow> f a (get_sock D a))"

definition call_disconnected :: "'a rpc_client_data_t \<Rightarrow> 'a \<Rightarrow> 'a cres" where
  "call_disconnected D a = (case func_disconnected D of None \<Rightarrow> Inr a | Some f \<Rightarrow> f a (get_sock D a))"

definition call_parse :: "'a rpc_client_data_t \<Rightarrow> 'a \<Rightarrow> string \<Rightarrow> int \<Rightarrow> 'a cres" where
  "call_parse D a buffer len = (case func_parse D of None \<Rightarrow> Inr a | Some f \<Rightarrow> f a (get_sock D a) buffer len)"

definition call_idle :: "'a rpc_client_data_t \<Rightarrow> 'a \<Rightarrow> 'a cres" where
  "call_idle D a = (case func_idle D of None \<Rightarrow> Inr a | Some f \<Rightarrow> f a)"

text \<open>Closing the socket and going back to the first stage.\<close>

definition drop_socket :: "'a sockets \<Rightarrow> 'a rpc_client_data_t \<Rightarrow> 'a client_thread \<Rightarrow> 'a client_thread" where
  "drop_socket O' D T =
     T\<lparr>ct_rest := set_sock D INVALID_SOCKFD (so_close O' (ct_rest T) (get_sock D (ct_rest T))),
       ct_closed := ct_closed T @ [get_sock D (ct_rest T)], ct_stage := SOCKET_INIT\<rparr>"

text \<open>\<open>False\<close> when the thread exits because no socket could be created.\<close>

definition stage_init ::
  "'a sockets \<Rightarrow> 'a rpc_client_data_t \<Rightarrow> 'a client_thread \<Rightarrow> bool \<times> 'a client_thread" where
  "stage_init O' D T =
     (let (sd, a) = so_socket O' (ct_rest T);
          T = T\<lparr>ct_rest := set_sock D sd a\<rparr>
      in if sd = -1 then (False, T)
         else (True, T\<lparr>ct_stage := SOCKET_CONNECT, ct_opened := ct_opened T @ [sd]\<rparr>))"

definition stage_connect ::
  "'a sockets \<Rightarrow> 'a rpc_client_data_t \<Rightarrow> 'a client_thread \<Rightarrow> 'a client_thread cres" where
  "stage_connect O' D T =
     (let (rc, errno, a) = so_connect O' (ct_rest T) (get_sock D (ct_rest T)) (cd_host D) (cd_port D);
          T = T\<lparr>ct_rest := a\<rparr>
      in if rc < 0
         then Inr (if errno = EBADF \<or> errno = EISCONN \<or> errno = EADDRNOTAVAIL then drop_socket O' D T else T)
         else ebind (call_connected D a) (\<lambda>a'.
           Inr (T\<lparr>ct_rest := a', ct_session := ct_session T @ [Connect (get_sock D a)], ct_stage := SOCKET_RECEIVE\<rparr>)))"

definition stage_receive ::
  "'a sockets \<Rightarrow> 'a rpc_client_data_t \<Rightarrow> 'a client_thread \<Rightarrow> 'a client_thread cres" where
  "stage_receive O' D T =
     (let sock = get_sock D (ct_rest T) in
      ebind (FD_SET sock {}) (\<lambda>read_set.
      let (sret, ready, a) = so_select O' (ct_rest T) (sock + 1) read_set;
          T = T\<lparr>ct_rest := a\<rparr>
      in if sret < 0 then Inr T
         else if sret = 0 then Inr T
         else if get_sock D a \<in> ready
         then
           (let (rc, buffer, a) = so_recv O' a (get_sock D a) MAX_BUFFER_SIZE;
                T = T\<lparr>ct_rest := a\<rparr>
            in if rc < 0 then Inr T
               else if rc = 0
               then ebind (call_disconnected D a) (\<lambda>a'.
                 Inr (drop_socket O' D (T\<lparr>ct_rest := a', ct_session := ct_session T @ [Disconnect (get_sock D a)]\<rparr>)))
               else ebind (call_parse D a buffer rc) (\<lambda>a'.
                 Inr (T\<lparr>ct_rest := a', ct_session := ct_session T @ [Data (get_sock D a) buffer]\<rparr>)))
         else Inr T))"

section \<open>The thread\<close>

text \<open>One turn of the loop: the current stage, then the idle callback.\<close>

definition client_turn ::
  "'a sockets \<Rightarrow> 'a rpc_client_data_t \<Rightarrow> 'a client_thread \<Rightarrow> (bool \<times> 'a client_thread) cres" where
  "client_turn O' D T =
     ebind (case ct_stage T of
              SOCKET_INIT \<Rightarrow> Inr (stage_init O' D T)
            | SOCKET_CONNECT \<Rightarrow> ebind (stage_connect O' D T) (\<lambda>T. Inr (True, T))
            | SOCKET_RECEIVE \<Rightarrow> ebind (stage_receive O' D T) (\<lambda>T. Inr (True, T)))
       (\<lambda>(go_on, T).
          if \<not> go_on then Inr (False, T)
          else ebind (call_idle D (ct_rest T)) (\<lambda>a. Inr (True, T\<lparr>ct_rest := a\<rparr>)))"

text \<open>The loop runs while \<^verbatim>\<open>RUNNING\<close> is set; the fuel counts its turns. \<open>False\<close> when the
  thread has exited in the middle.\<close>

fun client_loop ::
  "nat \<Rightarrow> 'a sockets \<Rightarrow> 'a rpc_client_data_t \<Rightarrow> 'a client_thread \<Rightarrow> (bool \<times> 'a client_thread) cres" where
  "client_loop 0 O' D T = Inl No_Return"
| "client_loop (Suc turns) O' D T =
     (if get_RUNNING D (ct_rest T)
      then ebind (client_turn O' D T) (\<lambda>(go_on, T). if go_on then client_loop turns O' D T else Inr (False, T))
      else Inr (True, T))"

definition client_thread_start :: "'a rpc_client_data_t \<Rightarrow> 'a \<Rightarrow> 'a client_thread" where
  "client_thread_start D a = \<lparr>ct_stage = SOCKET_INIT, g_rpc_client_running_status = True,
     ct_rest = set_RUNNING D True a, ct_session = [], ct_opened = [], ct_closed = []\<rparr>"

text \<open>What follows the loop: the socket is closed whatever the stage was.\<close>

definition client_thread_end :: "'a sockets \<Rightarrow> 'a rpc_client_data_t \<Rightarrow> 'a client_thread \<Rightarrow> 'a client_thread" where
  "client_thread_end O' D T =
     T\<lparr>ct_rest := set_sock D INVALID_SOCKFD (so_close O' (ct_rest T) (get_sock D (ct_rest T))),
       ct_closed := ct_closed T @ [get_sock D (ct_rest T)], g_rpc_client_running_status := False\<rparr>"

definition rpc_client_handler ::
  "nat \<Rightarrow> 'a sockets \<Rightarrow> 'a rpc_client_data_t option \<Rightarrow> 'a \<Rightarrow> 'a client_thread option cres" where
  "rpc_client_handler turns O' params a =
     (case params of
        None \<Rightarrow> Inr None
      | Some D \<Rightarrow>
          ebind (client_loop turns O' D (client_thread_start D a)) (\<lambda>(ended, T).
            Inr (Some (if ended then client_thread_end O' D T else T))))"

text \<open>Starting the thread: \<open>created\<close> is the result of \<^verbatim>\<open>pthread_create\<close>.\<close>

definition json_rpc_client_run :: "int \<Rightarrow> 'a rpc_client_data_t \<Rightarrow> 'a \<Rightarrow> int \<times> 'a" where
  "json_rpc_client_run created D a = (created, set_sock D INVALID_SOCKFD a)"

definition json_rpc_client_is_running :: "'a client_thread \<Rightarrow> bool" where
  "json_rpc_client_is_running T = g_rpc_client_running_status T"

section \<open>The invariant of the thread\<close>

text \<open>A client is reported connected exactly in the last stage, and every socket that was opened
  has been closed except the current one.\<close>

definition client_thread_inv :: "'a rpc_client_data_t \<Rightarrow> 'a client_thread \<Rightarrow> bool" where
  "client_thread_inv D T \<longleftrightarrow>
     legal {} (ct_session T) = Some (if ct_stage T = SOCKET_RECEIVE then {get_sock D (ct_rest T)} else {})
   \<and> mset (ct_opened T) = mset (ct_closed T) + (if ct_stage T = SOCKET_INIT then {#} else {#get_sock D (ct_rest T)#})"

text \<open>System calls, and the threads that run meanwhile, leave the socket number alone and keep
  what the owner maintains.\<close>

definition client_os_keeps :: "'a sockets \<Rightarrow> 'a rpc_client_data_t \<Rightarrow> (bool \<Rightarrow> 'a \<Rightarrow> bool) \<Rightarrow> bool" where
  "client_os_keeps O' D I \<longleftrightarrow>
     (\<forall>b a sd a'. so_socket O' a = (sd, a') \<longrightarrow> I b a \<longrightarrow> I b a' \<and> get_sock D a' = get_sock D a)
   \<and> (\<forall>b a sd h p rc e a'. so_connect O' a sd h p = (rc, e, a') \<longrightarrow> I b a \<longrightarrow> I b a' \<and> get_sock D a' = get_sock D a)
   \<and> (\<forall>b a n S rc W a'. so_select O' a n S = (rc, W, a') \<longrightarrow> I b a \<longrightarrow> I b a' \<and> get_sock D a' = get_sock D a)
   \<and> (\<forall>b a fd n rc d a'. so_recv O' a fd n = (rc, d, a') \<longrightarrow> I b a \<longrightarrow> I b a' \<and> get_sock D a' = get_sock D a)
   \<and> (\<forall>b a fd. I b a \<longrightarrow> I b (so_close O' a fd) \<and> get_sock D (so_close O' a fd) = get_sock D a)"

lemma client_os_keepsD:
  assumes "client_os_keeps O' D I"
  shows "so_socket O' a = (sd, a') \<Longrightarrow> I b a \<Longrightarrow> I b a' \<and> get_sock D a' = get_sock D a"
    and "so_connect O' a sd h p = (rc, e, a') \<Longrightarrow> I b a \<Longrightarrow> I b a' \<and> get_sock D a' = get_sock D a"
    and "so_select O' a n S = (rc, W, a') \<Longrightarrow> I b a \<Longrightarrow> I b a' \<and> get_sock D a' = get_sock D a"
    and "so_recv O' a fd m = (rc, d, a') \<Longrightarrow> I b a \<Longrightarrow> I b a' \<and> get_sock D a' = get_sock D a"
    and "I b a \<Longrightarrow> I b (so_close O' a fd) \<and> get_sock D (so_close O' a fd) = get_sock D a"
proof -
  note t = assms [unfolded client_os_keeps_def]
  note t2 = t [THEN conjunct2] note t3 = t2 [THEN conjunct2] note t4 = t3 [THEN conjunct2]
  show "so_socket O' a = (sd, a') \<Longrightarrow> I b a \<Longrightarrow> I b a' \<and> get_sock D a' = get_sock D a"
    by (rule t [THEN conjunct1, rule_format])
  show "so_connect O' a sd h p = (rc, e, a') \<Longrightarrow> I b a \<Longrightarrow> I b a' \<and> get_sock D a' = get_sock D a"
    by (rule t2 [THEN conjunct1, rule_format])
  show "so_select O' a n S = (rc, W, a') \<Longrightarrow> I b a \<Longrightarrow> I b a' \<and> get_sock D a' = get_sock D a"
    by (rule t3 [THEN conjunct1, rule_format])
  show "so_recv O' a fd m = (rc, d, a') \<Longrightarrow> I b a \<Longrightarrow> I b a' \<and> get_sock D a' = get_sock D a"
    by (rule t4 [THEN conjunct1, rule_format])
  show "I b a \<Longrightarrow> I b (so_close O' a fd) \<and> get_sock D (so_close O' a fd) = get_sock D a"
    by (rule t4 [THEN conjunct2, rule_format])
qed

definition client_ok :: "'a rpc_client_data_t \<Rightarrow> (bool \<Rightarrow> 'a \<Rightarrow> bool) \<Rightarrow> 'a client_thread \<Rightarrow> bool" where
  "client_ok D I T \<longleftrightarrow> client_thread_inv D T \<and> I (ct_stage T = SOCKET_RECEIVE) (ct_rest T)"

text \<open>The states the thread passes through at the ends of its turns.\<close>

inductive client_run :: "'a sockets \<Rightarrow> 'a rpc_client_data_t \<Rightarrow> 'a client_thread \<Rightarrow> 'a client_thread \<Rightarrow> bool"
  for O' D where
  refl: "client_run O' D T T"
| turn: "client_run O' D T T1 \<Longrightarrow> client_turn O' D T1 = Inr (go_on, T2) \<Longrightarrow> client_run O' D T T2"

lemma client_run_first:
  assumes "client_run O' D T1 T2" and "client_turn O' D T = Inr (go_on, T1)"
  shows "client_run O' D T T2"
  using assms
proof induction
  case refl
  then show ?case by (rule client_run.turn [OF client_run.refl])
next
  case turn
  then show ?case by (blast intro: client_run.turn)
qed

lemma client_loop_run: "client_loop turns O' D T = Inr (ended, T') \<Longrightarrow> client_run O' D T T'"
proof (induction turns arbitrary: T)
  case (Suc turns)
  show ?case
  proof (cases "get_RUNNING D (ct_rest T)")
    case False
    with Suc.prems show ?thesis by (simp add: client_run.refl)
  next
    case True
    with Suc.prems obtain go_on T1 where turn: "client_turn O' D T = Inr (go_on, T1)"
      and rest: "(if go_on then client_loop turns O' D T1 else Inr (False, T1)) = Inr (ended, T')"
      by (auto elim!: ebind_pairE)
    have "client_run O' D T1 T'"
      using rest Suc.IH [of T1] client_run.refl [of O' D T1] by (auto split: if_splits)
    then show ?thesis using turn by (rule client_run_first)
  qed
qed simp

text \<open>
  The contract between the thread and its owner: \<open>I b a\<close> is what the owner maintains, where
  \<open>b\<close> tells whether the client is connected.
\<close>

locale client_application =
  fixes D :: "'a rpc_client_data_t" and I :: "bool \<Rightarrow> 'a \<Rightarrow> bool"
  assumes sock_stored: "I b a \<Longrightarrow> get_sock D (set_sock D k a) = k"
    and sock_keeps: "I b a \<Longrightarrow> I b (set_sock D k a)"
    and connected_keeps: "I False a \<Longrightarrow> call_connected D a = Inr a' \<Longrightarrow> I True a' \<and> get_sock D a' = get_sock D a"
    and disconnected_keeps: "I True a \<Longrightarrow> call_disconnected D a = Inr a' \<Longrightarrow> I False a' \<and> get_sock D a' = get_sock D a"
    and parse_keeps: "I True a \<Longrightarrow> call_parse D a buffer len = Inr a' \<Longrightarrow> I True a' \<and> get_sock D a' = get_sock D a"
    and idle_keeps: "I b a \<Longrightarrow> call_idle D a = Inr a' \<Longrightarrow> I b a' \<and> get_sock D a' = get_sock D a"
begin

lemma init_keeps:
  assumes "client_os_keeps O' D I" and "client_ok D I T" and "ct_stage T = SOCKET_INIT" and "stage_init O' D T = (go_on, T')"
  shows "client_ok D I T'"
proof -
  obtain sd a where so: "so_socket O' (ct_rest T) = (sd, a)" by (cases "so_socket O' (ct_rest T)")
  from client_os_keepsD(1) [OF assms(1) so, of False] assms(2,3)
  have "I False (set_sock D sd a)" "get_sock D (set_sock D sd a) = sd"
    by (simp_all add: client_ok_def sock_keeps sock_stored [of False])
  with assms(2-4) so show ?thesis
    by (auto simp: stage_init_def Let_def client_ok_def client_thread_inv_def split: if_splits)
qed

lemma drop_keeps:
  assumes "client_os_keeps O' D I" and "I False (ct_rest T)"
    and "legal {} (ct_session T) = Some {}"
    and "mset (ct_opened T) = add_mset (get_sock D (ct_rest T)) (mset (ct_closed T))"
  shows "client_ok D I (drop_socket O' D T)"
  using client_os_keepsD(5) [OF assms(1,2)] assms(3,4)
  by (simp add: drop_socket_def client_ok_def client_thread_inv_def sock_keeps)

lemma connect_keeps:
  assumes "client_os_keeps O' D I" and "client_ok D I T" and "ct_stage T = SOCKET_CONNECT"
    and "stage_connect O' D T = Inr T'"
  shows "client_ok D I T'"
proof -
  let ?sock = "get_sock D (ct_rest T)"
  obtain rc e a where co: "so_connect O' (ct_rest T) ?sock (cd_host D) (cd_port D) = (rc, e, a)"
    by (metis prod_cases3)
  have a: "I False a" "get_sock D a = ?sock"
    using client_os_keepsD(2) [OF assms(1) co, of False] assms(2,3) by (simp_all add: client_ok_def)
  have T: "legal {} (ct_session T) = Some {}" "mset (ct_opened T) = add_mset ?sock (mset (ct_closed T))"
    using assms(2,3) by (simp_all add: client_ok_def client_thread_inv_def)
  show ?thesis
  proof (cases "rc < 0")
    case True
    have "client_ok D I (drop_socket O' D (T\<lparr>ct_rest := a\<rparr>))" using a T by (intro drop_keeps [OF assms(1)]) simp_all
    moreover have "client_ok D I (T\<lparr>ct_rest := a\<rparr>)" using assms(3) a T by (simp add: client_ok_def client_thread_inv_def)
    moreover have "T' = drop_socket O' D (T\<lparr>ct_rest := a\<rparr>) \<or> T' = T\<lparr>ct_rest := a\<rparr>"
      using True co assms(4) by (auto simp: stage_connect_def Let_def split: if_splits)
    ultimately show ?thesis by blast
  next
    case False
    with co assms(4) obtain a' where "call_connected D a = Inr a'"
      and T': "T' = T\<lparr>ct_rest := a', ct_session := ct_session T @ [Connect ?sock], ct_stage := SOCKET_RECEIVE\<rparr>"
      using a(2) by (auto simp: stage_connect_def elim!: ebindE)
    with connected_keeps [OF a(1)] a(2) T show ?thesis
      by (simp add: client_ok_def client_thread_inv_def legal_append)
  qed
qed

lemma receive_keeps:
  assumes "client_os_keeps O' D I" and "io_documented O'" and "client_ok D I T" and "ct_stage T = SOCKET_RECEIVE"
    and "stage_receive O' D T = Inr T'"
  shows "client_ok D I T'"
proof -
  let ?sock = "get_sock D (ct_rest T)"
  from assms(5) obtain S where S: "FD_SET ?sock {} = Inr S" by (cases "FD_SET ?sock {}") (simp_all add: stage_receive_def)
  obtain sret W a where sel: "so_select O' (ct_rest T) (?sock + 1) S = (sret, W, a)" by (metis prod_cases3)
  have a: "I True a" "get_sock D a = ?sock"
    using client_os_keepsD(3) [OF assms(1) sel, of True] assms(3,4) by (simp_all add: client_ok_def)
  obtain rc b a2 where rcv: "so_recv O' a ?sock MAX_BUFFER_SIZE = (rc, b, a2)" by (metis prod_cases3)
  have a2: "I True a2" "get_sock D a2 = ?sock"
    using client_os_keepsD(4) [OF assms(1) rcv a(1)] a(2) by simp_all
  have T: "legal {} (ct_session T) = Some {?sock}" "mset (ct_opened T) = add_mset ?sock (mset (ct_closed T))"
    using assms(3,4) by (simp_all add: client_ok_def client_thread_inv_def)
  consider "T' = T\<lparr>ct_rest := a\<rparr>" | "T' = T\<lparr>ct_rest := a2\<rparr>"
    | a3 where "rc = 0" "call_disconnected D a2 = Inr a3"
        "T' = drop_socket O' D (T\<lparr>ct_rest := a3, ct_session := ct_session T @ [Disconnect ?sock]\<rparr>)"
    | a3 where "rc > 0" "call_parse D a2 b rc = Inr a3"
        "T' = T\<lparr>ct_rest := a3, ct_session := ct_session T @ [Data ?sock b]\<rparr>"
    using assms(5) S sel rcv a(2) a2(2) by (auto simp: stage_receive_def Let_def elim!: ebindE split: if_splits)
  then show ?thesis
  proof cases
    case 3
    from disconnected_keeps [OF a2(1) 3(2)] a2(2) T 3(3) show ?thesis
      by (simp add: drop_keeps [OF assms(1)] legal_append)
  next
    case 4
    have "b \<noteq> []" using recvD(1) [OF assms(2) rcv] 4(1) by auto
    with parse_keeps [OF a2(1) 4(2)] a2(2) T 4(3) assms(4) show ?thesis
      by (simp add: client_ok_def client_thread_inv_def legal_append)
  qed (use a a2 T assms(4) in \<open>simp_all add: client_ok_def client_thread_inv_def\<close>)
qed

lemma turn_keeps:
  assumes "client_os_keeps O' D I" and "io_documented O'" and "client_ok D I T" and "client_turn O' D T = Inr (go_on, T')"
  shows "client_ok D I T'"
proof -
  let ?stage = "case ct_stage T of
              SOCKET_INIT \<Rightarrow> Inr (stage_init O' D T)
            | SOCKET_CONNECT \<Rightarrow> ebind (stage_connect O' D T) (\<lambda>T. Inr (True, T))
            | SOCKET_RECEIVE \<Rightarrow> ebind (stage_receive O' D T) (\<lambda>T. Inr (True, T))"
  from assms(4) obtain go T1 where st: "?stage = Inr (go, T1)"
    and idle: "(if \<not> go then Inr (False, T1) else ebind (call_idle D (ct_rest T1)) (\<lambda>a. Inr (True, T1\<lparr>ct_rest := a\<rparr>))) = Inr (go_on, T')"
    unfolding client_turn_def by (rule ebind_pairE)
  have ok: "client_ok D I T1"
    using st init_keeps [OF assms(1,3)] connect_keeps [OF assms(1,3)] receive_keeps [OF assms(1-3)]
    by (cases "ct_stage T") (auto elim!: ebindE)
  show ?thesis
  proof (cases go)
    case True
    with idle obtain a where "call_idle D (ct_rest T1) = Inr a" "T' = T1\<lparr>ct_rest := a\<rparr>" by (auto elim!: ebindE)
    with ok idle_keeps show ?thesis by (auto simp: client_ok_def client_thread_inv_def)
  qed (use idle ok in simp)
qed

lemma run_keeps:
  assumes "client_os_keeps O' D I" and "io_documented O'"
  shows "client_run O' D T T' \<Longrightarrow> client_ok D I T \<Longrightarrow> client_ok D I T'"
proof (induction rule: client_run.induct)
  case (turn T T1 go_on T2)
  then show ?case using turn_keeps [OF assms _ turn(2)] by simp
qed simp

end

section \<open>Properties\<close>

text \<open>Any owner whose callbacks leave the socket number alone may rely on the invariant of the
  thread itself.\<close>

definition client_callbacks_keep :: "'a rpc_client_data_t \<Rightarrow> bool" where
  "client_callbacks_keep D \<longleftrightarrow> (\<forall>k a. get_sock D (set_sock D k a) = k)
   \<and> (\<forall>a a'. call_connected D a = Inr a' \<longrightarrow> get_sock D a' = get_sock D a)
   \<and> (\<forall>a a'. call_disconnected D a = Inr a' \<longrightarrow> get_sock D a' = get_sock D a)
   \<and> (\<forall>a b n a'. call_parse D a b n = Inr a' \<longrightarrow> get_sock D a' = get_sock D a)
   \<and> (\<forall>a a'. call_idle D a = Inr a' \<longrightarrow> get_sock D a' = get_sock D a)"

interpretation any_client: client_application D "\<lambda>_ _. client_callbacks_keep D" for D :: "'a rpc_client_data_t"
  by unfold_locales (auto simp: client_callbacks_keep_def)

lemma client_os_keeps_const: "client_os_keeps O' D (\<lambda>_ _. True) \<Longrightarrow> client_os_keeps O' D (\<lambda>_ _. b)"
  by (simp add: client_os_keeps_def)

lemma turn_status: "client_turn O' D T = Inr (go_on, T') \<Longrightarrow> g_rpc_client_running_status T' = g_rpc_client_running_status T"
  by (cases "ct_stage T") (auto simp: client_turn_def stage_init_def stage_connect_def stage_receive_def
      drop_socket_def Let_def elim!: ebindE ebind_pairE split: if_splits prod.splits)

lemma run_status: "client_run O' D T T' \<Longrightarrow> g_rpc_client_running_status T' = g_rpc_client_running_status T"
  by (induction rule: client_run.induct) (auto dest: turn_status)

text \<open>The state before the last turn when no socket could be created.\<close>

definition socket_fails :: "'a sockets \<Rightarrow> 'a rpc_client_data_t \<Rightarrow> 'a client_thread \<Rightarrow> bool" where
  "socket_fails O' D T \<longleftrightarrow> get_RUNNING D (ct_rest T) \<and> ct_stage T = SOCKET_INIT \<and> fst (so_socket O' (ct_rest T)) = -1"

lemma turn_exits:
  "client_turn O' D T = Inr (False, T') \<Longrightarrow> ct_stage T = SOCKET_INIT \<and> fst (so_socket O' (ct_rest T)) = -1
     \<and> T' = T\<lparr>ct_rest := set_sock D (-1) (snd (so_socket O' (ct_rest T)))\<rparr>"
  by (cases "ct_stage T") (auto simp: client_turn_def stage_init_def Let_def elim!: ebindE ebind_pairE split: if_splits prod.splits)

lemma loop_exits:
  "client_loop turns O' D T = Inr (ended, T') \<Longrightarrow> \<exists>T0. client_run O' D T T0 \<and>
     (if ended then T' = T0 \<and> \<not> get_RUNNING D (ct_rest T0)
      else socket_fails O' D T0 \<and> T' = T0\<lparr>ct_rest := set_sock D (-1) (snd (so_socket O' (ct_rest T0)))\<rparr>)"
proof (induction turns arbitrary: T)
  case (Suc turns)
  show ?case
  proof (cases "get_RUNNING D (ct_rest T)")
    case True
    with Suc.prems obtain go_on T1 where turn: "client_turn O' D T = Inr (go_on, T1)"
      and rest: "(if go_on then client_loop turns O' D T1 else Inr (False, T1)) = Inr (ended, T')"
      by (auto elim!: ebind_pairE)
    show ?thesis
    proof (cases go_on)
      case True
      with rest Suc.IH [of T1] client_run_first [OF _ turn] show ?thesis by (metis (full_types))
    next
      case False
      with rest turn True turn_exits [of O' D T T1] client_run.refl [of O' D T] show ?thesis
        unfolding socket_fails_def by auto
    qed
  next
    case False
    with Suc.prems client_run.refl [of O' D T] show ?thesis by auto
  qed
qed simp

text \<open>
  C18: the client's sockets and sessions are accounted for. When the thread has ended, the
  callbacks were called in order (connected before data, a disconnection only when connected,
  never connected twice) and every socket that was opened has been closed. There are two ways to end. In a state in
  which the owner had cleared \<^verbatim>\<open>RUNNING\<close>, the socket is closed and marked invalid and the thread no longer
  counts as running. In a state of the first stage in which \<^verbatim>\<open>socket()\<close> failed, nothing more is done, and
  the thread that has ended still counts as running.
\<close>

theorem client_thread_accounts_for_sockets:
  assumes "client_os_keeps O' D (\<lambda>_ _. True)" and "io_documented O'" and "client_callbacks_keep D"
    and "rpc_client_handler turns O' (Some D) a = Inr (Some T)"
  shows "legal {} (ct_session T) \<noteq> None \<and> mset (ct_opened T) \<subseteq># mset (ct_closed T)
    \<and> (\<exists>T0. client_run O' D (client_thread_start D a) T0 \<and>
        (\<not> get_RUNNING D (ct_rest T0) \<and> ct_closed T = ct_closed T0 @ [get_sock D (ct_rest T0)]
           \<and> get_sock D (ct_rest T) = INVALID_SOCKFD \<and> \<not> json_rpc_client_is_running T
         \<or> get_RUNNING D (ct_rest T0) \<and> ct_stage T0 = SOCKET_INIT \<and> fst (so_socket O' (ct_rest T0)) = -1
           \<and> ct_closed T = ct_closed T0 \<and> ct_stage T = SOCKET_INIT \<and> json_rpc_client_is_running T))"
proof -
  let ?I = "\<lambda>_ _. client_callbacks_keep D"
  from assms(4) obtain ended T1 where loop: "client_loop turns O' D (client_thread_start D a) = Inr (ended, T1)"
    and T: "T = (if ended then client_thread_end O' D T1 else T1)"
    by (auto simp: rpc_client_handler_def elim!: ebind_pairE)
  have "client_ok D ?I (client_thread_start D a)"
    using assms(3) by (simp add: client_ok_def client_thread_inv_def client_thread_start_def)
  from any_client.run_keeps [OF client_os_keeps_const [OF assms(1)] assms(2) client_loop_run [OF loop] this]
  have inv: "client_thread_inv D T1" by (simp add: client_ok_def)
  obtain T0 where run: "client_run O' D (client_thread_start D a) T0"
    and T0: "if ended then T1 = T0 \<and> \<not> get_RUNNING D (ct_rest T0)
      else socket_fails O' D T0 \<and> T1 = T0\<lparr>ct_rest := set_sock D (-1) (snd (so_socket O' (ct_rest T0)))\<rparr>"
    using loop_exits [OF loop] by blast
  have status: "g_rpc_client_running_status T0" using run_status [OF run] by (simp add: client_thread_start_def)
  show ?thesis
  proof (cases ended)
    case True
    with inv T assms(3) have "legal {} (ct_session T) \<noteq> None \<and> mset (ct_opened T) \<subseteq># mset (ct_closed T)"
      by (auto simp: client_thread_end_def client_thread_inv_def split: if_splits)
    with True T T0 run assms(3) show ?thesis
      by (intro conjI exI [of _ T0])
        (simp_all add: client_thread_end_def json_rpc_client_is_running_def client_callbacks_keep_def)
  next
    case False
    with T T0 have T': "T = T0\<lparr>ct_rest := set_sock D (-1) (snd (so_socket O' (ct_rest T0)))\<rparr>" "socket_fails O' D T0" by simp_all
    then have "ct_stage T = SOCKET_INIT" by (simp add: socket_fails_def)
    with inv T False have "legal {} (ct_session T) \<noteq> None \<and> mset (ct_opened T) \<subseteq># mset (ct_closed T)"
      by (simp add: client_thread_inv_def)
    with T' run status show ?thesis
      by (intro conjI exI [of _ T0]) (simp_all add: json_rpc_client_is_running_def socket_fails_def)
  qed
qed

text \<open>A system in which the first attempt to connect is under way and the second succeeds, two
  bytes arrive, the server closes the connection, and no further socket can be created. The
  state counts the system calls; the second component is the socket number.\<close>

definition example_client_sockets :: "(nat \<times> int) sockets" where
  "example_client_sockets = \<lparr>
     so_socket = (\<lambda>(k, s). (if k = 0 then 7 else -1, (Suc k, s))),
     so_setsockopt = (\<lambda>a sd. (0, a)), so_ioctl = (\<lambda>a sd. (0, a)), so_bind = (\<lambda>a sd p. (0, a)), so_listen = (\<lambda>a sd n. (0, a)),
     so_select = (\<lambda>(k, s) n S. (int (card S), S, (Suc k, s))),
     so_accept = (\<lambda>a sd. (-1, a)),
     so_connect = (\<lambda>(k, s) sd h p. (if k = 1 then -1 else 0, EINPROGRESS, (Suc k, s))),
     so_recv = (\<lambda>(k, s) fd n. if k = 4 \<and> 2 \<le> n then (2, ''{}'', (Suc k, s)) else (0, [], (Suc k, s))),
     so_close = (\<lambda>(k, s) fd. (Suc k, s))\<rparr>"

definition example_client_owner :: "(nat \<times> int) rpc_client_data_t" where
  "example_client_owner = \<lparr>cd_port = 40100, cd_host = SERVER_HOST, func_connected = None, func_disconnected = None,
     func_parse = None, func_idle = Some Inr, get_sock = snd, set_sock = (\<lambda>s (k, _). (k, s)),
     get_RUNNING = (\<lambda>_. True), set_RUNNING = (\<lambda>_ a. a)\<rparr>"

lemma example_client_ok:
  "client_os_keeps example_client_sockets example_client_owner (\<lambda>_ _. True)" "io_documented example_client_sockets"
  "client_callbacks_keep example_client_owner"
  by (auto simp: client_os_keeps_def io_documented_def client_callbacks_keep_def example_client_sockets_def
      example_client_owner_def call_connected_def call_disconnected_def call_parse_def call_idle_def split: if_splits)

theorem client_thread_accounts_for_sockets_witness:
  "\<exists>T. rpc_client_handler (Suc (Suc (Suc (Suc (Suc (Suc 0)))))) example_client_sockets (Some example_client_owner) (0, -1) = Inr (Some T)
     \<and> ct_session T = [Connect 7, Data 7 ''{}'', Disconnect 7] \<and> mset (ct_opened T) \<subseteq># mset (ct_closed T)
     \<and> json_rpc_client_is_running T \<and> ct_stage T = SOCKET_INIT"
proof -
  have "\<exists>T. rpc_client_handler (Suc (Suc (Suc (Suc (Suc (Suc 0)))))) example_client_sockets (Some example_client_owner) (0, -1) = Inr (Some T)
     \<and> ct_session T = [Connect 7, Data 7 ''{}'', Disconnect 7] \<and> json_rpc_client_is_running T"
    by (simp add: rpc_client_handler_def client_thread_start_def client_turn_def stage_init_def stage_connect_def
        stage_receive_def drop_socket_def example_client_sockets_def example_client_owner_def call_connected_def
        call_disconnected_def call_parse_def call_idle_def FD_SET_def FD_SETSIZE_def json_rpc_client_is_running_def Let_def)
  then obtain T where "rpc_client_handler (Suc (Suc (Suc (Suc (Suc (Suc 0)))))) example_client_sockets (Some example_client_owner) (0, -1) = Inr (Some T)"
    "ct_session T = [Connect 7, Data 7 ''{}'', Disconnect 7]" "json_rpc_client_is_running T" by blast
  with client_thread_accounts_for_sockets [OF example_client_ok this(1)] show ?thesis by blast
qed

end
