(* ===== verification/Client_Thread.thy ===== *)
theory Client_Thread
  imports Client_Requests Tcp_Client
begin

text \<open>
  The HAL client on top of its socket thread: the callbacks \<^verbatim>\<open>json_hal_client_init\<close>
  installs in \<^verbatim>\<open>g_rpc_client\<close>, and \<^verbatim>\<open>json_hal_client_run\<close>. The state outside
  the thread is the state of the client library.
\<close>

definition g_rpc_client ::
  "'j json_c \<Rightarrow> ('j, 't) tokener \<Rightarrow> 'w os \<Rightarrow> bool \<Rightarrow> int \<Rightarrow> ('j, 'w) client rpc_client_data_t" where
  "g_rpc_client J T os blk port =
     \<lparr>cd_port = port, cd_host = SERVER_HOST,
      func_connected = Some (\<lambda>c fd. Inr (snd (client_connected c fd))),
      func_disconnected = Some (\<lambda>c fd. Inr (snd (client_disconnected c fd))),
      func_parse = Some (\<lambda>c fd buffer len. ebind (response_parse_cb J T os blk c (Some buffer) len) (\<lambda>(_, c). Inr c)),
      func_idle = Some (\<lambda>c. ebind (request_idle_cb c) (\<lambda>(_, c). Inr c)),
      get_sock = client_sock, set_sock = (\<lambda>k c. c\<lparr>client_sock := k\<rparr>),
      get_RUNNING = client_running, set_RUNNING = (\<lambda>b c. c\<lparr>client_running := b\<rparr>)\<rparr>"

definition json_hal_client_run ::
  "int \<Rightarrow> 'j json_c \<Rightarrow> ('j, 't) tokener \<Rightarrow> 'w os \<Rightarrow> bool \<Rightarrow> ('j, 'w) client \<Rightarrow> int \<times> ('j, 'w) client" where
  "json_hal_client_run created J T os blk c = json_rpc_client_run created (g_rpc_client J T os blk (client_port c)) c"

text \<open>What the client maintains: its tracking data, and the flag that tells whether it is
  connected.\<close>

definition connection_flag :: "bool \<Rightarrow> ('j, 'w) client \<Rightarrow> bool" where
  "connection_flag b c \<longleftrightarrow> client_inv c \<and> json_hal_is_client_connected c = b"

lemma deliver_keeps_connection:
  assumes "deliver_response c seq buffer len = Inr c'"
  shows "g_connected c' = g_connected c \<and> client_sock c' = client_sock c"
  using assms by (auto simp: deliver_response_def ebind_eq_Inr_iff split: option.splits if_splits)

lemma tick_loop_keeps_connection:
  "tick_loop c as = Inr c' \<Longrightarrow> g_connected c' = g_connected c \<and> client_sock c' = client_sock c"
proof (induction as arbitrary: c)
  case (Cons a as)
  then show ?case by (fastforce simp: ebind_eq_Inr_iff Let_def split: if_splits)
qed simp

interpretation connection: receive_invariant
  "\<lambda>c. connection_flag b c \<and> client_sock c = k" for b k
  by unfold_locales (auto simp: connection_flag_def json_hal_is_client_connected_def only_world_inv only_world_def
      world_client_inv dest: deliver_response_inv deliver_keeps_connection)

interpretation hal_client: client_application "g_rpc_client J T os blk port" connection_flag
  for J :: "'j json_c" and T :: "('j, 't) tokener" and os :: "'w os" and blk port
proof unfold_locales
  fix c c' :: "('j, 'w) client" and buffer len
  assume flag: "connection_flag True c" and "call_parse (g_rpc_client J T os blk port) c buffer len = Inr c'"
  then obtain rc where "response_parse_cb J T os blk c (Some buffer) len = Inr (rc, c')"
    by (auto simp: call_parse_def g_rpc_client_def elim!: ebind_pairE)
  from connection.response_keeps [OF _ this, of True "client_sock c"] flag
  show "connection_flag True c' \<and> get_sock (g_rpc_client J T os blk port) c' = get_sock (g_rpc_client J T os blk port) c"
    by (simp add: g_rpc_client_def)
next
  fix c c' :: "('j, 'w) client" and b
  assume flag: "connection_flag b c" and "call_idle (g_rpc_client J T os blk port) c = Inr c'"
  then have run: "request_tracking_cb c = Inr c'"
    by (auto simp: call_idle_def g_rpc_client_def request_idle_cb_def ebind_eq_Inr_iff)
  from flag have "client_inv c" by (simp add: connection_flag_def)
  from request_tracking_fold [OF this] run have "client_inv c'" by auto
  with tick_loop_keeps_connection [OF run [unfolded request_tracking_cb_def]] flag
  show "connection_flag b c' \<and> get_sock (g_rpc_client J T os blk port) c' = get_sock (g_rpc_client J T os blk port) c"
    by (simp add: g_rpc_client_def connection_flag_def json_hal_is_client_connected_def)
qed (auto simp: g_rpc_client_def connection_flag_def json_hal_is_client_connected_def client_connected_def
    client_disconnected_def call_connected_def call_disconnected_def unrelated_client_inv)

section \<open>Properties\<close>

lemma client_start_ok:
  assumes "connection_flag False c"
  shows "client_ok (g_rpc_client J T os blk port) connection_flag (client_thread_start (g_rpc_client J T os blk port) c)"
  using assms by (simp add: client_ok_def client_thread_inv_def client_thread_start_def g_rpc_client_def
      connection_flag_def json_hal_is_client_connected_def unrelated_client_inv)

text \<open>
  C12: the connection flag tells the truth while the thread runs. In every state the thread of a
  client reaches, \<^verbatim>\<open>json_hal_is_client_connected\<close> answers yes exactly when the socket
  thread is in its receiving stage, that is, when the last connection it reported has not been
  closed, and the tracking data of the requests are consistent.
\<close>

theorem connection_flag_follows_thread:
  assumes "client_os_keeps O' (g_rpc_client J T os blk port) connection_flag" and "io_documented O'"
    and "connection_flag False c"
    and "client_run O' (g_rpc_client J T os blk port) (client_thread_start (g_rpc_client J T os blk port) c) S"
  shows "(json_hal_is_client_connected (ct_rest S) \<longleftrightarrow> ct_stage S = SOCKET_RECEIVE)
    \<and> legal {} (ct_session S) = Some (if json_hal_is_client_connected (ct_rest S) then {client_sock (ct_rest S)} else {})
    \<and> client_inv (ct_rest S)"
  using hal_client.run_keeps [OF assms(1,2,4) client_start_ok [OF assms(3)]]
  by (auto simp: client_ok_def client_thread_inv_def connection_flag_def g_rpc_client_def)

text \<open>
  C40: the flag is stale after the end. When the owner clears \<^verbatim>\<open>RUNNING\<close> while the client is
  connected, the loop ends and the socket is closed without a report: the thread no longer
  runs, the socket is invalid, and \<^verbatim>\<open>json_hal_is_client_connected\<close> still answers yes.
\<close>

theorem connection_flag_stale_after_end:
  assumes "client_os_keeps O' (g_rpc_client J T os blk port) connection_flag"
    and "client_ok (g_rpc_client J T os blk port) connection_flag S"
    and "ct_stage S = SOCKET_RECEIVE" and "\<not> client_running (ct_rest S)"
  shows "client_loop (Suc n) O' (g_rpc_client J T os blk port) S = Inr (True, S)
    \<and> json_hal_is_client_connected (ct_rest (client_thread_end O' (g_rpc_client J T os blk port) S))
    \<and> client_sock (ct_rest (client_thread_end O' (g_rpc_client J T os blk port) S)) = INVALID_SOCKFD
    \<and> \<not> json_rpc_client_is_running (client_thread_end O' (g_rpc_client J T os blk port) S)"
proof -
  let ?D = "g_rpc_client J T os blk port"
  have "connection_flag True (ct_rest S)" using assms(2,3) by (simp add: client_ok_def)
  from client_os_keepsD(5) [OF assms(1) this, of "client_sock (ct_rest S)"]
  have "g_connected (so_close O' (ct_rest S) (client_sock (ct_rest S)))"
    by (simp add: connection_flag_def json_hal_is_client_connected_def)
  with assms(4) show ?thesis
    by (simp add: client_thread_end_def json_rpc_client_is_running_def json_hal_is_client_connected_def g_rpc_client_def)
qed

text \<open>A system in which every call succeeds at once and nothing arrives.\<close>

definition quiet_sockets :: "('j, 'w) client sockets" where
  "quiet_sockets = \<lparr>so_socket = (\<lambda>c. (7, c)), so_setsockopt = (\<lambda>c sd. (0, c)), so_ioctl = (\<lambda>c sd. (0, c)),
     so_bind = (\<lambda>c sd p. (0, c)), so_listen = (\<lambda>c sd n. (0, c)), so_select = (\<lambda>c n S. (0, {}, c)),
     so_accept = (\<lambda>c sd. (-1, c)), so_connect = (\<lambda>c sd h p. (0, E_OTHER, c)), so_recv = (\<lambda>c fd n. (-1, [], c)),
     so_close = (\<lambda>c fd. c)\<rparr>"

lemma quiet_sockets_ok: "client_os_keeps quiet_sockets D I" "io_documented quiet_sockets"
  by (simp_all add: client_os_keeps_def io_documented_def quiet_sockets_def)

definition example_hal_client :: "(json, string) client rpc_client_data_t" where
  "example_hal_client = g_rpc_client print_json brace_tokener (chunk_os 1) False 40100"

lemma initial_flag: "connection_flag False (initial_client w)"
  by (simp add: connection_flag_def json_hal_is_client_connected_def client_inv_def initial_client_def)

lemma example_client_connects:
  "\<exists>S. client_run quiet_sockets example_hal_client (client_thread_start example_hal_client (initial_client [])) S
     \<and> ct_stage S = SOCKET_RECEIVE \<and> ct_session S = [Connect 7]"
proof -
  let ?D = "example_hal_client"
  let ?S0 = "client_thread_start ?D (initial_client [])"
  obtain S1 where S1: "client_turn quiet_sockets ?D ?S0 = Inr (True, S1)"
    and "\<exists>S2. client_turn quiet_sockets ?D S1 = Inr (True, S2) \<and> ct_stage S2 = SOCKET_RECEIVE \<and> ct_session S2 = [Connect 7]"
    by (simp add: client_turn_def client_thread_start_def stage_init_def stage_connect_def quiet_sockets_def
        example_hal_client_def g_rpc_client_def call_connected_def call_idle_def request_idle_cb_def request_tracking_cb_def
        initial_client_def client_connected_def)
  then obtain S2 where S2: "client_turn quiet_sockets ?D S1 = Inr (True, S2)"
    "ct_stage S2 = SOCKET_RECEIVE" "ct_session S2 = [Connect 7]" by blast
  have "client_run quiet_sockets ?D ?S0 S2"
    by (rule client_run.turn [OF client_run.turn [OF client_run.refl S1] S2(1)])
  with S2 show ?thesis by blast
qed

theorem connection_flag_follows_thread_witness:
  "\<exists>S. client_run quiet_sockets example_hal_client (client_thread_start example_hal_client (initial_client [])) S
     \<and> json_hal_is_client_connected (ct_rest S) \<and> client_inv (ct_rest S)"
proof -
  obtain S where S: "client_run quiet_sockets example_hal_client (client_thread_start example_hal_client (initial_client [])) S"
    "ct_stage S = SOCKET_RECEIVE" using example_client_connects by blast
  from connection_flag_follows_thread [OF quiet_sockets_ok initial_flag S(1) [unfolded example_hal_client_def]] S
  show ?thesis by blast
qed

theorem connection_flag_stale_after_end_witness:
  "\<exists>S. client_loop 1 quiet_sockets example_hal_client S = Inr (True, S)
     \<and> json_hal_is_client_connected (ct_rest (client_thread_end quiet_sockets example_hal_client S))
     \<and> \<not> json_rpc_client_is_running (client_thread_end quiet_sockets example_hal_client S)"
proof -
  let ?S = "\<lparr>ct_stage = SOCKET_RECEIVE, g_rpc_client_running_status = True,
      ct_rest = (initial_client [])\<lparr>g_connected := True, client_sock := 7\<rparr>, ct_session = [Connect 7],
      ct_opened = [7], ct_closed = []\<rparr> :: (json, string) client client_thread"
  have "client_ok example_hal_client connection_flag ?S"
    by (simp add: client_ok_def client_thread_inv_def connection_flag_def json_hal_is_client_connected_def client_inv_def
        initial_client_def example_hal_client_def g_rpc_client_def)
  moreover have "\<not> client_running (ct_rest ?S)" by (simp add: initial_client_def)
  ultimately show ?thesis
    using connection_flag_stale_after_end [OF quiet_sockets_ok(1), of print_json brace_tokener "chunk_os 1" False 40100 ?S 0]
    unfolding example_hal_client_def One_nat_def by (intro exI [of _ ?S]) simp
qed

end
