(* ===== verification/Sample_Client.thy ===== *)
theory Sample_Client
  imports Sample_Server Protocol Client_Thread
begin

text \<open>
  \<^verbatim>\<open>samples/json_hal_client_test.c\<close> and \<^verbatim>\<open>samples/json_hal_client_event_test.c\<close>: the
  two example programs on the client side, one sending the request in a file, one subscribing to
  link events. A blocking call of the library is again split at its wait. The last section joins
  the samples of both sides.
\<close>

section \<open>The event client\<close>

abbreviation (input) DSL_EVENT_PATH :: string where "DSL_EVENT_PATH \<equiv> ''Device.DSL.Line.1.LinkStatus''"
abbreviation (input) ETH_EVENT_PATH :: string where "ETH_EVENT_PATH \<equiv> ''Device.Ethernet.Interface.1.LinkStatus''"
abbreviation (input) EVENT_INTERVAL :: string where "EVENT_INTERVAL \<equiv> ''onChange''"
abbreviation (input) EVENT_INTERVAL_WITH_SYNC :: string where "EVENT_INTERVAL_WITH_SYNC \<equiv> ''onChangeSync''"

text \<open>The world of the program: the system, and the events it reported with their values.\<close>

record 'w listener =
  host :: 'w
  events_seen :: "(string \<times> string) list"

text \<open>The fields of an event; both are copied into arrays of 256 characters.\<close>

definition copy_field :: "'j json_c \<Rightarrow> 'j option \<Rightarrow> string \<Rightarrow> string cres" where
  "copy_field J p k =
     (case get_ex J p k of
        None \<Rightarrow> Inl Assert_Failed
      | Some v \<Rightarrow> ebind (get_str J v) (strcpy BUF_256))"

definition event_fields :: "'j json_c \<Rightarrow> 'j \<Rightarrow> (string \<times> string) cres" where
  "event_fields J jobj =
     (case get_ex J (Some jobj) ''params'' of
        None \<Rightarrow> Inr ('''', '''')
      | Some msg_param \<Rightarrow>
          ebind (arr_get_idx J msg_param 0) (\<lambda>jsubs_param_array.
          if jsubs_param_array = None then Inl Assert_Failed
          else
            ebind (copy_field J jsubs_param_array ''name'') (\<lambda>event_name.
            ebind (copy_field J jsubs_param_array ''value'') (\<lambda>event_val.
              Inr (event_name, event_val)))))"

definition eventcb :: "'j json_c \<Rightarrow> 'w listener event_callback" where
  "eventcb J w msg len =
     (case jc_parse J (cstr msg) of
        None \<Rightarrow> Inl Assert_Failed
      | Some jobj \<Rightarrow>
          ebind (event_fields J jobj) (\<lambda>(event_name, event_val).
            if starts_with event_name DSL_EVENT_PATH
            then Inr (w\<lparr>events_seen := events_seen w @ [(event_name, event_val)]\<rparr>)
            else if starts_with event_name ETH_EVENT_PATH
            then Inr (w\<lparr>events_seen := events_seen w @ [(event_name, event_val)]\<rparr>)
            else Inr w))"

text \<open>\<open>subscribe\<close> is the blocking call of \<^verbatim>\<open>json_hal_client_subscribe_event\<close> with everything
  the other threads do while it waits. Only the second return code is kept.\<close>

type_synonym ('j, 'w) subscribe_call =
  "('j, 'w) client \<Rightarrow> 'w event_callback \<Rightarrow> string \<Rightarrow> string \<Rightarrow> (int \<times> ('j, 'w) client) cres"

definition send_subscription_msg ::
  "'j json_c \<Rightarrow> bool \<Rightarrow> ('j, 'w listener) subscribe_call \<Rightarrow> ('j, 'w listener) client
   \<Rightarrow> (int \<times> ('j, 'w listener) client) cres" where
  "send_subscription_msg J blk subscribe c =
     ebind (subscribe c (eventcb J) DSL_EVENT_PATH EVENT_INTERVAL) (\<lambda>(_, c).
       subscribe c (eventcb J) ETH_EVENT_PATH (if blk then EVENT_INTERVAL_WITH_SYNC else EVENT_INTERVAL))"

definition event_client_main ::
  "'j json_c \<Rightarrow> ('j, 't) tokener \<Rightarrow> 'w listener os \<Rightarrow> files \<Rightarrow> bool \<Rightarrow> int \<Rightarrow> ('j, 'w listener) subscribe_call
   \<Rightarrow> string list \<Rightarrow> 'w listener \<Rightarrow> ('j, 'w listener) client process cres" where
  "event_client_main J T os fs blk created subscribe argv w =
     (if length argv \<noteq> 2 then Inr (Exited 0)
      else ebind (json_hal_client_init J fs (initial_client w) (Some (argv ! 1))) (\<lambda>(rc, c).
        if rc \<noteq> RETURN_OK then Inr Aborted
        else
          let (rc, c) = json_hal_client_run created J T os blk c in
          if rc \<noteq> RETURN_OK then Inr Aborted
          else ebind (send_subscription_msg J blk subscribe c) (\<lambda>(rc, c).
            if rc \<noteq> RETURN_OK then Inr Aborted else Inr (Running c))))"

section \<open>The request client\<close>

text \<open>At most \<open>120\<close> looks at the connection, one per second; \<open>connected n\<close> is what the \<open>n\<close>th look
  finds.\<close>

fun await_connection :: "(nat \<Rightarrow> bool) \<Rightarrow> nat \<Rightarrow> nat \<Rightarrow> bool" where
  "await_connection connected retry_count 0 = False"
| "await_connection connected retry_count (Suc left) =
     (if connected retry_count then True else await_connection connected (Suc retry_count) left)"

text \<open>The request in the file: \<open>None\<close> if there is no such file.\<close>

definition read_request :: "'j json_c \<Rightarrow> files \<Rightarrow> string \<Rightarrow> 'j option option cres" where
  "read_request J fs path =
     ebind (read_buf 128 (strncpy 128 path)) (\<lambda>json_path.
       case fs_open fs json_path of
         None \<Rightarrow> Inr None
       | Some content \<Rightarrow> ebind (read_buf 2048 (strncpy 2048 content)) (\<lambda>buffer. Inr (Some (jc_parse J buffer))))"

text \<open>\<^verbatim>\<open>send_json_rpc_request\<close> up to the wait (\<open>Inl\<close> if it has returned, \<open>Inr\<close> with the node it
  waits on), and after it. \<^verbatim>\<open>reply_msg\<close> is released whether or not it was set.\<close>

definition send_json_rpc_request ::
  "'j json_c \<Rightarrow> 'w os \<Rightarrow> ('j, 'w) client \<Rightarrow> 'j option \<Rightarrow> ((int + nat) \<times> ('j, 'w) client) cres" where
  "send_json_rpc_request J os c jrequest =
     (case jrequest of
        None \<Rightarrow> Inr (Inl RETURN_ERR, c)
      | Some j \<Rightarrow>
          ebind (json_hal_client_send_and_get_reply J os c (Some j)) (\<lambda>(waits, c).
            case waits of None \<Rightarrow> Inl Uninitialised | Some a \<Rightarrow> Inr (Inr a, c)))"

definition rpc_request_answered ::
  "'j json_c \<Rightarrow> ('j, 'w) client \<Rightarrow> nat \<Rightarrow> (int \<times> ('j, 'w) client) cres" where
  "rpc_request_answered J c a =
     ebind (collect_reply J c a) (\<lambda>(rc, reply_msg, c).
       case reply_msg of None \<Rightarrow> Inl Uninitialised | Some _ \<Rightarrow> Inr (rc, c))"

text \<open>\<^verbatim>\<open>main\<close> up to the request, which is handed to the waiting part; \<open>meanwhile\<close> gives the state of the
  client when the request is answered, and \<open>stopped\<close> what the polls of the termination find.\<close>

definition client_main ::
  "'j json_c \<Rightarrow> ('j, 't) tokener \<Rightarrow> 'w os \<Rightarrow> files \<Rightarrow> bool \<Rightarrow> int \<Rightarrow> (nat \<Rightarrow> bool)
   \<Rightarrow> (('j, 'w) client \<Rightarrow> ('j, 'w) client) \<Rightarrow> (nat \<Rightarrow> bool) \<Rightarrow> string list \<Rightarrow> 'w \<Rightarrow> ('j, 'w) client process cres" where
  "client_main J T os fs blk created connected meanwhile stopped argv w =
     (if length argv \<noteq> 3 then Inr (Exited 0)
      else ebind (json_hal_client_init J fs (initial_client w) (Some (argv ! 1))) (\<lambda>(rc, c).
        if rc \<noteq> RETURN_OK then Inr Aborted
        else
          let (rc, c) = json_hal_client_run created J T os blk c in
          if rc \<noteq> RETURN_OK then Inr Aborted
          else if \<not> await_connection connected 0 120 then Inr Aborted
          else ebind (read_request J fs (argv ! 2)) (\<lambda>request.
            case request of
              None \<Rightarrow> Inr (Exited (-1))
            | Some parsed_json \<Rightarrow>
                ebind (send_json_rpc_request J os c parsed_json) (\<lambda>(r, c).
                ebind (case r of Inl rc \<Rightarrow> Inr (rc, c) | Inr a \<Rightarrow> rpc_request_answered J (meanwhile c) a) (\<lambda>(_, c).
                  case json_hal_client_terminate c stopped of (rc, _, _) \<Rightarrow>
                    if rc = RETURN_OK then Inr (Exited 0) else Inr Aborted)))))"

section \<open>A request that fails\<close>

text \<open>When the library returns an error, the sample releases a reply it never received: a request
  without an id is refused at once, and one that timed out is collected without a reply.\<close>

lemma refused_request_releases_unset:
  "jc_object_get_ex J j JSON_RPC_FIELD_ID = None \<Longrightarrow> send_json_rpc_request J os c (Some j) = Inl Uninitialised"
  by (simp add: send_json_rpc_request_def json_hal_client_send_and_get_reply_def send_request_def)

lemma failed_request_releases_unset:
  assumes "collect_reply J c a = Inr (rc, reply, c')" and "rc < 0"
  shows "rpc_request_answered J c a = Inl Uninitialised"
proof -
  have "reply = None" using assms by (auto simp: collect_reply_def ebind_eq_Inr_iff split: if_splits)
  with assms(1) show ?thesis by (simp add: rpc_request_answered_def)
qed

lemma await_connection_iff:
  "await_connection connected n k \<longleftrightarrow> (\<exists>i < k. connected (n + i))"
proof (induction k arbitrary: n)
  case (Suc k)
  show ?case
    using Suc.IH [of "Suc n"] by (auto simp: less_Suc_eq_0_disj)
qed simp

section \<open>Events on their way from sample to sample\<close>

lemma event_fields_published:
  assumes "json_c_ok J" and "nul_free ev" "length ev < 256" and "nul_free v" "length v < 256"
  shows "event_fields J (publish_event_body J c n ev v) = Inr (ev, v)"
  using assms by (simp add: event_fields_def publish_event_body_def copy_field_def)

lemma eventcb_reads:
  assumes "json_c_ok J" and "ev \<in> {DSL_LINK_EVENT, ETH_LINK_EVENT}" and "nul_free v" "length v < 256"
    and "jc_parse J (cstr t) = Some (publish_event_body J c n ev v)"
  shows "eventcb J w t len = Inr (w\<lparr>events_seen := events_seen w @ [(ev, v)]\<rparr>)"
proof -
  have "event_fields J (publish_event_body J c n ev v) = Inr (ev, v)"
    using assms(1-4) by (intro event_fields_published) auto
  with assms(2,5) show ?thesis by (auto simp: eventcb_def)
qed

lemma event_loop_unmatched:
  "filter (\<lambda>e. starts_with (event_name e) ev) es = [] \<Longrightarrow> event_loop J os blk c jobj ev refs es = Inr (c, refs)"
  by (induction es) (auto split: if_splits)

lemma event_loop_matched_once:
  "filter (\<lambda>e. starts_with (event_name e) ev) es = [\<lparr>event_name = n, event_notification_type = ty, event_cb = Some cb\<rparr>] \<Longrightarrow>
   jc_to_string J jobj = Some t \<Longrightarrow> cb (client_world c) t (int (length (cstr t))) = Inr w \<Longrightarrow>
   event_loop J os False c jobj ev (Suc 0) es = Inr (c\<lparr>client_world := w\<rparr>, Suc 0)"
  by (induction es) (auto simp: event_loop_unmatched split: if_splits)

lemma process_published_event:
  assumes "json_c_ok J" and "nul_free ev" "length ev < 512"
    and "filter (\<lambda>e. starts_with (event_name e) ev) (g_event_tracking c) =
      [\<lparr>event_name = n', event_notification_type = ty, event_cb = Some cb\<rparr>]"
    and "jc_to_string J (publish_event_body J cfg n ev v) = Some t" and "cb (client_world c) t (int (length (cstr t))) = Inr w"
  shows "process_message J os False c (publish_event_body J cfg n ev v) buffer len = Inr (True, c\<lparr>client_world := w\<rparr>)"
proof -
  let ?m = "publish_event_body J cfg n ev v"
  have "process_event J os False c ?m 1 = Inr (c\<lparr>client_world := w\<rparr>, 1)"
    using event_loop_matched_once [OF assms(4-6), of os] assms(1-3) by (simp add: process_event_def publish_event_body_def)
  moreover have "jc_object_get_ex J ?m JSON_RPC_FIELD_ACTION = Some (Some (jc_new_string J JSON_RPC_PUBLISH_EVENT_ACTION_NAME))"
    using assms(1) by (simp add: publish_event_body_def)
  ultimately show ?thesis using assms(1) by (simp add: process_message_def)
qed

text \<open>What the event client reads from a message the library has printed.\<close>

definition reads_back :: "'j json_c \<Rightarrow> 'j \<Rightarrow> bool" where
  "reads_back J j \<longleftrightarrow> (\<forall>t. jc_to_string J j = Some t \<longrightarrow> jc_parse J (cstr t) = Some j)"

lemma link_event_seen:
  assumes "sends_ok P" and "ev \<in> {DSL_LINK_EVENT, ETH_LINK_EVENT}" and "nul_free v" "length v < 256"
    and "filter (\<lambda>e. starts_with (event_name e) ev) (g_event_tracking c) =
      [\<lparr>event_name = ev, event_notification_type = ty, event_cb = Some (eventcb (json P))\<rparr>]"
    and "reads_back (json P) (publish_event_body (json P) cfg n ev v)"
  shows "process_message (json P) os False c (publish_event_body (json P) cfg n ev v) buffer len =
    Inr (True, c\<lparr>client_world := (client_world c)\<lparr>events_seen := events_seen (client_world c) @ [(ev, v)]\<rparr>\<rparr>)"
proof -
  have J: "json_c_ok (json P)" using assms(1) by simp
  obtain t where t: "jc_to_string (json P) (publish_event_body (json P) cfg n ev v) = Some t"
    using assms(1) by (auto simp: sends_ok_def)
  with assms(6) have parse: "jc_parse (json P) (cstr t) = Some (publish_event_body (json P) cfg n ev v)"
    by (simp add: reads_back_def)
  show ?thesis
    by (rule process_published_event [OF J link_names [OF assms(2)] assms(5) t eventcb_reads [OF J assms(2-4) parse]])
qed


lemma sample_event_body: "publish_event_body (json sample_platform) example_config n ev v = sample_event n ev v"
  by (simp add: sample_platform_def tree_json_def sample_event_def publish_event_body_def message_header_def)

lemma sample_reads_back:
  "reads_back (json sample_platform) (publish_event_body (json sample_platform) example_config 101 DSL_EVENT_PATH ''Up'')"
  "reads_back (json sample_platform) (publish_event_body (json sample_platform) example_config 102 ETH_EVENT_PATH ''Down'')"
proof -
  have "jc_to_string (json sample_platform) = sample_print" "jc_parse (json sample_platform) = sample_read"
    by (simp_all add: sample_platform_def tree_json_def)
  moreover have "sample_event 101 DSL_EVENT_PATH ''Up'' \<noteq> sample_event 102 ETH_EVENT_PATH ''Down''"
    by (simp add: sample_event_def tree_json_def publish_event_body_def message_header_def)
  ultimately show "reads_back (json sample_platform) (publish_event_body (json sample_platform) example_config 101 DSL_EVENT_PATH ''Up'')"
    "reads_back (json sample_platform) (publish_event_body (json sample_platform) example_config 102 ETH_EVENT_PATH ''Down'')"
    unfolding sample_event_body by (simp_all add: reads_back_def sample_print_def sample_read_def)
qed

lemma sample_subscription_request:
  "nul_free ev \<Longrightarrow> length ev < 512 \<Longrightarrow>
   subscription_request sample_platform (example_sample_subscribe ev) \<lparr>sr_name = ev, sr_type = NOTIFICATION_TYPE_ON_CHANGE\<rparr>"
  unfolding subscription_request_def
  using example_sample_request [of ev]
  by (intro conjI exI [of _ "''1001''"]) (simp_all add: request_is_def request_param_count_def arr_length_def sample_platform_def
      tree_json_def example_sample_subscribe_def strncpy_def)

definition example_listener :: "(json, unit listener) client" where
  "example_listener = (initial_client \<lparr>host = (), events_seen = []\<rparr>)\<lparr>g_event_tracking :=
     [\<lparr>event_name = DSL_EVENT_PATH, event_notification_type = EVENT_INTERVAL, event_cb = Some (eventcb (json sample_platform))\<rparr>,
      \<lparr>event_name = ETH_EVENT_PATH, event_notification_type = EVENT_INTERVAL, event_cb = Some (eventcb (json sample_platform))\<rparr>]\<rparr>"


section \<open>The sample callbacks keep the contracts of the library\<close>

text \<open>What \<open>Protocol\<close> and \<open>Server_Thread\<close> ask of a vendor's callbacks, for those of the sample: the
  header of the reply is left alone, and so are the descriptors of the socket thread.\<close>

definition keeps_header :: "'j json_c \<Rightarrow> 'j \<Rightarrow> 'j option \<Rightarrow> bool" where
  "keeps_header J r r' \<longleftrightarrow> (\<exists>j. r' = Some j
     \<and> (\<forall>k \<in> {JSON_RPC_FIELD_ID, JSON_RPC_FIELD_ACTION}. jc_object_get_ex J j k = jc_object_get_ex J r k))"

lemma keeps_header_refl [simp]: "keeps_header J r (Some r)"
  by (simp add: keeps_header_def)

lemma keeps_header_trans: "keeps_header J r (Some r1) \<Longrightarrow> keeps_header J r1 r2 \<Longrightarrow> keeps_header J r r2"
  by (auto simp: keeps_header_def)

lemma keeps_headerE:
  assumes "keeps_header J r r'" obtains j where "r' = Some j"
  using assms by (auto simp: keeps_header_def)

lemma keeps_header_echoes: "keeps_header J r (Some r') \<Longrightarrow> echoes J r req \<Longrightarrow> echoes J r' req"
  by (auto simp: keeps_header_def echoes_def)

lemma result_status_keeps:
  assumes "json_c_ok J" and "json_hal_add_result_status J (Some r) res = Inr (rc, r')"
  shows "keeps_header J r r'"
  using assms
  by (auto simp: json_hal_add_result_status_def obj_add_def keeps_header_def ebind_eq_Inr_iff split: if_splits)

lemma add_param_keeps:
  assumes "json_c_ok J" and "json_hal_add_param J (Some r) GET_RESPONSE_MESSAGE (Some p) = Inr (rc, r')"
  shows "keeps_header J r r'"
proof (cases "jc_object_get_ex J r JSON_RPC_FIELD_PARAMS")
  case None
  with assms(2) show ?thesis by (auto simp: json_hal_add_param_def)
next
  case (Some a)
  have put: "keeps_header J r (Some r1)" if "arr_put_end J r JSON_RPC_FIELD_PARAMS a v = Inr r1" for r1 v
    using that update_member_simps(2) [OF assms(1) Some]
    by (auto simp: arr_put_end_def keeps_header_def ebind_eq_Inr_iff split: option.splits)
  show ?thesis
    using assms(2) Some put by (auto simp: json_hal_add_param_def ebind_eq_Inr_iff split: option.splits)
qed

lemma add_responses_keep:
  "json_c_ok J \<Longrightarrow> add_responses J (Some r) ps = Inr (rc, r') \<Longrightarrow> keeps_header J r r'"
proof (induction ps arbitrary: r)
  case (Cons p ps)
  then obtain rc1 q where q: "json_hal_add_param J (Some r) GET_RESPONSE_MESSAGE (Some p) = Inr (rc1, q)"
    by (auto simp: ebind_eq_Inr_iff)
  note one = add_param_keeps [OF Cons.prems(1) q]
  then obtain r1 where "q = Some r1" by (rule keeps_headerE)
  with one q Cons show ?case by (auto intro: keeps_header_trans split: if_splits)
qed auto

lemma get_loop_keeps:
  "json_c_ok J \<Longrightarrow> get_loop J jmsg n i (Some r) = Inr (rc, r') \<Longrightarrow> keeps_header J r r'"
proof (induction n arbitrary: i r)
  case (Suc n)
  then obtain rc0 p where g: "json_hal_get_param J jmsg i GET_REQUEST_MESSAGE (Some zero_param) = Inr (rc0, p)"
    by (auto simp: ebind_eq_Inr_iff)
  show ?case
  proof (cases "rc0 = RETURN_OK")
    case True
    with Suc.prems g obtain rc1 q where q: "add_responses J (Some r) sample_data = Inr (rc1, q)"
      by (auto simp: ebind_eq_Inr_iff)
    note one = add_responses_keep [OF Suc.prems(1) q]
    then obtain r1 where "q = Some r1" by (rule keeps_headerE)
    with one q g True Suc show ?thesis by (auto intro: keeps_header_trans split: if_splits)
  qed (use Suc.prems g in auto)
qed auto

lemma status_loop_keeps:
  "json_c_ok J \<Longrightarrow> status_loop J action jmsg n i (Some r) = Inr (rc, r') \<Longrightarrow> keeps_header J r r'"
proof (induction n arbitrary: i r)
  case (Suc n)
  then obtain rc0 p where g: "json_hal_get_param J jmsg i action (Some zero_param) = Inr (rc0, p)"
    by (auto simp: ebind_eq_Inr_iff)
  show ?case
  proof (cases "rc0 = RETURN_OK")
    case True
    with Suc.prems g obtain rc1 q where q: "json_hal_add_result_status J (Some r) RESULT_SUCCESS = Inr (rc1, q)"
      by (auto simp: ebind_eq_Inr_iff)
    note one = result_status_keeps [OF Suc.prems(1) q]
    then obtain r1 where "q = Some r1" by (rule keeps_headerE)
    with one q g True Suc show ?thesis by (auto intro: keeps_header_trans split: if_splits)
  qed (use Suc.prems g in auto)
qed auto

lemma subs_event_cb_keeps:
  assumes "json_c_ok (json P)" and "subs_event_cb P create w (Some jmsg) n (Some r) = Inr (rc, r', w')"
  shows "keeps_header (json P) r r'"
  using assms result_status_keeps [OF assms(1)]
  by (auto simp: subs_event_cb_def ebind_eq_Inr_iff split: if_splits)

lemma sample_callback_keeps:
  assumes "json_c_ok (json P)" and "(name, Some cb) \<in> set (sample_callbacks P create)" and "cb w j n r = Inr (rc, r', w')"
  shows "keeps_header (json P) r (Some r')"
  using assms(2,3) subs_event_cb_keeps [OF assms(1)] get_loop_keeps [OF assms(1)] status_loop_keeps [OF assms(1)]
  by (auto simp: sample_callbacks_def rpc_callback_def without_state_def getparam_rpc_cb_def setparam_rpc_cb_def
      deleteobj_rpc_cb_def ebind_eq_Inr_iff split: option.splits elim: keeps_headerE)

lemma main_functions:
  assumes "server_main P fs create created argv w = Inr (Running (s, th))"
  shows "g_hal_functions_list s = map (\<lambda>(name, cb). \<lparr>function_name = name, acl_cb = cb\<rparr>) (sample_callbacks P create)"
proof -
  from assms obtain s0 where init: "json_hal_server_init P fs (initial_server w) (Some (argv ! 1)) = Inr (RETURN_OK, s0)"
    and reg: "register_callbacks P create s0 = Inr s"
    by (auto simp: server_main_def ebind_eq_Inr_iff Let_def case_prod_beta split: if_splits)
  have "g_hal_functions_list s0 = []" using server_init_keeps(2) [OF init] by (simp add: initial_server_def)
  with reg show ?thesis
    by (auto simp: register_callbacks_def sample_callbacks_def register_cases registry_dom)
qed

lemma sample_callbacks_echo:
  assumes "json_c_ok (json P)" and "server_main P fs create created argv w = Inr (Running (s, th))"
  shows "callbacks_echo (json P) s"
  unfolding callbacks_echo_def main_functions [OF assms(2)]
  using sample_callback_keeps [OF assms(1)] keeps_header_echoes by fastforce

lemma subs_loop_system: "subs_loop P jmsg n i w = Inr (rc, w') \<Longrightarrow> system w' = system w"
proof (induction n arbitrary: i w)
  case (Suc n)
  then show ?case
    by (fastforce simp: ebind_eq_Inr_iff store_subscription_def Let_def split: if_splits)
qed simp

lemma sample_callbacks_keep_fds:
  assumes "server_main P fs create created argv w = Inr (Running (s, th))" and "\<And>w. own (snd (create w)) = own w"
  shows "vendor_keeps_fds s (\<lambda>w. own (system w))"
proof -
  have "own (system w') = own (system w)" if "subs_event_cb P create w jmsg n r = Inr (rc, r', w')" for w jmsg n r rc r' w'
    using that assms(2)
    by (auto simp: subs_event_cb_def start_event_dispatch_thread_def case_prod_beta ebind_eq_Inr_iff
        dest: subs_loop_system split: if_splits)
  then show ?thesis
    unfolding vendor_keeps_fds_def main_functions [OF assms(1)]
    by (auto simp: sample_callbacks_def rpc_callback_def without_state_def ebind_eq_Inr_iff)
qed

end
