(* ===== verification/Client_Receive.thy ===== *)
theory Client_Receive
  imports Client_Requests Server_Requests
begin

text \<open>
  Buffers that hold several messages, on both sides. The library is built against json-c
  versions with and without \<^verbatim>\<open>JSON_TOKENER_ALLOW_TRAILING_CHARS\<close>: with it the tokener
  returns the first object of a buffer, without it a strict tokener refuses a text with a
  second object behind the first, and the client has a special treatment for that case.
\<close>

section \<open>A tokener that stops behind an object\<close>

text \<open>The reference for the client: the objects of a buffer, one after the other; the first that
  has neither an action for an event nor an id ends the treatment.\<close>

fun process_messages ::
  "'j json_c \<Rightarrow> 'w os \<Rightarrow> bool \<Rightarrow> ('j, 'w) client \<Rightarrow> string \<Rightarrow> int \<Rightarrow> int \<Rightarrow> 'j list \<Rightarrow> (int \<times> ('j, 'w) client) cres" where
  "process_messages J os blk c buffer len rc [] = Inr (rc, c)"
| "process_messages J os blk c buffer len rc (j # js) =
     ebind (process_message J os blk c j buffer len) (\<lambda>(go_on, c).
       if go_on then process_messages J os blk c buffer len rc js else Inr (RETURN_ERR, c))"

text \<open>The tokener never stops at an opening brace with an error.\<close>

definition no_glue :: "('j, 't) tokener \<Rightarrow> string \<Rightarrow> int \<Rightarrow> bool" where
  "no_glue T buffer len \<longleftrightarrow> (\<forall>t start t' p. 0 \<le> start \<longrightarrow> start < len \<longrightarrow>
     tok_parse_ex T t (drop (nat start) buffer) (len - start) = (t', None, json_tokener_error_parse_unexpected, p) \<longrightarrow>
     stopped_at buffer (start + p) len \<noteq> CHR ''{'')"

lemma no_glueD:
  assumes "no_glue T buffer len" and "0 \<le> start" and "start < len"
    and "tok_parse_ex T t (drop (nat start) buffer) (len - start) = (t', None, json_tokener_error_parse_unexpected, p)"
  shows "stopped_at buffer (start + p) len \<noteq> CHR ''{''"
  using assms unfolding no_glue_def by blast

lemma response_loop_refines:
  assumes "tokener_progress T" and "no_glue T buffer len"
    and "parse_all n T buffer len t start = Some (js, rc)" and "0 \<le> start" and "start < len" and "n \<le> fuel"
  shows "response_loop fuel J T os blk c buffer len t start len = process_messages J os blk c buffer len rc js"
  using assms(3-6)
proof (induction n arbitrary: fuel t start js c)
  case (Suc n)
  then obtain f where fuel: "fuel = Suc f" "n \<le> f" by (cases fuel) auto
  obtain t' jobj jerr p where tk: "tok_parse_ex T t (drop (nat start) buffer) (len - start) = (t', jobj, jerr, p)"
    by (metis prod_cases4)
  have again: "(if start + p \<ge> len then Inr (RETURN_OK, c1) else response_loop f J T os blk c1 buffer len t' (start + p) len)
      = process_messages J os blk c1 buffer len rc js1"
    if "parse_all n T buffer len t' (start + p) = Some (js1, rc)" "1 \<le> p" for c1 js1
  proof (cases "start + p \<ge> len")
    case True
    then have "js1 = [] \<and> rc = RETURN_OK" using that(1) by (cases n) auto
    with True show ?thesis by simp
  next
    case False
    with that Suc.IH [OF that(1), of f c1] Suc.prems(2) fuel(2) show ?thesis by simp
  qed
  show ?case
  proof (cases jobj)
    case None
    show ?thesis
    proof (cases "jerr = json_tokener_continue")
      case True
      have p: "1 \<le> p" using tokener_progressD [OF assms(1) _ tk] True Suc.prems(3) by simp
      have "parse_all n T buffer len t' (start + p) = Some (js, rc)" using Suc.prems(1,3) tk None True by simp
      from again [OF this p] True None tk Suc.prems(3) fuel(1) show ?thesis by simp
    next
      case False
      have "js = [] \<and> rc = RETURN_ERR" using Suc.prems(1,3) tk None False by auto
      moreover have "\<not> (jerr = json_tokener_error_parse_unexpected \<and> stopped_at buffer (start + p) len = CHR ''{'')"
        using no_glueD [OF assms(2) Suc.prems(2,3)] tk None by blast
      ultimately show ?thesis using False None tk Suc.prems(3) fuel(1) by auto
    qed
  next
    case (Some j)
    have p: "1 \<le> p" using tokener_progressD [OF assms(1) _ tk] Some Suc.prems(3) by simp
    from Suc.prems(1,3) tk Some obtain js' where
      rest: "parse_all n T buffer len t' (start + p) = Some (js', rc)" and js: "js = j # js'" by auto
    show ?thesis
    proof (cases "process_message J os blk c j buffer len")
      case (Inr r)
      then obtain go_on c1 where "process_message J os blk c j buffer len = Inr (go_on, c1)" by (cases r) auto
      with again [OF rest p, of c1] js Some tk Suc.prems(3) fuel(1) show ?thesis by simp
    qed (use js Some tk Suc.prems(3) fuel(1) in simp)
  qed
qed simp

text \<open>
  C23: the client handles a buffer of messages as the sequence of its messages. If the tokener
  makes progress and does not refuse a second object, the receive callback of the client
  returns or faults, never loops, and does what handling the objects one after the other does.
\<close>

theorem client_buffer_handled_in_sequence:
  assumes "tokener_progress T" and "no_glue T b len" and "tok_new T = Some t" and "0 < len"
  shows "\<exists>js rc. parse_all (Suc (nat len)) T b len t 0 = Some (js, rc)
    \<and> response_parse_cb J T os blk c (Some b) len = process_messages J os blk c b len rc js"
proof -
  have "parse_all (Suc (nat len)) T b len t 0 \<noteq> None" by (rule parse_all_total [OF assms(1)]) simp
  then obtain js rc where all: "parse_all (Suc (nat len)) T b len t 0 = Some (js, rc)" by auto
  have "Suc (nat len) \<le> Suc (nat len) * Suc (Suc (nat len))" by simp
  from response_loop_refines [OF assms(1,2) all _ assms(4) this] all assms(3) show ?thesis
    by (simp add: response_parse_cb_def del: response_loop.simps mult_Suc parse_all.simps)
qed

section \<open>A strict tokener\<close>

text \<open>The turns of the loop on a buffer in which the text \<open>m\<close> of an object stands behind \<open>pre\<close>:
  the whole rest is refused if another object follows, exactly \<open>m\<close> is accepted, and nothing at
  all asks for more.\<close>

lemma response_turn_refused:
  assumes "strict_tokener T ready val" and "ready t" and "val m = Some j" and "buffer = pre @ m @ CHR ''{'' # rest"
    and "int (length pre + length m) < pe" and "pe \<le> len" and "tok_new T = Some t0"
  shows "response_loop (Suc fuel) J T os blk c buffer len t (int (length pre)) pe
    = response_loop fuel J T os blk c buffer len t0 (int (length pre)) (int (length m))"
proof -
  from strict_tokenerD(3) [OF assms(1-3), of "pe - int (length pre)" rest] assms(5)
  obtain t' where tk: "tok_parse_ex T t (m @ CHR ''{'' # rest) (pe - int (length pre)) =
      (t', None, json_tokener_error_parse_unexpected, int (length m))" by auto
  have at: "stopped_at buffer (int (length pre) + int (length m)) pe = CHR ''{''"
    using assms(4,5) by (simp add: stopped_at_def nth_append nat_add_distrib)
  have "int (length pre) \<noteq> len" using assms(5,6) by simp
  then show ?thesis using tk at assms(4,7) by simp
qed

lemma response_turn_exact:
  assumes "strict_tokener T ready val" and "ready t" and "val m = Some j" and "buffer = pre @ m @ rest"
    and "len = int (length buffer)"
  shows "\<exists>t'. ready t' \<and> response_loop (Suc fuel) J T os blk c buffer len t (int (length pre)) (int (length pre + length m))
    = ebind (process_message J os blk c j buffer len) (\<lambda>(go_on, c).
        if \<not> go_on then Inr (RETURN_ERR, c)
        else if rest = [] then Inr (RETURN_OK, c)
        else response_loop fuel J T os blk c buffer len t' (int (length pre + length m)) len)"
proof -
  from strict_tokenerD(2) [OF assms(1-3), of rest] obtain t' where m: "m \<noteq> []" "ready t'"
    and tk: "tok_parse_ex T t (m @ rest) (int (length m)) = (t', Some j, json_tokener_success, int (length m))" by blast
  have start: "int (length pre) \<noteq> len" and fin: "int (length pre) + int (length m) \<ge> len \<longleftrightarrow> rest = []"
    using assms(4,5) length_greater_0_conv [of m] m(1) by (auto simp del: length_greater_0_conv)
  show ?thesis using m(2) tk start fin assms(4) by (intro exI [of _ t']) (simp add: add.commute cong: if_cong)
qed

lemma response_turn_empty:
  assumes "strict_tokener T ready val" and "ready t" and "start < len"
  shows "\<exists>t'. ready t' \<and> response_loop (Suc fuel) J T os blk c buffer len t start start
    = response_loop fuel J T os blk c buffer len t' start len"
proof -
  from strict_tokenerD(4) [OF assms(1,2), of "drop (nat start) buffer"] obtain t' where
    "ready t'" "tok_parse_ex T t (drop (nat start) buffer) 0 = (t', None, json_tokener_continue, 0)" by blast
  with assms(3) show ?thesis by (intro exI [of _ t']) simp
qed

lemma receive_fuel: "0 < len \<Longrightarrow> \<exists>f. Suc (nat len) * Suc (Suc (nat len)) = Suc (Suc (Suc f))"
  by (cases "nat len") auto

lemma ebind_pair_cong:
  "(\<And>a b. m = Inr (a, b) \<Longrightarrow> k a b = k' a b) \<Longrightarrow> ebind m (\<lambda>(a, b). k a b) = ebind m (\<lambda>(a, b). k' a b)"
  by (cases m) auto

text \<open>
  Two messages glued together are handled one after the other, although the tokener refuses
  the second object: the client parses the first again on its own.
\<close>

lemma two_glued_messages:
  assumes "strict_tokener T ready val" and "val m1 = Some j1" and "val (CHR ''{'' # m2) = Some j2"
    and "b = m1 @ CHR ''{'' # m2" and "len = int (length b)"
  shows "response_parse_cb J T os blk c (Some b) len = process_messages J os blk c b len RETURN_OK [j1, j2]"
proof -
  let ?n = "int (length m1)"
  obtain t where t: "tok_new T = Some t" "ready t" using strict_tokenerD(1) [OF assms(1)] by blast
  have len: "0 < len" "int (length m1) < len" "int (length m1 + length (CHR ''{'' # m2)) = len" using assms(4,5) by auto
  obtain f where fuel: "Suc (nat len) * Suc (Suc (nat len)) = Suc (Suc (Suc f))" using receive_fuel [OF len(1)] by auto
  have 1: "response_loop (Suc (Suc (Suc f))) J T os blk c b len t 0 len = response_loop (Suc (Suc f)) J T os blk c b len t 0 ?n"
    using response_turn_refused [OF assms(1) t(2) assms(2), of b "[]" m2 len len t "Suc (Suc f)"] t(1) assms(4) len(2)
    by (simp del: response_loop.simps)
  obtain t' where t': "ready t'" and 2: "response_loop (Suc (Suc f)) J T os blk c b len t 0 ?n =
      ebind (process_message J os blk c j1 b len) (\<lambda>(go_on, c).
        if \<not> go_on then Inr (RETURN_ERR, c) else response_loop (Suc f) J T os blk c b len t' ?n len)"
    using response_turn_exact [OF assms(1) t(2) assms(2) _ assms(5), of "[]" "CHR ''{'' # m2" "Suc f" J os blk c] assms(4)
    by (auto simp del: response_loop.simps cong: if_cong)
  have 3: "response_loop (Suc f) J T os blk c b len t' ?n len =
      ebind (process_message J os blk c j2 b len) (\<lambda>(go_on, c). if go_on then Inr (RETURN_OK, c) else Inr (RETURN_ERR, c))" for c
    using response_turn_exact [OF assms(1) t' assms(3) _ assms(5), of m1 "[]" f J os blk c] assms(4)
    unfolding len(3) by (auto simp: if_not_P simp del: response_loop.simps intro!: ebind_pair_cong)
  show ?thesis
    unfolding response_parse_cb_def option.case t(1) fuel 1 2 process_messages.simps(2)
    by (rule ebind_pair_cong) (simp add: 3 del: response_loop.simps cong: if_cong)
qed

text \<open>
  C38: three messages glued together, the second as long as the first, hang the client if the tokener refuses an
  object that is followed by another one (with a tokener that stops behind the first object the loop returns, see the
  theorem on buffers above). After the
  first message the end that is expected is counted from the start of the second message, while
  the loop takes it as counted from the start of the buffer; the second message is then parsed
  with length zero again and again, whatever number of turns is allowed.
\<close>

theorem three_glued_messages_hang:
  assumes "strict_tokener T ready val" and "val m1 = Some j1" and "val (CHR ''{'' # m2) = Some j2"
    and "length (CHR ''{'' # m2) = length m1" and "b = m1 @ CHR ''{'' # m2 @ CHR ''{'' # m3" and "len = int (length b)"
    and "process_message J os blk c j1 b len = Inr (True, c')" and "tok_new T = Some t"
  shows "response_loop fuel J T os blk c b len t 0 len = Inl No_Return
    \<and> response_parse_cb J T os blk c (Some b) len = Inl No_Return"
proof -
  let ?m2 = "CHR ''{'' # m2" and ?n = "int (length m1)"
  have t: "ready t" using strict_tokenerD(1) [OF assms(1)] assms(8) by auto
  have b1: "b = [] @ m1 @ CHR ''{'' # (m2 @ CHR ''{'' # m3)" and b2: "b = m1 @ ?m2 @ CHR ''{'' # m3" using assms(5) by simp_all
  have len: "int (length [] + length m1) < len" "int (length m1 + length ?m2) < len" "?n < len" using assms(4-6) by auto
  have eq: "int (length ?m2) = ?n" using assms(4) by simp
  have refuse1: "response_loop (Suc k) J T os blk c b len t 0 len = response_loop k J T os blk c b len t 0 ?n" for k
    using response_turn_refused [OF assms(1) t assms(2) b1 len(1) order.refl assms(8)] by (simp del: response_loop.simps)
  have refuse2: "response_loop (Suc k) J T os blk c' b len t' ?n len = response_loop k J T os blk c' b len t ?n ?n"
    if "ready t'" for k t'
    using response_turn_refused [OF assms(1) that assms(3) b2 len(2) order.refl assms(8)] unfolding eq .
  have stuck: "response_loop n J T os blk c' b len t' ?n len = Inl No_Return" if "ready t'" for n t'
    using that
  proof (induction n arbitrary: t' rule: less_induct)
    case (less n)
    consider "n = 0" | "n = Suc 0" | k where "n = Suc (Suc k)" by (metis old.nat.exhaust)
    then show ?case
    proof cases
      case 3
      obtain t2 where "ready t2" "response_loop (Suc k) J T os blk c' b len t ?n ?n = response_loop k J T os blk c' b len t2 ?n len"
        using response_turn_empty [OF assms(1) t len(3)] by blast
      with 3 less.IH [of k t2] refuse2 [OF less.prems, of "Suc k"] show ?thesis by simp
    qed (simp_all only: refuse2 [OF less.prems] response_loop.simps(1))
  qed
  have all: "response_loop n J T os blk c b len t 0 len = Inl No_Return" for n
  proof -
    consider "n = 0" | "n = Suc 0" | k where "n = Suc (Suc k)" by (metis old.nat.exhaust)
    then show ?thesis
    proof cases
      case 3
      obtain t2 where "ready t2" "response_loop (Suc k) J T os blk c b len t 0 ?n = response_loop k J T os blk c' b len t2 ?n len"
        using response_turn_exact [OF assms(1) t assms(2) _ assms(6), of "[]" "?m2 @ CHR ''{'' # m3" k J os blk c] assms(5,7)
        by (auto simp del: response_loop.simps)
      with 3 stuck refuse1 [of "Suc k"] show ?thesis by simp
    qed (simp_all only: refuse1 response_loop.simps(1))
  qed
  then show ?thesis by (simp add: response_parse_cb_def assms(8) del: response_loop.simps mult_Suc)
qed

text \<open>The server has no such treatment.\<close>

lemma server_drops_glued:
  assumes "strict_tokener (tok P) ready val" and "val m1 = Some j1" and "b = m1 @ CHR ''{'' # rest"
  shows "message_process_cb P s fd (Some b) (int (length b)) = Inr (RETURN_ERR, s)"
proof -
  obtain t where t: "tok_new (tok P) = Some t" "ready t" using strict_tokenerD(1) [OF assms(1)] by blast
  from strict_tokenerD(3) [OF assms(1) t(2) assms(2), of "int (length b)" rest] assms(3) t(1) show ?thesis
    by (auto simp: message_process_cb_def)
qed

text \<open>
  C39: two messages glued together, with a tokener that refuses a second object. The client
  handles them one after the other: it parses the first again on its own. The server handles
  none of the messages of a glued buffer and reports an error.
\<close>

theorem glued_messages_client_and_server:
  assumes "strict_tokener (tok P) ready val" and "val m1 = Some j1" and "val (CHR ''{'' # m2) = Some j2"
    and "b = m1 @ CHR ''{'' # m2" and "len = int (length b)"
  shows "response_parse_cb J (tok P) os blk c (Some b) len = process_messages J os blk c b len RETURN_OK [j1, j2]
    \<and> message_process_cb P s fd (Some b) len = Inr (RETURN_ERR, s)"
  using two_glued_messages [OF assms] server_drops_glued [OF assms(1,2,4)] assms(5) by simp

section \<open>Examples\<close>

lemma brace_message: "process_message print_json os blk c (JObject []) b len = Inr (True, c)"
  by (simp add: process_message_def print_json_def tree_json_def)

theorem three_glued_messages_hang_witness:
  "response_parse_cb print_json brace_tokener (chunk_os 1) False example_client (Some ''{}{}{}'') 6 = Inl No_Return"
  using three_glued_messages_hang [OF brace_tokener_strict, of "''{}''" "JObject []" "''}''" "JObject []" "''{}{}{}''" "''}''" 6
      print_json "chunk_os 1" False example_client example_client "()" 0]
  by (simp add: brace_value_def brace_message brace_tokener_def)

theorem glued_messages_client_and_server_witness:
  "response_parse_cb print_json brace_tokener (chunk_os 1) False example_client (Some ''{}{}'') 4 = Inr (RETURN_OK, example_client)
   \<and> message_process_cb (example_platform\<lparr>tok := brace_tokener\<rparr>) (initial_server []) 7 (Some ''{}{}'') 4 = Inr (RETURN_ERR, initial_server [])"
  using glued_messages_client_and_server [of "example_platform\<lparr>tok := brace_tokener\<rparr>" "\<lambda>_. True" brace_value "''{}''" "JObject []" "''}''" "JObject []" "''{}{}''" 4
      print_json "chunk_os 1" False example_client "initial_server []" 7]
  by (simp add: brace_value_def brace_message brace_tokener_strict)

text \<open>A tokener that takes two characters for an object, whatever follows.\<close>

definition pair_tokener :: "(json, unit) tokener" where
  "pair_tokener = \<lparr>tok_new = Some (), tok_parse_ex = (\<lambda>t s n. (t, Some (JObject []), json_tokener_success, 2))\<rparr>"

theorem client_buffer_handled_in_sequence_witness:
  "response_parse_cb print_json pair_tokener (chunk_os 1) False example_client (Some ''{}{}{}'') 6 = Inr (RETURN_OK, example_client)"
proof -
  have "tokener_progress pair_tokener" "no_glue pair_tokener ''{}{}{}'' 6" "tok_new pair_tokener = Some ()"
    by (simp_all add: tokener_progress_def no_glue_def pair_tokener_def)
  from client_buffer_handled_in_sequence [OF this, of print_json "chunk_os 1" False example_client]
  obtain js rc where all: "parse_all (Suc (nat 6)) pair_tokener ''{}{}{}'' 6 () 0 = Some (js, rc)"
    and run: "response_parse_cb print_json pair_tokener (chunk_os 1) False example_client (Some ''{}{}{}'') 6 =
      process_messages print_json (chunk_os 1) False example_client ''{}{}{}'' 6 rc js" by auto
  have "rc = RETURN_OK \<and> js = [JObject [], JObject [], JObject []]"
    using all by (simp add: pair_tokener_def eval_nat_numeral)
  with run show ?thesis by (simp add: brace_message)
qed

end
