(* ===== verification/Client_Locks.thy ===== *)
theory Client_Locks
  imports Prelude
begin

text \<open>
  The locks of \<^verbatim>\<open>json_hal_client.c\<close>. Any number of callers of
  \<^verbatim>\<open>client_send_and_get_reply\<close> and the socket thread run at the same time; they share
  the tracking list with its lock \<^verbatim>\<open>gm_request_msg_tracking_lock\<close> and, for each call, a node with
  its own lock and condition variable. The theory \<open>Hal_Client\<close> has what the functions compute; here
  every statement that takes, releases or destroys a lock, or touches what the threads share, is
  a step of its own, and an execution is an arbitrary interleaving of steps.

  A node is named by its sequence number, since different calls have different numbers (this is
  shown in \<open>Client_Requests\<close>). \<^verbatim>\<open>LL_APPEND\<close>, which the caller does without the lock of the
  list, is one step here, so that what is shown here is about the locks and the nodes apart from that
  statement; the theory \<open>Append_Race\<close> takes it apart and shows what goes wrong inside it. The library is
  not terminated while calls are being made.
\<close>

section \<open>Threads and what they share\<close>

datatype thread = Socket | Caller int

datatype mutex = Unlocked | Locked thread | Destroyed

text \<open>Where a call stands: the next statement of \<^verbatim>\<open>client_send_and_get_reply\<close> and of the \<^verbatim>\<open>request_delete_cb\<close> it
  calls. The cleaning up is written twice in the source; the argument says whether it is the
  copy behind the wait (\<open>True\<close>) or the one for a send that failed.\<close>

datatype call_pc =
    C_Lock             \<comment> \<open>\<^verbatim>\<open>pthread_mutex_lock(&rpc->lock)\<close>\<close>
  | C_Append           \<comment> \<open>the fields of the node and \<^verbatim>\<open>LL_APPEND\<close>\<close>
  | C_Send             \<comment> \<open>\<^verbatim>\<open>json_message_send\<close>\<close>
  | C_Wait             \<comment> \<open>\<^verbatim>\<open>pthread_cond_wait\<close>, entry\<close>
  | C_Sleep            \<comment> \<open>inside \<^verbatim>\<open>pthread_cond_wait\<close>, not woken\<close>
  | C_Woken            \<comment> \<open>inside \<^verbatim>\<open>pthread_cond_wait\<close>, about to take the lock again\<close>
  | C_Unlock bool      \<comment> \<open>\<^verbatim>\<open>pthread_mutex_unlock(&rpc->lock)\<close>\<close>
  | C_Destroy bool     \<comment> \<open>\<^verbatim>\<open>pthread_mutex_destroy\<close>, \<^verbatim>\<open>pthread_cond_destroy\<close>\<close>
  | C_List_Lock bool   \<comment> \<open>\<^verbatim>\<open>request_delete_cb\<close>: take the lock of the list\<close>
  | C_Delete bool      \<comment> \<open>\<^verbatim>\<open>request_delete_cb\<close>: find the node and unlink it\<close>
  | C_List_Unlock bool \<comment> \<open>\<^verbatim>\<open>request_delete_cb\<close>: release the lock of the list\<close>
  | C_Result bool      \<comment> \<open>read the return code and free the node\<close>
  | C_Returned int     \<comment> \<open>the call has returned with this code\<close>

text \<open>Where the socket thread stands in \<^verbatim>\<open>response_parse_cb\<close> or \<^verbatim>\<open>request_tracking_cb\<close>.
  A node is served for a reply, behind which the loop is left, or for a timeout, behind which it
  goes on with the element \<^verbatim>\<open>tmp\<close>.\<close>

datatype after = Break | Go_On "int option"

datatype socket_pc =
    S_Idle                            \<comment> \<open>in neither function\<close>
  | S_Reply_Lock int                  \<comment> \<open>take the lock of the list for a reply with this id\<close>
  | S_Reply_Search int                \<comment> \<open>look for the node of the reply\<close>
  | S_Tick_Lock                       \<comment> \<open>take the lock of the list for the timeouts\<close>
  | S_Tick_Start                      \<comment> \<open>\<^verbatim>\<open>LL_FOREACH_SAFE\<close>: first element\<close>
  | S_Tick "int option"               \<comment> \<open>the timeout loop at this element; \<open>None\<close>: release the lock of the list\<close>
  | S_Node_Lock int after              \<comment> \<open>\<^verbatim>\<open>pthread_mutex_lock(&rpc->lock)\<close>\<close>
  | S_Signal int after                 \<comment> \<open>\<^verbatim>\<open>pthread_cond_signal(&rpc->msg_rcvd)\<close>\<close>
  | S_Node_Unlock int after            \<comment> \<open>\<^verbatim>\<open>pthread_mutex_unlock(&rpc->lock)\<close>\<close>
  | S_Log int "int option"            \<comment> \<open>the message about an expired request reads \<^verbatim>\<open>rpc->sequence\<close>\<close>

record call =
  call_pc :: call_pc
  node_lock :: mutex
  node_freed :: bool
  node_rc :: int
  node_ticker :: int

record shared =
  list_lock :: "thread option"
  tracked :: "int list"
  socket_pc :: socket_pc
  calls :: "int \<Rightarrow> call"

definition upd_call :: "int \<Rightarrow> (call \<Rightarrow> call) \<Rightarrow> shared \<Rightarrow> shared" where
  "upd_call k f s = s\<lparr>calls := (calls s)(k := f (calls s k))\<rparr>"

text \<open>Nothing has been called: every node is as \<^verbatim>\<open>pthread_mutex_init\<close> leaves it.\<close>

definition start_state :: shared where
  "start_state = \<lparr>list_lock = None, tracked = [], socket_pc = S_Idle,
     calls = (\<lambda>_. \<lparr>call_pc = C_Lock, node_lock = Unlocked, node_freed = False, node_rc = 0, node_ticker = 0\<rparr>)\<rparr>"

section \<open>Steps\<close>

text \<open>What may happen next: a call or the socket thread executes its next statement, a send
  fails instead of succeeding, a wait ends without a signal (which POSIX allows), a reply arrives,
  or the idle function is called.\<close>

datatype event =
    Call int int   \<comment> \<open>next statement; the second number is the timeout of a call that appends\<close>
  | Send_Fails int
  | Spurious int
  | Reply int
  | Idle
  | Thread

text \<open>The element behind \<open>k\<close> in the list.\<close>

fun next_in :: "int list \<Rightarrow> int \<Rightarrow> int option" where
  "next_in [] k = None"
| "next_in (x # xs) k = (if x = k then (case xs of [] \<Rightarrow> None | y # _ \<Rightarrow> Some y) else next_in xs k)"

text \<open>Walking the list reads its nodes.\<close>

definition list_freed :: "shared \<Rightarrow> bool" where
  "list_freed s \<longleftrightarrow> (\<exists>k\<in>set (tracked s). node_freed (calls s k))"

text \<open>A step has the result \<open>None\<close> when the thread cannot make it (it waits for a lock, or it
  stands elsewhere) and a fault when it has no meaning: a lock that was destroyed is taken, a
  lock is destroyed while it is held, or a node that was freed is used.\<close>

definition caller_step :: "int \<Rightarrow> int \<Rightarrow> shared \<Rightarrow> shared cres option" where
  "caller_step k ticks s =
     (let c = calls s k in
      case call_pc c of
        C_Lock \<Rightarrow>
          (case node_lock c of
             Unlocked \<Rightarrow> Some (Inr (upd_call k (\<lambda>c. c\<lparr>node_lock := Locked (Caller k), call_pc := C_Append\<rparr>) s))
           | Locked _ \<Rightarrow> None
           | Destroyed \<Rightarrow> Some (Inl Destroyed_Lock))
      | C_Append \<Rightarrow>
          if list_freed s then Some (Inl Use_After_Free)
          else Some (Inr (upd_call k (\<lambda>c. c\<lparr>node_ticker := ticks, node_rc := RETURN_ERR, call_pc := C_Send\<rparr>)
            (s\<lparr>tracked := tracked s @ [k]\<rparr>)))
      | C_Send \<Rightarrow> Some (Inr (upd_call k (\<lambda>c. c\<lparr>call_pc := C_Wait\<rparr>) s))
      | C_Wait \<Rightarrow> Some (Inr (upd_call k (\<lambda>c. c\<lparr>node_lock := Unlocked, call_pc := C_Sleep\<rparr>) s))
      | C_Sleep \<Rightarrow> None
      | C_Woken \<Rightarrow>
          (case node_lock c of
             Unlocked \<Rightarrow> Some (Inr (upd_call k (\<lambda>c. c\<lparr>node_lock := Locked (Caller k), call_pc := C_Unlock True\<rparr>) s))
           | Locked _ \<Rightarrow> None
           | Destroyed \<Rightarrow> Some (Inl Destroyed_Lock))
      | C_Unlock ok \<Rightarrow> Some (Inr (upd_call k (\<lambda>c. c\<lparr>node_lock := Unlocked, call_pc := C_Destroy ok\<rparr>) s))
      | C_Destroy ok \<Rightarrow>
          (if node_lock c = Unlocked
           then Some (Inr (upd_call k (\<lambda>c. c\<lparr>node_lock := Destroyed, call_pc := C_List_Lock ok\<rparr>) s))
           else Some (Inl Destroyed_Lock))
      | C_List_Lock ok \<Rightarrow>
          (if list_lock s = None
           then Some (Inr (upd_call k (\<lambda>c. c\<lparr>call_pc := C_Delete ok\<rparr>) (s\<lparr>list_lock := Some (Caller k)\<rparr>)))
           else None)
      | C_Delete ok \<Rightarrow>
          (if list_freed s then Some (Inl Use_After_Free)
           else Some (Inr (upd_call k (\<lambda>c. c\<lparr>call_pc := C_List_Unlock ok\<rparr>) (s\<lparr>tracked := remove1 k (tracked s)\<rparr>))))
      | C_List_Unlock ok \<Rightarrow>
          Some (Inr (upd_call k (\<lambda>c. c\<lparr>call_pc := C_Result ok\<rparr>) (s\<lparr>list_lock := None\<rparr>)))
      | C_Result ok \<Rightarrow>
          Some (Inr (upd_call k (\<lambda>c. c\<lparr>node_freed := True,
            call_pc := C_Returned (if ok then node_rc c else RETURN_ERR)\<rparr>) s))
      | C_Returned _ \<Rightarrow> None)"

text \<open>The statements of the socket thread. Serving a node unlinks it, sets its return code and
  then wakes its owner under the lock of the node; the signal is lost on an owner that does not
  sleep.\<close>

definition serve :: "int \<Rightarrow> int \<Rightarrow> after \<Rightarrow> shared \<Rightarrow> shared" where
  "serve k rc nxt s =
     upd_call k (\<lambda>c. c\<lparr>node_rc := rc\<rparr>) (s\<lparr>tracked := remove1 k (tracked s), socket_pc := S_Node_Lock k nxt\<rparr>)"

definition socket_step :: "shared \<Rightarrow> shared cres option" where
  "socket_step s =
     (case socket_pc s of
        S_Idle \<Rightarrow> None
      | S_Reply_Lock rid \<Rightarrow>
          (if list_lock s = None
           then Some (Inr (s\<lparr>list_lock := Some Socket, socket_pc := S_Reply_Search rid\<rparr>)) else None)
      | S_Reply_Search rid \<Rightarrow>
          (if list_freed s then Some (Inl Use_After_Free)
           else if rid \<in> set (tracked s) then Some (Inr (serve rid RETURN_OK Break s))
           else Some (Inr (s\<lparr>socket_pc := S_Tick None\<rparr>)))
      | S_Tick_Lock \<Rightarrow>
          (if list_lock s = None
           then Some (Inr (s\<lparr>list_lock := Some Socket, socket_pc := S_Tick_Start\<rparr>)) else None)
      | S_Tick_Start \<Rightarrow>
          Some (Inr (s\<lparr>socket_pc := S_Tick (case tracked s of [] \<Rightarrow> None | k # _ \<Rightarrow> Some k)\<rparr>))
      | S_Tick None \<Rightarrow> Some (Inr (s\<lparr>list_lock := None, socket_pc := S_Idle\<rparr>))
      | S_Tick (Some k) \<Rightarrow>
          (let c = calls s k; tmp = next_in (tracked s) k; ticker = node_ticker c - 1 in
           if node_freed c \<or> list_freed s then Some (Inl Use_After_Free)
           else
             let s = upd_call k (\<lambda>c. c\<lparr>node_ticker := ticker\<rparr>) s in
             if ticker \<le> 0 then Some (Inr (serve k RETURN_ERR (Go_On tmp) s))
             else Some (Inr (s\<lparr>socket_pc := S_Tick tmp\<rparr>)))
      | S_Node_Lock k nxt \<Rightarrow>
          (if node_freed (calls s k) then Some (Inl Use_After_Free)
           else
             (case node_lock (calls s k) of
                Unlocked \<Rightarrow> Some (Inr (upd_call k (\<lambda>c. c\<lparr>node_lock := Locked Socket\<rparr>) (s\<lparr>socket_pc := S_Signal k nxt\<rparr>)))
              | Locked _ \<Rightarrow> None
              | Destroyed \<Rightarrow> Some (Inl Destroyed_Lock)))
      | S_Signal k nxt \<Rightarrow>
          Some (Inr (upd_call k (\<lambda>c. if call_pc c = C_Sleep then c\<lparr>call_pc := C_Woken\<rparr> else c)
            (s\<lparr>socket_pc := S_Node_Unlock k nxt\<rparr>)))
      | S_Node_Unlock k nxt \<Rightarrow>
          Some (Inr (upd_call k (\<lambda>c. c\<lparr>node_lock := Unlocked\<rparr>)
            (s\<lparr>socket_pc := (case nxt of Break \<Rightarrow> S_Tick None | Go_On tmp \<Rightarrow> S_Log k tmp)\<rparr>)))
      | S_Log k tmp \<Rightarrow>
          (if node_freed (calls s k) then Some (Inl Use_After_Free)
           else Some (Inr (s\<lparr>socket_pc := S_Tick tmp\<rparr>))))"

fun step :: "event \<Rightarrow> shared \<Rightarrow> shared cres option" where
  "step (Call k ticks) s = caller_step k ticks s"
| "step (Send_Fails k) s =
     (if call_pc (calls s k) = C_Send
      then Some (Inr (upd_call k (\<lambda>c. c\<lparr>call_pc := C_Unlock False\<rparr>) s)) else None)"
| "step (Spurious k) s =
     (if call_pc (calls s k) = C_Sleep
      then Some (Inr (upd_call k (\<lambda>c. c\<lparr>call_pc := C_Woken\<rparr>) s)) else None)"
| "step (Reply rid) s =
     (if socket_pc s = S_Idle then Some (Inr (s\<lparr>socket_pc := S_Reply_Lock rid\<rparr>)) else None)"
| "step Idle s =
     (if socket_pc s = S_Idle then Some (Inr (s\<lparr>socket_pc := S_Tick_Lock\<rparr>)) else None)"
| "step Thread s = socket_step s"

text \<open>An interleaving: the events one after the other, each possible where it happens.\<close>

fun run :: "event list \<Rightarrow> shared \<Rightarrow> shared cres option" where
  "run [] s = Some (Inr s)"
| "run (e # es) s =
     (case step e s of
        None \<Rightarrow> None
      | Some (Inl f) \<Rightarrow> if es = [] then Some (Inl f) else None
      | Some (Inr s') \<Rightarrow> run es s')"

section \<open>The invariant\<close>

text \<open>Calls whose send failed or whose wait ended without a signal, and calls for which a reply
  has arrived, among the events so far.\<close>

definition disturbed :: "event list \<Rightarrow> int \<Rightarrow> bool" where
  "disturbed es k \<longleftrightarrow> Send_Fails k \<in> set es \<or> Spurious k \<in> set es"

text \<open>What the places of the two programs mean: the caller holds the lock of its node, has
  destroyed it, may be in the list, may still be used by the socket thread, has yet to be woken,
  or has been; the socket thread holds the lock of the list or that of a node, uses a node, has
  unlinked it, or has yet to wake its owner.\<close>

fun owns_node :: "call_pc \<Rightarrow> bool" where
  "owns_node C_Append = True" | "owns_node C_Send = True" | "owns_node C_Wait = True"
| "owns_node (C_Unlock ok) = True" | "owns_node _ = False"

fun destroyed_pc :: "call_pc \<Rightarrow> bool" where
  "destroyed_pc (C_List_Lock ok) = True" | "destroyed_pc (C_Delete ok) = True"
| "destroyed_pc (C_List_Unlock ok) = True" | "destroyed_pc (C_Result ok) = True"
| "destroyed_pc (C_Returned r) = True" | "destroyed_pc _ = False"

fun destroys :: "call_pc \<Rightarrow> bool" where
  "destroys (C_Destroy ok) = True" | "destroys _ = False"

fun returned_pc :: "call_pc \<Rightarrow> bool" where
  "returned_pc (C_Returned r) = True" | "returned_pc _ = False"

fun owns_list :: "call_pc \<Rightarrow> bool" where
  "owns_list (C_Delete ok) = True" | "owns_list (C_List_Unlock ok) = True" | "owns_list _ = False"

fun appended :: "call_pc \<Rightarrow> bool" where
  "appended C_Lock = False" | "appended C_Append = False" | "appended _ = True"

fun may_be_tracked :: "call_pc \<Rightarrow> bool" where
  "may_be_tracked (C_List_Unlock ok) = False" | "may_be_tracked (C_Result ok) = False"
| "may_be_tracked (C_Returned r) = False" | "may_be_tracked p = appended p"

fun must_be_woken :: "call_pc \<Rightarrow> bool" where
  "must_be_woken C_Send = True" | "must_be_woken C_Wait = True" | "must_be_woken C_Sleep = True"
| "must_be_woken _ = False"

fun failed_pc :: "call_pc \<Rightarrow> bool" where
  "failed_pc (C_Unlock ok) = (\<not> ok)" | "failed_pc (C_Destroy ok) = (\<not> ok)"
| "failed_pc (C_List_Lock ok) = (\<not> ok)" | "failed_pc (C_Delete ok) = (\<not> ok)"
| "failed_pc (C_List_Unlock ok) = (\<not> ok)" | "failed_pc (C_Result ok) = (\<not> ok)"
| "failed_pc _ = False"

fun in_list :: "socket_pc \<Rightarrow> bool" where
  "in_list S_Idle = False" | "in_list (S_Reply_Lock i) = False" | "in_list S_Tick_Lock = False"
| "in_list _ = True"

fun locks_node :: "socket_pc \<Rightarrow> int \<Rightarrow> bool" where
  "locks_node (S_Signal k nxt) j = (k = j)" | "locks_node (S_Node_Unlock k nxt) j = (k = j)"
| "locks_node _ j = False"

fun serves :: "socket_pc \<Rightarrow> int \<Rightarrow> bool" where
  "serves (S_Node_Lock k nxt) j = (k = j)" | "serves (S_Log k tmp) j = (k = j)"
| "serves q j = locks_node q j"

fun will_wake :: "socket_pc \<Rightarrow> int \<Rightarrow> bool" where
  "will_wake (S_Node_Lock k nxt) j = (k = j)" | "will_wake (S_Signal k nxt) j = (k = j)"
| "will_wake _ j = False"

fun rest :: "after \<Rightarrow> int option" where
  "rest Break = None" | "rest (Go_On tmp) = tmp"

fun goes_to :: "socket_pc \<Rightarrow> int option" where
  "goes_to (S_Tick el) = el" | "goes_to (S_Log k tmp) = tmp"
| "goes_to (S_Node_Lock k nxt) = rest nxt" | "goes_to (S_Signal k nxt) = rest nxt"
| "goes_to (S_Node_Unlock k nxt) = rest nxt" | "goes_to _ = None"

fun reply_for :: "socket_pc \<Rightarrow> int option" where
  "reply_for (S_Reply_Lock i) = Some i" | "reply_for (S_Reply_Search i) = Some i"
| "reply_for _ = None"

definition locks_ok :: "shared \<Rightarrow> int \<Rightarrow> bool" where
  "locks_ok s k \<longleftrightarrow>
     (let c = calls s k; p = call_pc c in
      node_lock c =
        (if owns_node p then Locked (Caller k)
         else if locks_node (socket_pc s) k then Locked Socket
         else if destroyed_pc p then Destroyed else Unlocked) \<and>
      (locks_node (socket_pc s) k \<longrightarrow> \<not> owns_node p \<and> \<not> destroyed_pc p) \<and>
      (node_freed c \<longleftrightarrow> returned_pc p) \<and>
      (list_lock s = Some (Caller k) \<longleftrightarrow> owns_list p))"

definition tracking_ok :: "shared \<Rightarrow> int \<Rightarrow> bool" where
  "tracking_ok s k \<longleftrightarrow>
     (let p = call_pc (calls s k); q = socket_pc s in
      (k \<in> set (tracked s) \<longrightarrow> may_be_tracked p) \<and>
      (serves q k \<longrightarrow> k \<notin> set (tracked s) \<and> may_be_tracked p \<and> \<not> owns_list p) \<and>
      (must_be_woken p \<longrightarrow> k \<in> set (tracked s) \<or> will_wake q k))"

definition outcome_ok :: "event list \<Rightarrow> shared \<Rightarrow> int \<Rightarrow> bool" where
  "outcome_ok es s k \<longleftrightarrow>
     (let c = calls s k; p = call_pc c; q = socket_pc s in
      (appended p \<and> \<not> disturbed es k \<and> \<not> must_be_woken p \<longrightarrow>
         k \<notin> set (tracked s) \<and> \<not> will_wake q k \<and> \<not> failed_pc p) \<and>
      (appended p \<and> k \<notin> set (tracked s) \<and> \<not> disturbed es k \<longrightarrow>
         node_rc c = RETURN_OK \<and> Reply k \<in> set es \<or> node_rc c = RETURN_ERR \<and> node_ticker c \<le> 0) \<and>
      (destroys p \<and> \<not> disturbed es k \<longrightarrow> \<not> locks_node q k) \<and>
      (\<forall>r. p = C_Returned r \<and> \<not> disturbed es k \<longrightarrow> r = node_rc c))"

definition shared_inv :: "event list \<Rightarrow> shared \<Rightarrow> bool" where
  "shared_inv es s \<longleftrightarrow>
     distinct (tracked s) \<and>
     (list_lock s = Some Socket \<longleftrightarrow> in_list (socket_pc s)) \<and>
     (\<forall>k. goes_to (socket_pc s) = Some k \<longrightarrow> k \<in> set (tracked s)) \<and>
     (\<forall>k. reply_for (socket_pc s) = Some k \<longrightarrow> Reply k \<in> set es) \<and>
     (\<forall>k. locks_ok s k \<and> tracking_ok s k \<and> outcome_ok es s k)"

lemmas inv_defs = shared_inv_def locks_ok_def tracking_ok_def outcome_ok_def Let_def

lemma upd_call_simps [simp]:
  "calls (upd_call k f s) j = (if j = k then f (calls s k) else calls s j)"
  "list_lock (upd_call k f s) = list_lock s" "tracked (upd_call k f s) = tracked s"
  "socket_pc (upd_call k f s) = socket_pc s"
  by (simp_all add: upd_call_def)

lemma next_in_set: "next_in xs k = Some j \<Longrightarrow> j \<in> set xs"
  by (induction xs) (auto split: if_splits list.splits)

lemma next_in_neq: "distinct xs \<Longrightarrow> next_in xs k = Some j \<Longrightarrow> j \<noteq> k"
  by (induction xs) (auto split: if_splits list.splits dest: next_in_set)

lemma start_inv: "shared_inv [] start_state"
  by (simp add: inv_defs start_state_def)


text \<open>What holds of the state a step leads to, if it can be made and does not fault.\<close>

definition leads_to :: "shared cres option \<Rightarrow> (shared \<Rightarrow> bool) \<Rightarrow> bool" where
  "leads_to r P \<longleftrightarrow> (\<forall>s'. r = Some (Inr s') \<longrightarrow> P s')"

lemma leads_to_simps [simp]:
  "leads_to None P" "leads_to (Some (Inl f)) P" "leads_to (Some (Inr s)) P = P s"
  "leads_to (if b then x else y) P = ((b \<longrightarrow> leads_to x P) \<and> (\<not> b \<longrightarrow> leads_to y P))"
  by (auto simp: leads_to_def)

lemma leads_to_mutex [simp]:
  "leads_to (case m of Unlocked \<Rightarrow> x | Locked t \<Rightarrow> y t | Destroyed \<Rightarrow> z) P =
   ((m = Unlocked \<longrightarrow> leads_to x P) \<and> (\<forall>t. m = Locked t \<longrightarrow> leads_to (y t) P) \<and> (m = Destroyed \<longrightarrow> leads_to z P))"
  by (cases m) auto

lemma will_wake_serves: "will_wake q k \<Longrightarrow> serves q k"
  by (cases q) auto

lemma serves_in_list: "serves q k \<Longrightarrow> in_list q"
  by (cases q) auto

lemma goes_to_in_list: "goes_to q = Some k \<Longrightarrow> in_list q"
  by (cases q) auto

lemma must_be_woken_cases: "must_be_woken p \<Longrightarrow> p = C_Sleep \<or> owns_node p"
  by (cases p) auto

lemma destroys_cases: "destroys p \<Longrightarrow> appended p \<and> \<not> must_be_woken p"
  by (cases p) auto

lemma destroyed_pc_cases: "destroyed_pc p \<Longrightarrow> appended p \<and> \<not> must_be_woken p"
  by (cases p) auto

lemma caller_locks_ok:
  assumes "locks_ok s j" "locks_ok s k"
  shows "leads_to (caller_step k ticks s) (\<lambda>s'. locks_ok s' j)"
  using assms
  by (cases "call_pc (calls s k)") (auto simp add: locks_ok_def Let_def caller_step_def)

lemma caller_tracking_ok:
  assumes "tracking_ok s j" "locks_ok s k" "distinct (tracked s)"
    "list_lock s = Some Socket \<longleftrightarrow> in_list (socket_pc s)"
  shows "leads_to (caller_step k ticks s) (\<lambda>s'. tracking_ok s' j)"
  using assms
  by (cases "call_pc (calls s k)")
     (auto simp add: tracking_ok_def locks_ok_def Let_def caller_step_def dest: serves_in_list)

lemma caller_outcome_ok:
  assumes "outcome_ok es s j" "tracking_ok s j" "locks_ok s k"
  shows "leads_to (caller_step k ticks s) (\<lambda>s'. outcome_ok es s' j)"
  using assms
  using will_wake_serves [of "socket_pc s" k]
  by (cases "j = k"; cases "call_pc (calls s k)")
     (simp_all add: outcome_ok_def tracking_ok_def locks_ok_def Let_def caller_step_def)

lemma socket_locks_ok:
  assumes "locks_ok s j" "tracking_ok s j" "list_lock s = Some Socket \<longleftrightarrow> in_list (socket_pc s)"
  shows "leads_to (socket_step s) (\<lambda>s'. locks_ok s' j)"
  using assms
  by (cases "socket_pc s")
     (auto simp add: locks_ok_def tracking_ok_def serve_def Let_def socket_step_def split: option.splits after.splits)

lemma socket_tracking_ok:
  assumes "tracking_ok s j" "distinct (tracked s)" "locks_ok s j"
    "list_lock s = Some Socket \<longleftrightarrow> in_list (socket_pc s)"
    "goes_to (socket_pc s) = Some j \<longrightarrow> j \<in> set (tracked s)"
  shows "leads_to (socket_step s) (\<lambda>s'. tracking_ok s' j)"
  using assms
  by (cases "socket_pc s")
     (auto simp add: tracking_ok_def locks_ok_def serve_def Let_def socket_step_def split: option.splits after.splits dest: must_be_woken_cases)

lemma socket_outcome_ok:
  assumes "outcome_ok es s j" "tracking_ok s j" "distinct (tracked s)"
    "goes_to (socket_pc s) = Some j \<longrightarrow> j \<in> set (tracked s)"
    "reply_for (socket_pc s) = Some j \<longrightarrow> Reply j \<in> set es"
  shows "leads_to (socket_step s) (\<lambda>s'. outcome_ok es s' j)"
  using assms destroys_cases [of "call_pc (calls s j)"]
  by (cases "socket_pc s")
     (auto simp add: outcome_ok_def tracking_ok_def serve_def Let_def socket_step_def
          split: option.splits after.splits)

lemma caller_globals:
  assumes "distinct (tracked s)" "list_lock s = Some Socket \<longleftrightarrow> in_list (socket_pc s)"
    "tracking_ok s k" "locks_ok s k" "\<forall>j. goes_to (socket_pc s) = Some j \<longrightarrow> j \<in> set (tracked s)"
  shows "leads_to (caller_step k ticks s) (\<lambda>s'. distinct (tracked s') \<and>
    (list_lock s' = Some Socket \<longleftrightarrow> in_list (socket_pc s')) \<and> socket_pc s' = socket_pc s \<and>
    (\<forall>j. goes_to (socket_pc s) = Some j \<longrightarrow> j \<in> set (tracked s')))"
  using assms goes_to_in_list [of "socket_pc s"]
  by (cases "call_pc (calls s k)") (auto simp: caller_step_def tracking_ok_def locks_ok_def Let_def)

lemma socket_globals:
  assumes "distinct (tracked s)" "list_lock s = Some Socket \<longleftrightarrow> in_list (socket_pc s)"
    "\<forall>j. goes_to (socket_pc s) = Some j \<longrightarrow> j \<in> set (tracked s)"
    "\<forall>j. reply_for (socket_pc s) = Some j \<longrightarrow> Reply j \<in> set es"
  shows "leads_to (socket_step s) (\<lambda>s'. distinct (tracked s') \<and>
    (list_lock s' = Some Socket \<longleftrightarrow> in_list (socket_pc s')) \<and>
    (\<forall>j. goes_to (socket_pc s') = Some j \<longrightarrow> j \<in> set (tracked s')) \<and>
    (\<forall>j. reply_for (socket_pc s') = Some j \<longrightarrow> Reply j \<in> set es))"
  using assms
  by (cases "socket_pc s")
     (auto simp: socket_step_def serve_def Let_def split: option.splits after.splits list.splits
        dest: next_in_set next_in_neq)

lemma outcome_ok_mono: "outcome_ok es s k \<Longrightarrow> outcome_ok (es @ [e]) s k"
  by (auto simp: outcome_ok_def disturbed_def Let_def)

lemma shared_inv_mono: "shared_inv es s \<Longrightarrow> shared_inv (es @ [e]) s"
  by (simp add: shared_inv_def outcome_ok_mono)

lemma leads_toI: "(\<And>s'. r = Some (Inr s') \<Longrightarrow> P s') \<Longrightarrow> leads_to r P"
  by (simp add: leads_to_def)

lemma leads_toD: "leads_to r P \<Longrightarrow> r = Some (Inr s') \<Longrightarrow> P s'"
  by (simp add: leads_to_def)

lemma caller_inv:
  assumes "shared_inv es s" shows "leads_to (caller_step k ticks s) (shared_inv es)"
proof (rule leads_toI)
  fix s' assume st: "caller_step k ticks s = Some (Inr s')"
  have g: "distinct (tracked s)" "list_lock s = Some Socket \<longleftrightarrow> in_list (socket_pc s)"
    "\<forall>j. goes_to (socket_pc s) = Some j \<longrightarrow> j \<in> set (tracked s)"
    "\<forall>j. reply_for (socket_pc s) = Some j \<longrightarrow> Reply j \<in> set es"
    and c: "\<And>j. locks_ok s j" "\<And>j. tracking_ok s j" "\<And>j. outcome_ok es s j"
    using assms by (auto simp: shared_inv_def)
  show "shared_inv es s'"
    using leads_toD [OF caller_globals [OF g(1,2) c(2) c(1) g(3)] st] g(4)
      leads_toD [OF caller_locks_ok [OF c(1) c(1)] st]
      leads_toD [OF caller_tracking_ok [OF c(2) c(1) g(1,2)] st]
      leads_toD [OF caller_outcome_ok [OF c(3) c(2) c(1)] st]
    by (simp add: shared_inv_def)
qed

lemma socket_inv:
  assumes "shared_inv es s" shows "leads_to (socket_step s) (shared_inv es)"
proof (rule leads_toI)
  fix s' assume st: "socket_step s = Some (Inr s')"
  have g: "distinct (tracked s)" "list_lock s = Some Socket \<longleftrightarrow> in_list (socket_pc s)"
    "\<forall>j. goes_to (socket_pc s) = Some j \<longrightarrow> j \<in> set (tracked s)"
    "\<forall>j. reply_for (socket_pc s) = Some j \<longrightarrow> Reply j \<in> set es"
    and c: "\<And>j. locks_ok s j" "\<And>j. tracking_ok s j" "\<And>j. outcome_ok es s j"
    using assms by (auto simp: shared_inv_def)
  show "shared_inv es s'"
    using leads_toD [OF socket_globals [OF g] st]
      leads_toD [OF socket_locks_ok [OF c(1) c(2) g(2)] st]
      leads_toD [OF socket_tracking_ok [OF c(2) g(1) c(1) g(2) g(3) [THEN spec]] st]
      leads_toD [OF socket_outcome_ok [OF c(3) c(2) g(1) g(3) [THEN spec] g(4) [THEN spec]] st]
    by (simp add: shared_inv_def)
qed

text \<open>The events of the outside: a disturbed call goes on at another place, or the socket thread
  enters one of its functions.\<close>

lemma disturb_inv:
  assumes "shared_inv es s" "disturbed es k"
    "call_pc (calls s k) = C_Send \<and> p = C_Unlock False \<or> call_pc (calls s k) = C_Sleep \<and> p = C_Woken"
  shows "shared_inv es (upd_call k (\<lambda>c. c\<lparr>call_pc := p\<rparr>) s)"
proof -
  have l: "locks_ok s j \<Longrightarrow> locks_ok (upd_call k (\<lambda>c. c\<lparr>call_pc := p\<rparr>) s) j" for j
    using assms(3) by (cases "j = k") (auto simp: locks_ok_def Let_def)
  have t: "tracking_ok s j \<Longrightarrow> tracking_ok (upd_call k (\<lambda>c. c\<lparr>call_pc := p\<rparr>) s) j" for j
    using assms(3) by (cases "j = k") (auto simp: tracking_ok_def Let_def)
  have "outcome_ok es s j \<Longrightarrow> outcome_ok es (upd_call k (\<lambda>c. c\<lparr>call_pc := p\<rparr>) s) j" for j
    using assms(2,3) by (cases "j = k") (simp_all add: outcome_ok_def Let_def)
  then show ?thesis using assms(1) l t by (simp add: shared_inv_def)
qed

lemma enter_inv:
  assumes "shared_inv es s" "socket_pc s = S_Idle" "q = S_Tick_Lock \<or> q = S_Reply_Lock k \<and> Reply k \<in> set es"
  shows "shared_inv es (s\<lparr>socket_pc := q\<rparr>)"
proof -
  have "locks_ok s j \<Longrightarrow> locks_ok (s\<lparr>socket_pc := q\<rparr>) j"
    "tracking_ok s j \<Longrightarrow> tracking_ok (s\<lparr>socket_pc := q\<rparr>) j"
    "outcome_ok es s j \<Longrightarrow> outcome_ok es (s\<lparr>socket_pc := q\<rparr>) j" for j
    using assms(2,3) by (auto simp: locks_ok_def tracking_ok_def outcome_ok_def Let_def)
  then show ?thesis using assms by (auto simp: shared_inv_def)
qed

lemma step_inv:
  assumes "shared_inv es s" shows "leads_to (step e s) (shared_inv (es @ [e]))"
  using shared_inv_mono [OF assms, of e]
  by (cases e) (auto intro: disturb_inv enter_inv caller_inv socket_inv simp: disturbed_def)

lemma run_inv:
  "shared_inv es s \<Longrightarrow> run es' s = Some (Inr s') \<Longrightarrow> shared_inv (es @ es') s'"
proof (induction es' arbitrary: es s)
  case (Cons e es')
  then obtain s1 where "step e s = Some (Inr s1)" "run es' s1 = Some (Inr s')"
    by (auto split: option.splits sum.splits if_splits)
  then show ?case using Cons.IH leads_toD [OF step_inv [OF Cons.prems(1)]] by fastforce
qed simp

lemma run_snoc: "run (es @ [e]) s = (case run es s of Some (Inr s') \<Rightarrow> step e s' | _ \<Rightarrow> None)"
  by (induction es arbitrary: s) (auto split: option.splits sum.splits)

lemma run_append: "run es s = Some (Inr s') \<Longrightarrow> run (es @ es') s = run es' s'"
  by (induction es arbitrary: s) (auto split: option.splits sum.splits if_splits)

section \<open>Faults\<close>

lemma may_be_tracked_not_returned: "may_be_tracked p \<Longrightarrow> \<not> returned_pc p"
  by (cases p) auto

lemma not_list_freed: "shared_inv es s \<Longrightarrow> \<not> list_freed s"
  using may_be_tracked_not_returned
  by (auto simp: shared_inv_def tracking_ok_def locks_ok_def Let_def list_freed_def)

lemma goes_to_alive:
  assumes "shared_inv es s" "goes_to (socket_pc s) = Some k" shows "\<not> node_freed (calls s k)"
  using assms not_list_freed [OF assms(1)] by (auto simp: shared_inv_def list_freed_def)

lemma serves_alive:
  assumes "shared_inv es s" "serves (socket_pc s) k" shows "\<not> node_freed (calls s k)"
proof -
  have "locks_ok s k" "tracking_ok s k" using assms(1) by (auto simp: shared_inv_def)
  then show ?thesis using assms(2) may_be_tracked_not_returned by (simp add: locks_ok_def tracking_ok_def Let_def)
qed

lemma caller_fault:
  assumes "shared_inv es s" "caller_step k ticks s = Some (Inl f)"
  shows "f = Destroyed_Lock \<and> (\<exists>ok. call_pc (calls s k) = C_Destroy ok) \<and> locks_node (socket_pc s) k \<and> disturbed es k"
proof -
  have "locks_ok s k" "outcome_ok es s k" using assms(1) by (auto simp: shared_inv_def)
  then show ?thesis using assms(2) not_list_freed [OF assms(1)]
    by (cases "call_pc (calls s k)")
       (auto simp: caller_step_def locks_ok_def outcome_ok_def Let_def split: if_splits)
qed

lemma socket_fault:
  assumes "shared_inv es s" "socket_step s = Some (Inl f)"
  shows "f = Destroyed_Lock \<and> (\<exists>k nxt. socket_pc s = S_Node_Lock k nxt \<and> destroyed_pc (call_pc (calls s k)) \<and> disturbed es k)"
proof (cases "\<exists>k nxt. socket_pc s = S_Node_Lock k nxt")
  case True
  then obtain k nxt where q: "socket_pc s = S_Node_Lock k nxt" by blast
  have "locks_ok s k" "outcome_ok es s k" "\<not> node_freed (calls s k)"
    using assms(1) serves_alive [OF assms(1)] q by (auto simp: shared_inv_def)
  then show ?thesis using assms(2) q destroyed_pc_cases [of "call_pc (calls s k)"]
    by (auto simp: socket_step_def locks_ok_def outcome_ok_def Let_def split: if_splits)
next
  case False
  then show ?thesis
    using assms(2) not_list_freed [OF assms(1)] goes_to_alive [OF assms(1)] serves_alive [OF assms(1)]
    by (cases "socket_pc s") (auto simp: socket_step_def Let_def split: if_splits option.splits)
qed

lemma step_fault:
  assumes "shared_inv es s" "step e s = Some (Inl f)"
  shows "f = Destroyed_Lock \<and> (\<exists>k. disturbed es k)"
  using assms caller_fault socket_fault by (cases e) (auto split: if_splits, blast+)

text \<open>A fault needs a disturbed call.\<close>

lemma fault_disturbed:
  assumes "run es start_state = Some (Inl f)"
  shows "f = Destroyed_Lock \<and> (\<exists>k. Send_Fails k \<in> set es \<or> Spurious k \<in> set es)"
proof -
  obtain es' e where es: "es = es' @ [e]" using assms by (cases es rule: rev_cases) auto
  then obtain s where s: "run es' start_state = Some (Inr s)" "step e s = Some (Inl f)"
    using assms by (auto simp: run_snoc split: option.splits sum.splits)
  have "shared_inv es' s" using run_inv [OF start_inv s(1)] by simp
  then show ?thesis using step_fault [OF _ s(2)] es by (auto simp: disturbed_def)
qed

section \<open>The two ways to the fault\<close>

text \<open>A call that has appended its node with \<open>t\<close> ticks sees them counted down while it is still
  sending; the socket thread unlinks the node and waits for its lock, the send fails, and the
  call releases and destroys the lock under it.\<close>

definition idle_round :: "event list" where
  "idle_round = [Idle, Thread, Thread, Thread, Thread]"

definition late_failure :: "int \<Rightarrow> nat \<Rightarrow> event list" where
  "late_failure k t =
     [Call k (int t), Call k (int t)] @ concat (replicate (t - 1) idle_round) @
     [Idle, Thread, Thread, Thread, Send_Fails k, Call k 0, Call k 0, Thread]"

text \<open>A wait ends without a signal between the arrival of the reply and the signal for it.\<close>

definition early_wakeup :: "int \<Rightarrow> int \<Rightarrow> event list" where
  "early_wakeup k t =
     [Call k t, Call k t, Call k t, Call k t, Reply k, Thread, Thread,
      Spurious k, Call k t, Call k t, Call k t, Thread]"

definition sending :: "int \<Rightarrow> int \<Rightarrow> shared" where
  "sending k t = upd_call k (\<lambda>c. c\<lparr>node_lock := Locked (Caller k), node_ticker := t, node_rc := RETURN_ERR, call_pc := C_Send\<rparr>)
     (start_state\<lparr>tracked := [k]\<rparr>)"

lemmas run_defs = caller_step_def socket_step_def serve_def list_freed_def

lemma run_sending: "run [Call k t, Call k t] start_state = Some (Inr (sending k t))"
  by (simp add: run_defs start_state_def upd_call_def sending_def)

lemma run_idle_round: "1 < t \<Longrightarrow> run idle_round (sending k t) = Some (Inr (sending k (t - 1)))"
  by (simp add: idle_round_def run_defs start_state_def upd_call_def sending_def)

lemma run_idle_rounds:
  "int n < t \<Longrightarrow> run (concat (replicate n idle_round)) (sending k t) = Some (Inr (sending k (t - int n)))"
proof (induction n arbitrary: t)
  case (Suc n)
  then show ?case using run_append [OF run_idle_round [of t k], of "concat (replicate n idle_round)"]
    by (simp add: algebra_simps)
qed simp

lemma disturbed_faults:
  assumes "0 < t"
  shows "run (late_failure k t) start_state = Some (Inl Destroyed_Lock) \<and>
    run (early_wakeup k (int t)) start_state = Some (Inl Destroyed_Lock)"
proof
  have "run [Idle, Thread, Thread, Thread, Send_Fails k, Call k 0, Call k 0, Thread] (sending k 1) = Some (Inl Destroyed_Lock)"
    by (simp add: run_defs start_state_def sending_def)
  moreover have "int t - int (t - 1) = 1" using assms by linarith
  ultimately show "run (late_failure k t) start_state = Some (Inl Destroyed_Lock)"
    using run_append [OF run_sending [of k "int t"]] run_append [OF run_idle_rounds [of "t - 1" "int t" k]] assms
    by (simp add: late_failure_def)
  show "run (early_wakeup k (int t)) start_state = Some (Inl Destroyed_Lock)"
    by (simp add: early_wakeup_def run_defs start_state_def)
qed

text \<open>C7: Apart from the unlocked append, only disturbed calls fault. Let \<^verbatim>\<open>LL_APPEND\<close> be one
  indivisible step (its own races, which lose nodes and read freed memory or NULL, are the subject of \<open>Append_Race\<close>), let
  different calls have different ids and let the library not be terminated meanwhile. Then, however the calls and
  the socket thread are interleaved between their lock operations, no freed node is used; the
  only fault there can be is the use of a lock that was destroyed or the destruction of a lock that is
  held, and it takes a call whose send failed or whose wait ended without a signal. Both lead to it: for every
  call and every timeout there is an interleaving in which the send fails after the socket thread
  has found the request expired, and one in which the wait ends without a signal after the reply
  has been found, and in both the socket thread takes the lock of the node after the call has destroyed it.\<close>

theorem locks_fault_only_when_disturbed:
  "(run es start_state = Some (Inl f) \<longrightarrow>
      f = Destroyed_Lock \<and> (\<exists>k. Send_Fails k \<in> set es \<or> Spurious k \<in> set es)) \<and>
   (0 < t \<longrightarrow> run (late_failure k t) start_state = Some (Inl Destroyed_Lock) \<and>
      run (early_wakeup k (int t)) start_state = Some (Inl Destroyed_Lock))"
  using fault_disturbed disturbed_faults by blast

theorem locks_fault_only_when_disturbed_witness:
  "run (late_failure 16 2) start_state = Some (Inl Destroyed_Lock) \<and>
   (\<exists>k. Send_Fails k \<in> set (early_wakeup 16 3) \<or> Spurious k \<in> set (early_wakeup 16 3))"
proof -
  have "run (early_wakeup 16 3) start_state = Some (Inl Destroyed_Lock)"
    by (simp add: early_wakeup_def run_defs start_state_def)
  then show ?thesis
    using locks_fault_only_when_disturbed [of "early_wakeup 16 3" Destroyed_Lock 2 16] by simp
qed

end
