(* ===== verification/Client_Progress.thy ===== *)
theory Client_Progress
  imports Client_Locks
begin

text \<open>
  That the calls of \<open>Client_Locks\<close> come to an end: from every state that the calls and the
  socket thread reach without a failed send or a wait that ends without a signal, each call can
  be completed, by steps of the threads and calls of the idle function alone.
\<close>

section \<open>What is left to do\<close>

text \<open>How many statements a call has before it, and how far the socket thread is from
  being idle: the elements its loop still has to visit, the statements of a turn, and the
  statements of the call that holds the lock it waits for.\<close>

fun call_rank :: "call_pc \<Rightarrow> nat" where
  "call_rank C_Lock = 12" | "call_rank C_Append = 11" | "call_rank C_Send = 10" | "call_rank C_Wait = 9"
| "call_rank C_Sleep = 8" | "call_rank C_Woken = 7" | "call_rank (C_Unlock ok) = 6"
| "call_rank (C_Destroy ok) = 5" | "call_rank (C_List_Lock ok) = 4" | "call_rank (C_Delete ok) = 3"
| "call_rank (C_List_Unlock ok) = 2" | "call_rank (C_Result ok) = 1" | "call_rank (C_Returned r) = 0"

fun socket_rank :: "socket_pc \<Rightarrow> nat" where
  "socket_rank S_Idle = 0" | "socket_rank (S_Tick el) = 1" | "socket_rank (S_Log k tmp) = 2"
| "socket_rank (S_Node_Unlock k nxt) = 3" | "socket_rank (S_Signal k nxt) = 4"
| "socket_rank (S_Node_Lock k nxt) = 5" | "socket_rank (S_Reply_Search k) = 6"
| "socket_rank (S_Reply_Lock k) = 7" | "socket_rank S_Tick_Start = 2" | "socket_rank S_Tick_Lock = 3"

definition suffix_from :: "int option \<Rightarrow> int list \<Rightarrow> int list" where
  "suffix_from el xs = (case el of None \<Rightarrow> [] | Some k \<Rightarrow> dropWhile (\<lambda>x. x \<noteq> k) xs)"

definition to_visit :: "shared \<Rightarrow> int list" where
  "to_visit s =
     (if socket_pc s = S_Tick_Lock \<or> socket_pc s = S_Tick_Start then tracked s
      else suffix_from (goes_to (socket_pc s)) (tracked s))"

definition visits_left :: "shared \<Rightarrow> nat" where
  "visits_left s =
     (if socket_pc s = S_Tick_Lock \<or> socket_pc s = S_Tick_Start then Suc (length (tracked s))
      else length (to_visit s))"

definition blocker_rank :: "shared \<Rightarrow> nat" where
  "blocker_rank s =
     (case socket_pc s of
        S_Node_Lock k nxt \<Rightarrow> call_rank (call_pc (calls s k))
      | _ \<Rightarrow> (case list_lock s of Some (Caller k) \<Rightarrow> call_rank (call_pc (calls s k)) | _ \<Rightarrow> 0))"

lemma dropWhile_at: "k \<notin> set as \<Longrightarrow> dropWhile (\<lambda>x. x \<noteq> k) (as @ k # bs) = k # bs"
  by (induction as) auto

lemma next_in_at: "k \<notin> set as \<Longrightarrow> next_in (as @ k # bs) k = (case bs of [] \<Rightarrow> None | b # _ \<Rightarrow> Some b)"
  by (induction as) auto

lemma suffix_next:
  assumes "distinct xs" "k \<in> set xs"
  shows "suffix_from (Some k) xs = k # suffix_from (next_in xs k) xs"
    and "suffix_from (next_in xs k) (remove1 k xs) = suffix_from (next_in xs k) xs"
proof -
  obtain as bs where xs: "xs = as @ k # bs" "k \<notin> set as" using split_list_first [OF assms(2)] by blast
  have "suffix_from (next_in xs k) xs = bs \<and> suffix_from (next_in xs k) (remove1 k xs) = bs"
  proof (cases bs)
    case (Cons b bs')
    then have "b \<notin> set (as @ [k])" using assms(1) xs by auto
    then show ?thesis using xs Cons dropWhile_at [of b "as @ [k]" bs'] dropWhile_at [of b as bs']
      by (simp add: suffix_from_def next_in_at remove1_append)
  qed (use xs in \<open>simp add: suffix_from_def next_in_at\<close>)
  then show "suffix_from (Some k) xs = k # suffix_from (next_in xs k) xs"
    and "suffix_from (next_in xs k) (remove1 k xs) = suffix_from (next_in xs k) xs"
    using xs by (simp_all add: suffix_from_def dropWhile_at)
qed

text \<open>Statements only go forward: no step gives a call more to do, and once a call has appended
  its node, the node is not linked again and its ticks do not grow.\<close>

definition forward :: "int \<Rightarrow> shared \<Rightarrow> shared \<Rightarrow> bool" where
  "forward k s s' \<longleftrightarrow>
     call_rank (call_pc (calls s' k)) \<le> call_rank (call_pc (calls s k)) \<and>
     (appended (call_pc (calls s k)) \<longrightarrow> appended (call_pc (calls s' k)) \<and>
        node_ticker (calls s' k) \<le> node_ticker (calls s k) \<and>
        (k \<in> set (tracked s') \<longrightarrow> k \<in> set (tracked s)))"

lemma forward_refl: "forward k s s"
  by (simp add: forward_def)

lemma forward_trans: "forward k s s' \<Longrightarrow> forward k s' s'' \<Longrightarrow> forward k s s''"
  by (auto simp: forward_def)

lemma caller_forward: "leads_to (caller_step j ticks s) (forward k s)"
  by (cases "call_pc (calls s j)")
     (auto simp: forward_def caller_step_def Let_def dest: set_remove1_subset [THEN subsetD])

lemma socket_forward: "leads_to (socket_step s) (forward k s)"
  by (cases "socket_pc s")
     (auto simp: forward_def socket_step_def serve_def Let_def split: option.splits dest: set_remove1_subset [THEN subsetD])

lemma step_forward: "leads_to (step e s) (forward k s)"
  by (cases e) (auto simp: caller_forward socket_forward, auto simp: forward_def)

section \<open>The socket thread comes to rest\<close>

fun quiet :: "event \<Rightarrow> bool" where
  "quiet (Send_Fails k) = False" | "quiet (Spurious k) = False" | "quiet _ = True"

lemma quiet_undisturbed: "list_all quiet es \<Longrightarrow> \<not> disturbed es k"
  by (auto simp: disturbed_def list_all_iff)

lemma caller_enabled:
  assumes "locks_ok s k" "\<not> returned_pc (call_pc (calls s k))" "call_pc (calls s k) \<noteq> C_Sleep"
    "socket_pc s = S_Idle \<and> list_lock s = None \<or> owns_node (call_pc (calls s k)) \<or> owns_list (call_pc (calls s k))"
  shows "caller_step k ticks s \<noteq> None"
  using assms by (cases "call_pc (calls s k)") (auto simp: caller_step_def locks_ok_def Let_def)

lemma caller_progress:
  assumes "shared_inv es s" "\<not> disturbed es k" "caller_step k ticks s \<noteq> None"
  obtains s' where "caller_step k ticks s = Some (Inr s')"
    "call_rank (call_pc (calls s' k)) < call_rank (call_pc (calls s k))"
proof -
  obtain s' where st: "caller_step k ticks s = Some (Inr s')"
    using assms caller_fault [OF assms(1)] by (metis not_None_eq sum.exhaust_sel sum.collapse)
  then have "call_rank (call_pc (calls s' k)) < call_rank (call_pc (calls s k))"
    by (cases "call_pc (calls s k)") (auto simp: caller_step_def Let_def split: mutex.splits if_splits)
  then show ?thesis using that st by blast
qed

definition rest_measure :: "(shared \<times> shared) set" where
  "rest_measure = measures [visits_left, \<lambda>s. socket_rank (socket_pc s), blocker_rank]"

lemmas rest_defs = rest_measure_def in_measures visits_left_def to_visit_def

text \<open>The idle calls after which the node \<open>k\<close> has certainly been served; the node is still before
  the loop, or its turn has come.\<close>

definition turns_left :: "int \<Rightarrow> shared \<Rightarrow> nat" where
  "turns_left k s = (if k \<in> set (tracked s) then Suc (nat (node_ticker (calls s k))) else 0)"

definition counted :: "int \<Rightarrow> shared \<Rightarrow> shared \<Rightarrow> bool" where
  "counted k s s' \<longleftrightarrow> k \<in> set (to_visit s') \<or> k \<notin> set (tracked s') \<or> turns_left k s' < turns_left k s"

lemma socket_progress:
  assumes "distinct (tracked s)" "\<forall>j. goes_to (socket_pc s) = Some j \<longrightarrow> j \<in> set (tracked s)"
  shows "leads_to (socket_step s) (\<lambda>s'. (s', s) \<in> rest_measure \<and> (k \<in> set (to_visit s) \<longrightarrow> counted k s s'))"
proof (cases "socket_pc s")
  case (S_Tick el)
  show ?thesis
  proof (cases el)
    case (Some j)
    then have "j \<in> set (tracked s)" using assms(2) S_Tick by simp
    then show ?thesis using S_Tick Some suffix_next [OF assms(1), of j]
        assms(1) by (auto simp: socket_step_def serve_def rest_defs counted_def turns_left_def Let_def)
  qed (use S_Tick in \<open>simp add: socket_step_def rest_defs suffix_from_def\<close>)
next
  case S_Tick_Start
  then show ?thesis by (auto simp: socket_step_def rest_defs counted_def suffix_from_def split: list.splits)
next
  case (S_Reply_Search j)
  then show ?thesis by (auto simp: socket_step_def serve_def rest_defs counted_def suffix_from_def)
qed (auto simp: socket_step_def rest_defs counted_def split: after.splits)

lemma blocked_by:
  assumes "shared_inv es s" "list_all quiet es" "socket_step s = None" "socket_pc s \<noteq> S_Idle \<or> list_lock s \<noteq> None"
  obtains j nxt where "socket_pc s = S_Node_Lock j nxt" "owns_node (call_pc (calls s j))" "must_be_woken (call_pc (calls s j))"
    | j where "\<not> in_list (socket_pc s)" "list_lock s = Some (Caller j)" "owns_list (call_pc (calls s j))"
proof (cases "\<exists>j nxt. socket_pc s = S_Node_Lock j nxt")
  case True
  then obtain j nxt where q: "socket_pc s = S_Node_Lock j nxt" by blast
  have c: "locks_ok s j" "tracking_ok s j" "outcome_ok es s j" using assms(1) by (auto simp: shared_inv_def)
  have "owns_node (call_pc (calls s j))"
    using assms(3) q c(1) by (auto simp: socket_step_def locks_ok_def Let_def split: if_splits)
  moreover from this have "must_be_woken (call_pc (calls s j))"
    using q c(2,3) quiet_undisturbed [OF assms(2), of j]
    by (cases "call_pc (calls s j)") (auto simp: tracking_ok_def outcome_ok_def Let_def)
  ultimately show ?thesis using that(1) q by blast
next
  case False
  then have "\<not> in_list (socket_pc s) \<and> list_lock s \<noteq> None"
    using assms(3,4) by (cases "socket_pc s") (auto simp: socket_step_def Let_def split: if_splits option.splits)
  moreover obtain j where "list_lock s = Some (Caller j)"
    using calculation assms(1) by (metis option.exhaust shared_inv_def thread.exhaust)
  ultimately show ?thesis using that(2) [of j] assms(1) by (auto simp: shared_inv_def locks_ok_def Let_def)
qed

lemma rest_step:
  assumes "shared_inv es s" "list_all quiet es" "socket_pc s \<noteq> S_Idle \<or> list_lock s \<noteq> None"
  obtains e s' where "quiet e" "step e s = Some (Inr s')" "(s', s) \<in> rest_measure"
    "k \<in> set (to_visit s) \<longrightarrow> counted k s s'"
proof (cases "socket_step s")
  case (Some r)
  then obtain s' where "socket_step s = Some (Inr s')"
    using socket_fault [OF assms(1)] quiet_undisturbed [OF assms(2)] by (cases r) auto
  then show ?thesis using that [of Thread s'] socket_progress [of s k] assms(1)
    by (simp add: shared_inv_def leads_to_def)
next
  case None
  show ?thesis
  proof (cases rule: blocked_by [OF assms(1,2) None assms(3)])
    case (1 j nxt)
    then have "caller_step j 0 s \<noteq> None" using caller_enabled assms(1)
      by (cases "call_pc (calls s j)") (auto simp: caller_step_def)
    then obtain s' where s': "caller_step j 0 s = Some (Inr s')"
      "call_rank (call_pc (calls s' j)) < call_rank (call_pc (calls s j))"
      using caller_progress [OF assms(1) quiet_undisturbed [OF assms(2)]] by metis
    moreover have "tracked s' = tracked s" "socket_pc s' = socket_pc s"
      using s'(1) 1(2,3) by (cases "call_pc (calls s j)"; auto simp: caller_step_def Let_def)+
    ultimately show ?thesis using that [of "Call j 0" s'] 1(1)
      by (simp add: rest_defs blocker_rank_def counted_def)
  next
    case (2 j)
    then have "caller_step j 0 s \<noteq> None"
      by (cases "call_pc (calls s j)") (auto simp: caller_step_def)
    then obtain s' where s': "caller_step j 0 s = Some (Inr s')"
      "call_rank (call_pc (calls s' j)) < call_rank (call_pc (calls s j))"
      using caller_progress [OF assms(1) quiet_undisturbed [OF assms(2)]] by metis
    moreover have "socket_pc s' = socket_pc s"
      "tracked s' = tracked s \<and> list_lock s' \<in> {list_lock s, None} \<or> tracked s' = remove1 j (tracked s) \<and> list_lock s' = list_lock s"
      using s'(1) 2(3) by (cases "call_pc (calls s j)"; auto simp: caller_step_def Let_def split: if_splits)+
    moreover have "length (remove1 j (tracked s)) < length (tracked s) \<or> length (remove1 j (tracked s)) = length (tracked s)"
      by (auto simp: length_remove1 dest: length_pos_if_in_set)
    ultimately show ?thesis using that [of "Call j 0" s'] 2(1,2)
      by (cases "socket_pc s")
         (auto simp: rest_defs blocker_rank_def counted_def suffix_from_def)
  qed
qed

lemma turns_left_forward:
  "forward k s s' \<Longrightarrow> appended (call_pc (calls s k)) \<Longrightarrow> turns_left k s' \<le> turns_left k s"
  by (auto simp: forward_def turns_left_def)

lemma to_visit_tracked: "k \<in> set (to_visit s) \<Longrightarrow> k \<in> set (tracked s)"
  by (auto simp: to_visit_def suffix_from_def split: if_splits option.splits dest: set_dropWhileD)

lemma comes_to_rest:
  assumes "shared_inv es s" "list_all quiet es"
  shows "\<exists>es' s'. list_all quiet es' \<and> run es' s = Some (Inr s') \<and> socket_pc s' = S_Idle \<and>
    list_lock s' = None \<and> forward k s s' \<and>
    (k \<in> set (to_visit s) \<and> appended (call_pc (calls s k)) \<longrightarrow> turns_left k s' < turns_left k s)"
  using wf_measures [of "[visits_left, \<lambda>s. socket_rank (socket_pc s), blocker_rank]"] assms
  unfolding rest_measure_def [symmetric]
proof (induction s arbitrary: es rule: wf_induct_rule)
  case (less s)
  show ?case
  proof (cases "socket_pc s = S_Idle \<and> list_lock s = None")
    case True
    then show ?thesis
      by (intro exI [of _ "[]"] exI [of _ s]) (simp add: forward_refl to_visit_def suffix_from_def)
  next
    case False
    then obtain e s1 where e: "quiet e" "step e s = Some (Inr s1)" "(s1, s) \<in> rest_measure"
      "k \<in> set (to_visit s) \<longrightarrow> counted k s s1"
      using rest_step [OF less.prems] by metis
    have fw: "forward k s s1" using leads_toD [OF step_forward e(2)] .
    obtain es' s' where IH: "list_all quiet es'" "run es' s1 = Some (Inr s')" "socket_pc s' = S_Idle"
      "list_lock s' = None" "forward k s1 s'"
      "k \<in> set (to_visit s1) \<and> appended (call_pc (calls s1 k)) \<longrightarrow> turns_left k s' < turns_left k s1"
      using less.IH [OF e(3) leads_toD [OF step_inv [OF less.prems(1)] e(2)]] less.prems(2) e(1) by auto
    have "turns_left k s' < turns_left k s" if k: "k \<in> set (to_visit s)" "appended (call_pc (calls s k))"
    proof -
      have a: "appended (call_pc (calls s1 k))" using fw k(2) by (simp add: forward_def)
      have le: "turns_left k s1 \<le> turns_left k s" "turns_left k s' \<le> turns_left k s1"
        using turns_left_forward fw IH(5) k(2) a by blast+
      show ?thesis
        using e(4) k(1) IH(6) a le to_visit_tracked [OF k(1)]
        by (auto simp: counted_def turns_left_def split: if_splits)
    qed
    then show ?thesis using IH e(1,2) forward_trans [OF fw IH(5)]
      by (intro exI [of _ "e # es'"] exI [of _ s']) simp
  qed
qed

section \<open>Every call can be completed\<close>

text \<open>A call that waits gets nearer to its end: a lock becomes free, or the idle function counts
  its ticks.\<close>

lemma waiting_call_advances:
  assumes "shared_inv es s" "list_all quiet es" "caller_step k 0 s = None" "\<not> returned_pc (call_pc (calls s k))"
  shows "\<exists>es' s'. list_all quiet es' \<and> run es' s = Some (Inr s') \<and>
    (call_rank (call_pc (calls s' k)) < call_rank (call_pc (calls s k)) \<or>
     call_rank (call_pc (calls s' k)) = call_rank (call_pc (calls s k)) \<and> turns_left k s' < turns_left k s)"
proof -
  obtain es1 s1 where r1: "list_all quiet es1" "run es1 s = Some (Inr s1)" "socket_pc s1 = S_Idle"
    "list_lock s1 = None" "forward k s s1"
    using comes_to_rest [OF assms(1,2), of k] by blast
  have inv1: "shared_inv (es @ es1) s1" and q1: "list_all quiet (es @ es1)"
    using run_inv [OF assms(1) r1(2)] assms(2) r1(1) by auto
  show ?thesis
  proof (cases "call_rank (call_pc (calls s1 k)) < call_rank (call_pc (calls s k))")
    case True
    then show ?thesis using r1(1,2) by blast
  next
    case False
    then have eq: "call_rank (call_pc (calls s1 k)) = call_rank (call_pc (calls s k))"
      using r1(5) by (simp add: forward_def)
    show ?thesis
    proof (cases "caller_step k 0 s1")
      case (Some r)
      then obtain s2 where "caller_step k 0 s1 = Some (Inr s2)"
        "call_rank (call_pc (calls s2 k)) < call_rank (call_pc (calls s1 k))"
        using caller_progress [OF inv1 quiet_undisturbed [OF q1], of k 0] by force
      then show ?thesis using eq r1(1) run_append [OF r1(2), of "[Call k 0]"]
        by (intro exI [of _ "es1 @ [Call k 0]"] exI [of _ s2]) simp
    next
      case None
      have l: "locks_ok s1 k" and t: "tracking_ok s1 k" using inv1 by (auto simp: shared_inv_def)
      have "\<not> returned_pc (call_pc (calls s1 k))"
        using eq assms(4) by (cases "call_pc (calls s1 k)"; cases "call_pc (calls s k)") auto
      then have sleep: "call_pc (calls s1 k) = C_Sleep" using caller_enabled [OF l, of 0] None r1(3,4) by blast
      have app: "appended (call_pc (calls s k))" using eq sleep by (cases "call_pc (calls s k)") auto
      define s2 where "s2 = s1\<lparr>socket_pc := S_Tick_Lock\<rparr>"
      have st: "step Idle s1 = Some (Inr s2)" using r1(3) by (simp add: s2_def)
      have "k \<in> set (to_visit s2) \<and> appended (call_pc (calls s2 k))"
        using t sleep r1(3) by (simp add: tracking_ok_def to_visit_def s2_def Let_def)
      moreover have "shared_inv (es @ es1 @ [Idle]) s2" "list_all quiet (es @ es1 @ [Idle])"
        using leads_toD [OF step_inv [OF inv1] st] q1 by auto
      ultimately obtain es3 s3 where r3: "list_all quiet es3" "run es3 s2 = Some (Inr s3)"
        "forward k s2 s3" "turns_left k s3 < turns_left k s2"
        using comes_to_rest [of "es @ es1 @ [Idle]" s2 k] by blast
      have "turns_left k s2 = turns_left k s1" by (simp add: turns_left_def s2_def)
      then have "turns_left k s3 < turns_left k s"
        using r3(4) turns_left_forward [OF r1(5) app] by linarith
      moreover have "call_rank (call_pc (calls s3 k)) \<le> call_rank (call_pc (calls s k))"
        using r3(3) eq by (simp add: forward_def s2_def)
      ultimately show ?thesis using r1(1) r3(1,2) run_append [OF r1(2), of "Idle # es3"] st
        by (intro exI [of _ "es1 @ Idle # es3"] exI [of _ s3]) auto
    qed
  qed
qed

lemma call_can_return:
  assumes "shared_inv es s" "list_all quiet es"
  shows "\<exists>es' s' r. list_all quiet es' \<and> run es' s = Some (Inr s') \<and> call_pc (calls s' k) = C_Returned r"
  using wf_measures [of "[\<lambda>s. call_rank (call_pc (calls s k)), turns_left k]"] assms
proof (induction s arbitrary: es rule: wf_induct_rule)
  case (less s)
  have goes_on: ?case if h: "list_all quiet es1" "run es1 s = Some (Inr s1)"
    "call_rank (call_pc (calls s1 k)) < call_rank (call_pc (calls s k)) \<or>
     call_rank (call_pc (calls s1 k)) = call_rank (call_pc (calls s k)) \<and> turns_left k s1 < turns_left k s" for es1 s1
  proof -
    have "shared_inv (es @ es1) s1" "list_all quiet (es @ es1)"
      using run_inv [OF less.prems(1) h(2)] less.prems(2) h(1) by auto
    moreover have "(s1, s) \<in> measures [\<lambda>s. call_rank (call_pc (calls s k)), turns_left k]"
      using h(3) by auto
    ultimately obtain es' s' r where "list_all quiet es'" "run es' s1 = Some (Inr s')" "call_pc (calls s' k) = C_Returned r"
      using less.IH by blast
    then show ?thesis using h run_append [OF h(2), of es']
      by (intro exI [of _ "es1 @ es'"] exI [of _ s'] exI [of _ r]) simp
  qed
  have undist: "\<not> disturbed es k" using quiet_undisturbed less.prems(2) by blast
  consider "caller_step k 0 s \<noteq> None" | "returned_pc (call_pc (calls s k))"
    | "caller_step k 0 s = None" "\<not> returned_pc (call_pc (calls s k))" by blast
  then show ?case
  proof cases
    case 1
    then show ?thesis using caller_progress [OF less.prems(1) undist 1] goes_on [of "[Call k 0]"] by fastforce
  next
    case 2
    then obtain r where "call_pc (calls s k) = C_Returned r" by (cases "call_pc (calls s k)") auto
    then show ?thesis by (intro exI [of _ "[]"] exI [of _ s] exI [of _ r]) simp
  next
    case 3
    then show ?thesis using goes_on waiting_call_advances [OF less.prems] by metis
  qed
qed

text \<open>C6: As long as no send fails and no wait ends without a signal, no call is ever lost and
  no deadlock arises: from every state that is reached, each call can be brought to its end by
  statements of the threads, replies and calls of the idle function; it then returns success
  because a reply with its number arrived, or an error because its ticks are used up.\<close>

theorem every_call_can_return:
  assumes "run es start_state = Some (Inr s)" "list_all quiet es"
  shows "\<exists>es' s' r. list_all quiet es' \<and> run es' s = Some (Inr s') \<and> call_pc (calls s' k) = C_Returned r \<and>
    (r = RETURN_OK \<and> Reply k \<in> set (es @ es') \<or> r = RETURN_ERR \<and> node_ticker (calls s' k) \<le> 0)"
proof -
  have inv: "shared_inv es s" using run_inv [OF start_inv assms(1)] by simp
  obtain es' s' r where r: "list_all quiet es'" "run es' s = Some (Inr s')" "call_pc (calls s' k) = C_Returned r"
    using call_can_return [OF inv assms(2)] by blast
  have "outcome_ok (es @ es') s' k" "\<not> disturbed (es @ es') k"
    using run_inv [OF inv r(2)] quiet_undisturbed [of "es @ es'"] assms(2) r(1) by (auto simp: shared_inv_def)
  then show ?thesis using r by (intro exI [of _ es'] exI [of _ s'] exI [of _ r]) (auto simp: outcome_ok_def Let_def)
qed

theorem every_call_can_return_witness:
  "\<exists>es' s' r. list_all quiet es' \<and> run es' (sending 16 3) = Some (Inr s') \<and> call_pc (calls s' 16) = C_Returned r \<and>
    (r = RETURN_OK \<and> Reply 16 \<in> set ([Call 16 3, Call 16 3] @ es') \<or> r = RETURN_ERR \<and> node_ticker (calls s' 16) \<le> 0)"
  by (rule every_call_can_return [OF run_sending]) simp

end
