(* ===== verification/Utlist.thy ===== *)
theory Utlist
  imports Prelude
begin

text \<open>
  The singly linked lists of \<^verbatim>\<open>json-rpc-common/utlist.h\<close> on an explicit heap. Every
  list of the program (registered actions, event subscriptions, tracked requests, tracked
  events, client connections) is built with these macros.

  A heap maps an address to the payload of the node stored there and its \<^verbatim>\<open>next\<close>
  pointer; an address outside its domain is not allocated. A pointer is an optional address,
  \<open>None\<close> being NULL. A macro is a function from heap and head to heap and head; its result is
  \<open>None\<close> when the execution reads or writes memory that is not allocated, or does not end.
  The loops are \<^theory_text>\<open>partial_function\<close>s, since on a cyclic structure they do not end.
\<close>

type_synonym 'a heap = "nat \<rightharpoonup> 'a \<times> nat option"

section \<open>The macros\<close>

text \<open>\<^verbatim>\<open>p->next\<close> and \<^verbatim>\<open>p->next = q\<close>.\<close>

definition ll_next :: "'a heap \<Rightarrow> nat \<Rightarrow> nat option option" where
  "ll_next h p = map_option snd (h p)"

definition ll_set_next :: "'a heap \<Rightarrow> nat \<Rightarrow> nat option \<Rightarrow> 'a heap option" where
  "ll_set_next h p q = map_option (\<lambda>n. h(p \<mapsto> (fst n, q))) (h p)"

text \<open>\<^verbatim>\<open>while (_tmp->next) { _tmp = _tmp->next; }\<close>\<close>

partial_function (option) ll_tail :: "'a heap \<Rightarrow> nat \<Rightarrow> nat option" where
  "ll_tail h p =
     Option.bind (ll_next h p) (\<lambda>q. case q of None \<Rightarrow> Some p | Some r \<Rightarrow> ll_tail h r)"

definition LL_PREPEND2 :: "'a heap \<Rightarrow> nat option \<Rightarrow> nat \<Rightarrow> ('a heap \<times> nat option) option" where
  "LL_PREPEND2 h head add = map_option (\<lambda>h'. (h', Some add)) (ll_set_next h add head)"

definition LL_CONCAT2 :: "'a heap \<Rightarrow> nat option \<Rightarrow> nat option \<Rightarrow> ('a heap \<times> nat option) option" where
  "LL_CONCAT2 h head1 head2 =
     (case head1 of
        Some p \<Rightarrow> Option.bind (ll_tail h p) (\<lambda>t.
          map_option (\<lambda>h'. (h', head1)) (ll_set_next h t head2))
      | None \<Rightarrow> Some (h, head2))"

definition LL_APPEND2 :: "'a heap \<Rightarrow> nat option \<Rightarrow> nat \<Rightarrow> ('a heap \<times> nat option) option" where
  "LL_APPEND2 h head add =
     Option.bind (ll_set_next h add None) (\<lambda>h1.
       case head of
         Some p \<Rightarrow> Option.bind (ll_tail h1 p) (\<lambda>t.
           map_option (\<lambda>h2. (h2, head)) (ll_set_next h1 t (Some add)))
       | None \<Rightarrow> Some (h1, Some add))"

text \<open>\<^verbatim>\<open>while (_tmp->next && (_tmp->next != (del))) { _tmp = _tmp->next; }\<close>\<close>

partial_function (option) ll_pred :: "'a heap \<Rightarrow> nat \<Rightarrow> nat \<Rightarrow> nat option" where
  "ll_pred h p del =
     Option.bind (ll_next h p) (\<lambda>q.
       case q of None \<Rightarrow> Some p | Some r \<Rightarrow> if r = del then Some p else ll_pred h r del)"

definition LL_DELETE2 :: "'a heap \<Rightarrow> nat option \<Rightarrow> nat \<Rightarrow> ('a heap \<times> nat option) option" where
  "LL_DELETE2 h head del =
     (if head = Some del
      then map_option (\<lambda>q. (h, q)) (ll_next h del)
      else Option.bind head (\<lambda>p.
        Option.bind (ll_pred h p del) (\<lambda>t.
        Option.bind (ll_next h t) (\<lambda>q.
          if q \<noteq> None
          then Option.bind (ll_next h del) (\<lambda>d.
                 map_option (\<lambda>h'. (h', head)) (ll_set_next h t d))
          else Some (h, head)))))"

text \<open>\<^verbatim>\<open>LL_FOREACH (head, el)\<close> with a body that leaves the loop at the first element
  satisfying a condition, as the lookups of the program do; and \<^verbatim>\<open>LL_COUNT\<close>.\<close>

partial_function (option) ll_find :: "'a heap \<Rightarrow> ('a \<Rightarrow> bool) \<Rightarrow> nat option \<Rightarrow> nat option option" where
  "ll_find h P el =
     (case el of
        None \<Rightarrow> Some None
      | Some p \<Rightarrow> Option.bind (h p) (\<lambda>n. if P (fst n) then Some (Some p) else ll_find h P (snd n)))"

partial_function (option) ll_count :: "'a heap \<Rightarrow> nat option \<Rightarrow> nat \<Rightarrow> nat option" where
  "ll_count h el counter =
     (case el of None \<Rightarrow> Some counter | Some p \<Rightarrow> Option.bind (ll_next h p) (\<lambda>q. ll_count h q (Suc counter)))"

definition LL_COUNT2 :: "'a heap \<Rightarrow> nat option \<Rightarrow> nat option" where
  "LL_COUNT2 h head = ll_count h head 0"

text \<open>\<^verbatim>\<open>LL_FOREACH_SAFE (head, el, tmp) { if (cond) { LL_DELETE (head, el); free (el); } }\<close>,
  the removal loop of the program: \<^verbatim>\<open>tmp\<close> is read before the body runs.\<close>

partial_function (option) ll_remove_loop ::
  "('a \<Rightarrow> bool) \<Rightarrow> 'a heap \<Rightarrow> nat option \<Rightarrow> nat option \<Rightarrow> ('a heap \<times> nat option) option" where
  "ll_remove_loop P h head el =
     (case el of
        None \<Rightarrow> Some (h, head)
      | Some p \<Rightarrow> Option.bind (h p) (\<lambda>n.
          let tmp = snd n in
          if P (fst n)
          then Option.bind (LL_DELETE2 h head p) (\<lambda>r. ll_remove_loop P ((fst r)(p := None)) (snd r) tmp)
          else ll_remove_loop P h head tmp))"

section \<open>Lists in the heap\<close>

text \<open>\<open>ll_seg h p xs q\<close>: from \<open>p\<close> the \<^verbatim>\<open>next\<close> pointers lead through the nodes
  \<open>xs\<close> (address and payload) to \<open>q\<close>.\<close>

fun ll_seg :: "'a heap \<Rightarrow> nat option \<Rightarrow> (nat \<times> 'a) list \<Rightarrow> nat option \<Rightarrow> bool" where
  "ll_seg h p [] q \<longleftrightarrow> p = q"
| "ll_seg h p ((a, x) # xs) q \<longleftrightarrow>
     p = Some a \<and> (case h a of None \<Rightarrow> False | Some n \<Rightarrow> fst n = x \<and> ll_seg h (snd n) xs q)"

abbreviation ll_list :: "'a heap \<Rightarrow> nat option \<Rightarrow> (nat \<times> 'a) list \<Rightarrow> bool" where
  "ll_list h p xs \<equiv> ll_seg h p xs None"

abbreviation addrs :: "(nat \<times> 'a) list \<Rightarrow> nat set" where
  "addrs xs \<equiv> fst ` set xs"

lemma ll_seg_Cons [simp]:
  "ll_seg h p (n # xs) q \<longleftrightarrow>
   p = Some (fst n) \<and> (\<exists>m. h (fst n) = Some (snd n, m) \<and> ll_seg h m xs q)"
  by (cases n) (auto split: option.splits)

declare ll_seg.simps(2) [simp del]

lemma ll_seg_append [simp]:
  "ll_seg h p (xs @ ys) q \<longleftrightarrow> (\<exists>r. ll_seg h p xs r \<and> ll_seg h r ys q)"
  by (induction xs arbitrary: p) (simp, force)

lemma ll_seg_frame:
  "(\<And>a. a \<in> addrs xs \<Longrightarrow> h' a = h a) \<Longrightarrow> ll_seg h' p xs q = ll_seg h p xs q"
  by (induction xs arbitrary: p) auto

lemma ll_seg_upd [simp]: "a \<notin> addrs xs \<Longrightarrow> ll_seg (h(a := v)) p xs q = ll_seg h p xs q"
  by (rule ll_seg_frame) auto

lemma ll_seg_nodes_alloc: "ll_seg h p xs q \<Longrightarrow> (a, x) \<in> set xs \<Longrightarrow> \<exists>n. h a = Some (x, n)"
  by (induction xs arbitrary: p) auto

lemma ll_list_unique: "ll_list h p xs \<Longrightarrow> ll_list h p ys \<Longrightarrow> xs = ys"
proof (induction xs arbitrary: p ys)
  case Nil
  then show ?case by (cases ys) auto
next
  case (Cons n xs)
  from Cons.prems obtain m where m: "p = Some (fst n)" "h (fst n) = Some (snd n, m)" "ll_list h m xs"
    by auto
  with Cons.prems(2) obtain n' ys' where "ys = n' # ys'" by (cases ys) auto
  with Cons.prems(2) m have "n' = n" "ll_list h m ys'"
    by (auto simp: prod_eq_iff)
  with Cons.IH m \<open>ys = n' # ys'\<close> show ?case by simp
qed

lemma ll_list_head_notin:
  assumes "ll_list h p (n # xs)"
  shows "fst n \<notin> addrs xs"
proof
  assume "fst n \<in> addrs xs"
  then obtain y us vs where xs: "xs = us @ (fst n, y) # vs"
    by (metis (no_types, lifting) imageE prod.collapse split_list)
  with assms have "ll_list h (Some (fst n)) ((fst n, y) # vs)"
    by auto
  moreover from assms have "ll_list h (Some (fst n)) (n # xs)" by simp
  ultimately have "(fst n, y) # vs = n # xs" by (rule ll_list_unique)
  with xs show False by simp
qed

lemma ll_list_distinct: "ll_list h p xs \<Longrightarrow> distinct (map fst xs)"
proof (induction xs arbitrary: p)
  case (Cons n xs)
  then show ?case using ll_list_head_notin [OF Cons.prems] by auto
qed simp

lemma ll_seg_None [simp]: "ll_seg h None xs q \<longleftrightarrow> xs = [] \<and> q = None"
  by (cases xs) auto

lemma ll_list_headE:
  assumes "ll_list h head xs" and "xs \<noteq> []"
  obtains "head = Some (fst (hd xs))"
  using assms by (cases xs) auto

lemma ll_seg_head_unique: "ll_list h p xs \<Longrightarrow> ll_list h q xs \<Longrightarrow> p = q"
  by (cases xs) auto

section \<open>What the macros do\<close>

lemma ll_next_Some [simp]: "h p = Some (x, n) \<Longrightarrow> ll_next h p = Some n"
  by (simp add: ll_next_def)

lemma ll_set_next_Some [simp]: "h p = Some (x, n) \<Longrightarrow> ll_set_next h p q = Some (h(p \<mapsto> (x, q)))"
  by (simp add: ll_set_next_def)

lemma ll_tail_end: "h p = Some (x, None) \<Longrightarrow> ll_tail h p = Some p"
  by (subst ll_tail.simps) simp

lemma ll_tail_step: "h p = Some (x, Some r) \<Longrightarrow> ll_tail h p = ll_tail h r"
  by (subst ll_tail.simps) simp

lemma ll_tail_last: "ll_list h (Some p) xs \<Longrightarrow> ll_tail h p = Some (fst (last xs))"
proof (induction xs arbitrary: p)
  case outer: (Cons n xs)
  then obtain m where m: "p = fst n" "h p = Some (snd n, m)" "ll_list h m xs" by auto
  show ?case
  proof (cases xs)
    case Nil
    with m show ?thesis by (simp add: ll_tail_end)
  next
    case (Cons n' xs')
    with m have r: "m = Some (fst n')" by simp
    with m have "ll_tail h p = ll_tail h (fst n')" by (simp add: ll_tail_step)
    also have "\<dots> = Some (fst (last xs))" using m r outer.IH by simp
    finally show ?thesis using Cons by simp
  qed
qed simp

lemma ll_list_snocE:
  assumes "ll_list h p (ys @ [(t, y)])"
  shows "ll_seg h p ys (Some t) \<and> h t = Some (y, None) \<and> t \<notin> addrs ys"
  using assms ll_list_distinct [OF assms] by auto

text \<open>\<^verbatim>\<open>LL_APPEND\<close> adds an allocated node behind the last one and touches no other
  node than these two.\<close>

lemma LL_APPEND2_append:
  assumes "ll_list h head xs" and "h add = Some (x, n)" and "add \<notin> addrs xs"
  shows "\<exists>h' head'. LL_APPEND2 h head add = Some (h', head') \<and> ll_list h' head' (xs @ [(add, x)])
    \<and> (\<forall>a. a \<notin> insert add (addrs xs) \<longrightarrow> h' a = h a)"
proof (cases xs rule: rev_cases)
  case Nil
  with assms show ?thesis by (simp add: LL_APPEND2_def)
next
  case (snoc ys l)
  obtain t y where l: "l = (t, y)" by (cases l)
  have "ll_list h head (ys @ [(t, y)])" using assms(1) snoc l by simp
  from ll_list_snocE [OF this] have seg: "ll_seg h head ys (Some t)" "h t = Some (y, None)" "t \<notin> addrs ys"
    by simp_all
  have t: "t \<noteq> add" "add \<notin> addrs ys" using assms(3) snoc l by auto
  let ?h1 = "h(add \<mapsto> (x, None))"
  let ?h2 = "?h1(t \<mapsto> (y, Some add))"
  obtain p where head: "head = Some p" using assms(1) snoc by (cases head) auto
  have "ll_list ?h1 (Some p) xs" using assms head by simp
  from ll_tail_last [OF this] have "ll_tail ?h1 p = Some t" using snoc l by simp
  then have "LL_APPEND2 h head add = Some (?h2, head)"
    using assms(2) head seg t by (simp add: LL_APPEND2_def)
  moreover have "ll_list ?h2 head (xs @ [(add, x)])"
    using seg t snoc l by simp
  moreover have "\<forall>a. a \<notin> insert add (addrs xs) \<longrightarrow> ?h2 a = h a"
    using snoc l by simp
  ultimately show ?thesis by blast
qed

text \<open>\<^verbatim>\<open>LL_DELETE\<close> unlinks the node and leaves it allocated.\<close>

lemma ll_pred_found: "h p = Some (x, Some d) \<Longrightarrow> ll_pred h p d = Some p"
  by (subst ll_pred.simps) simp

lemma ll_pred_step: "h p = Some (x, Some r) \<Longrightarrow> r \<noteq> d \<Longrightarrow> ll_pred h p d = ll_pred h r d"
  by (subst ll_pred.simps) simp

lemma ll_pred_before:
  "ll_list h (Some p) (ys @ (t, y) # (d, x) # zs) \<Longrightarrow> ll_pred h p d = Some t"
proof (induction ys arbitrary: p)
  case Nil
  then show ?case by (auto intro: ll_pred_found)
next
  case (Cons n ys)
  then obtain m where m: "p = fst n" "h p = Some (snd n, m)" "ll_list h m (ys @ (t, y) # (d, x) # zs)"
    by auto
  from ll_list_distinct [OF Cons.prems] have "d \<notin> addrs (ys @ [(t, y)])" by auto
  moreover obtain r where r: "m = Some r" using m(3) by (cases m) auto
  moreover have "r \<in> addrs (ys @ [(t, y)])" using m(3) r by (cases ys) auto
  ultimately have "r \<noteq> d" by auto
  with m r Cons.IH show ?case by (simp add: ll_pred_step)
qed

lemma LL_DELETE2_delete:
  assumes "ll_list h head (us @ (d, x) # vs)"
  shows "\<exists>h' head'. LL_DELETE2 h head d = Some (h', head') \<and> ll_list h' head' (us @ vs)
    \<and> (\<forall>a. a \<notin> addrs us \<longrightarrow> h' a = h a)"
proof (cases us rule: rev_cases)
  case Nil
  with assms show ?thesis by (auto simp: LL_DELETE2_def)
next
  case (snoc ys l)
  obtain t y where l: "l = (t, y)" by (cases l)
  have list: "ll_list h head (ys @ (t, y) # (d, x) # vs)" using assms snoc l by simp
  then obtain m where seg: "ll_seg h head ys (Some t)" "h t = Some (y, Some d)"
    "h d = Some (x, m)" "ll_list h m vs" by auto
  have dist: "t \<noteq> d" "t \<notin> addrs ys" "t \<notin> addrs vs" "d \<notin> addrs ys"
    using ll_list_distinct [OF list] by auto
  obtain p where head: "head = Some p" using list by (cases head) auto
  have "p \<in> addrs (ys @ [(t, y)])" using list head by (cases ys) auto
  then have "p \<noteq> d" using dist by auto
  moreover have "ll_pred h p d = Some t" using list head ll_pred_before [of h p ys t y d x vs] by simp
  ultimately have "LL_DELETE2 h head d = Some (h(t \<mapsto> (y, m)), head)"
    using head seg by (simp add: LL_DELETE2_def)
  moreover have "ll_list (h(t \<mapsto> (y, m))) head (us @ vs)"
    using seg dist snoc l by simp
  ultimately show ?thesis using snoc l by auto
qed

text \<open>Looking a node up is a search of the represented list, counting its length.\<close>

lemma ll_find_find:
  "ll_list h p xs \<Longrightarrow> ll_find h P p = Some (map_option fst (find (\<lambda>n. P (snd n)) xs))"
proof (induction xs arbitrary: p)
  case Nil
  then show ?case by (subst ll_find.simps) simp
next
  case (Cons n xs)
  then obtain m where m: "p = Some (fst n)" "h (fst n) = Some (snd n, m)" "ll_list h m xs" by auto
  then show ?case using Cons.IH [OF m(3)] by (subst ll_find.simps) simp
qed

lemma ll_count_length: "ll_list h p xs \<Longrightarrow> ll_count h p c = Some (c + length xs)"
proof (induction xs arbitrary: p c)
  case Nil
  then show ?case by (subst ll_count.simps) simp
next
  case (Cons n xs)
  then obtain m where m: "p = Some (fst n)" "h (fst n) = Some (snd n, m)" "ll_list h m xs" by auto
  then show ?case using Cons.IH [OF m(3), of "Suc c"] by (subst ll_count.simps) simp
qed

text \<open>The removal loop: at each point the list is the kept part followed by what is left.\<close>

lemma ll_remove_loop_end: "ll_remove_loop P h head None = Some (h, head)"
  by (subst ll_remove_loop.simps) simp

lemma ll_remove_loop_keep:
  "h p = Some (x, n) \<Longrightarrow> \<not> P x \<Longrightarrow> ll_remove_loop P h head (Some p) = ll_remove_loop P h head n"
  by (subst ll_remove_loop.simps) simp

lemma ll_remove_loop_drop:
  "h p = Some (x, n) \<Longrightarrow> P x \<Longrightarrow> LL_DELETE2 h head p = Some (h', head') \<Longrightarrow>
   ll_remove_loop P h head (Some p) = ll_remove_loop P (h'(p := None)) head' n"
  by (subst ll_remove_loop.simps) simp

abbreviation kept :: "('a \<Rightarrow> bool) \<Rightarrow> (nat \<times> 'a) list \<Rightarrow> (nat \<times> 'a) list" where
  "kept P xs \<equiv> filter (\<lambda>n. \<not> P (snd n)) xs"

lemma ll_remove_loop_filter:
  assumes "ll_list h head (us @ xs)" and "ll_seg h head us el" and "ll_list h el xs"
  shows "\<exists>h' head'. ll_remove_loop P h head el = Some (h', head')
    \<and> ll_list h' head' (us @ kept P xs)
    \<and> (\<forall>a \<in> addrs xs. a \<notin> addrs (kept P xs) \<longrightarrow> h' a = None)
    \<and> (\<forall>a. a \<notin> addrs (us @ xs) \<longrightarrow> h' a = h a)"
  using assms
proof (induction xs arbitrary: us h head el)
  case Nil
  then have "el = None" by simp
  then show ?case using Nil by (simp add: ll_remove_loop_end)
next
  case (Cons n xs)
  obtain a x where n: "n = (a, x)" by (cases n)
  with Cons.prems obtain m where m: "el = Some a" "h a = Some (x, m)" "ll_list h m xs" by auto
  have dist: "a \<notin> addrs us" "a \<notin> addrs xs" "addrs us \<inter> addrs xs = {}"
    using ll_list_distinct [OF Cons.prems(1)] n by auto
  show ?case
  proof (cases "P x")
    case False
    have "ll_seg h head (us @ [n]) m" using Cons.prems(2) m n by simp
    with Cons.prems(1) m(3) Cons.IH [of h head "us @ [n]" m]
    obtain h' head' where r: "ll_remove_loop P h head m = Some (h', head')"
      "ll_list h' head' ((us @ [n]) @ kept P xs)"
      "\<forall>a \<in> addrs xs. a \<notin> addrs (kept P xs) \<longrightarrow> h' a = None"
      "\<forall>a. a \<notin> addrs ((us @ [n]) @ xs) \<longrightarrow> h' a = h a" by auto
    with False m n dist show ?thesis by (auto simp: ll_remove_loop_keep)
  next
    case True
    from LL_DELETE2_delete [of h head us a x xs] Cons.prems(1) n
    obtain h1 head1 where d: "LL_DELETE2 h head a = Some (h1, head1)" "ll_list h1 head1 (us @ xs)"
      "\<forall>b. b \<notin> addrs us \<longrightarrow> h1 b = h b" by auto
    let ?h2 = "h1(a := None)"
    have h2: "ll_list ?h2 head1 (us @ xs)" using d(2) dist by auto
    have same: "?h2 b = h b" if "b \<in> addrs xs" for b
      using that d(3) dist by (metis disjoint_iff fun_upd_other)
    have rest: "ll_list ?h2 m xs"
      using m(3) ll_seg_frame [of xs ?h2 h m None, OF same] by simp
    obtain r where r: "ll_seg ?h2 head1 us r" "ll_list ?h2 r xs"
      using h2 unfolding ll_seg_append by blast
    from ll_seg_head_unique [OF r(2) rest] r(1) have "ll_seg ?h2 head1 us m" by simp
    with rest obtain h' head' where r: "ll_remove_loop P ?h2 head1 m = Some (h', head')"
      "ll_list h' head' (us @ kept P xs)"
      "\<forall>a \<in> addrs xs. a \<notin> addrs (kept P xs) \<longrightarrow> h' a = None"
      "\<forall>b. b \<notin> addrs (us @ xs) \<longrightarrow> h' b = ?h2 b"
      using Cons.IH [OF h2, of m] by blast
    moreover have "ll_remove_loop P h head el = ll_remove_loop P ?h2 head1 m"
      using m True d by (simp add: ll_remove_loop_drop)
    ultimately show ?thesis using n True d(3) dist by auto
  qed
qed

lemma LL_APPEND2_at_end:
  assumes "ll_list h head (ys @ [(t, y)])" and "h add = Some (x, n)" and "add \<notin> addrs (ys @ [(t, y)])"
  shows "LL_APPEND2 h head add = Some (h(add \<mapsto> (x, None), t \<mapsto> (y, Some add)), head)"
proof -
  from ll_list_snocE [OF assms(1)] have t: "h t = Some (y, None)" by simp
  obtain p where head: "head = Some p" using assms(1) by (cases head) auto
  have "ll_list (h(add \<mapsto> (x, None))) (Some p) (ys @ [(t, y)])"
    using assms head ll_seg_upd [of add "ys @ [(t, y)]"] by metis
  from ll_tail_last [OF this] show ?thesis
    using assms head t by (simp add: LL_APPEND2_def)
qed

section \<open>The list interface of the components\<close>

text \<open>
  What the components rely on: a list object can be extended at its end, cleaned of the
  elements satisfying a condition, and searched; \<open>rep s xs\<close> says that the object \<open>s\<close>
  stands for the list \<open>xs\<close>. An operation that returns \<open>None\<close> has faulted.
\<close>

datatype 'a list_op = Insert_Last 'a | Remove_Where "'a \<Rightarrow> bool"

fun abs_ops :: "'a list_op list \<Rightarrow> 'a list \<Rightarrow> 'a list" where
  "abs_ops [] xs = xs"
| "abs_ops (Insert_Last x # ops) xs = abs_ops ops (xs @ [x])"
| "abs_ops (Remove_Where P # ops) xs = abs_ops ops (filter (\<lambda>x. \<not> P x) xs)"

fun run_ops ::
  "('a \<Rightarrow> 's \<Rightarrow> 's option) \<Rightarrow> (('a \<Rightarrow> bool) \<Rightarrow> 's \<Rightarrow> 's option) \<Rightarrow> 'a list_op list \<Rightarrow> 's \<Rightarrow> 's option" where
  "run_ops ins rem [] s = Some s"
| "run_ops ins rem (Insert_Last x # ops) s = Option.bind (ins x s) (run_ops ins rem ops)"
| "run_ops ins rem (Remove_Where P # ops) s = Option.bind (rem P s) (run_ops ins rem ops)"

locale mutable_list =
  fixes rep :: "'s \<Rightarrow> 'a list \<Rightarrow> bool"
    and ins :: "'a \<Rightarrow> 's \<Rightarrow> 's option"
    and rem :: "('a \<Rightarrow> bool) \<Rightarrow> 's \<Rightarrow> 's option"
    and look :: "('a \<Rightarrow> bool) \<Rightarrow> 's \<Rightarrow> 'a option option"
    and emp :: 's
  assumes rep_emp: "rep emp []"
    and rep_ins: "rep s xs \<Longrightarrow> \<exists>s'. ins x s = Some s' \<and> rep s' (xs @ [x])"
    and rep_rem: "rep s xs \<Longrightarrow> \<exists>s'. rem P s = Some s' \<and> rep s' (filter (\<lambda>x. \<not> P x) xs)"
    and rep_look: "rep s xs \<Longrightarrow> look P s = Some (find P xs)"
begin

lemma run_ops_rep:
  "rep s xs \<Longrightarrow> \<exists>s'. run_ops ins rem ops s = Some s' \<and> rep s' (abs_ops ops xs)"
proof (induction ops arbitrary: s xs)
  case (Cons op ops)
  show ?case
  proof (cases op)
    case (Insert_Last x)
    from rep_ins [OF Cons.prems, of x] obtain s1 where "ins x s = Some s1" "rep s1 (xs @ [x])" by blast
    with Cons.IH Insert_Last show ?thesis by auto
  next
    case (Remove_Where P)
    from rep_rem [OF Cons.prems, of P] obtain s1
      where "rem P s = Some s1" "rep s1 (filter (\<lambda>x. \<not> P x) xs)" by blast
    with Cons.IH Remove_Where show ?thesis by auto
  qed
qed simp

lemma run_ops_total: "\<exists>s'. run_ops ins rem ops emp = Some s' \<and> rep s' (abs_ops ops [])"
  by (rule run_ops_rep [OF rep_emp])

lemma look_after_rem: "rep s xs \<Longrightarrow> rem P s = Some s' \<Longrightarrow> look P s' = Some None"
  using rep_rem [of s xs P] rep_look by (fastforce simp: find_None_iff)

end

text \<open>
  The provider: a heap, the list head and an allocator. \<^verbatim>\<open>malloc\<close> returns an address
  not in use (the next one never handed out), \<^verbatim>\<open>free\<close> takes the address out of the
  heap. The nodes of the list are exactly the allocated ones: nothing leaks and nothing
  dangles.
\<close>

record 'a ll_state =
  ll_heap :: "'a heap"
  ll_head :: "nat option"
  ll_brk :: nat

definition ll_empty :: "'a ll_state" where
  "ll_empty = \<lparr>ll_heap = Map.empty, ll_head = None, ll_brk = 0\<rparr>"

definition ll_insert :: "'a \<Rightarrow> 'a ll_state \<Rightarrow> 'a ll_state option" where
  "ll_insert x s =
     map_option (\<lambda>(h, head). s\<lparr>ll_heap := h, ll_head := head, ll_brk := Suc (ll_brk s)\<rparr>)
       (LL_APPEND2 ((ll_heap s)(ll_brk s \<mapsto> (x, None))) (ll_head s) (ll_brk s))"

definition ll_remove :: "('a \<Rightarrow> bool) \<Rightarrow> 'a ll_state \<Rightarrow> 'a ll_state option" where
  "ll_remove P s =
     map_option (\<lambda>(h, head). s\<lparr>ll_heap := h, ll_head := head\<rparr>)
       (ll_remove_loop P (ll_heap s) (ll_head s) (ll_head s))"

definition ll_lookup :: "('a \<Rightarrow> bool) \<Rightarrow> 'a ll_state \<Rightarrow> 'a option option" where
  "ll_lookup P s =
     Option.bind (ll_find (ll_heap s) P (ll_head s)) (\<lambda>r.
       case r of None \<Rightarrow> Some None | Some a \<Rightarrow> map_option (\<lambda>n. Some (fst n)) (ll_heap s a))"

definition ll_rep :: "'a ll_state \<Rightarrow> 'a list \<Rightarrow> bool" where
  "ll_rep s xs \<longleftrightarrow> (\<exists>ns. ll_list (ll_heap s) (ll_head s) ns \<and> map snd ns = xs
     \<and> dom (ll_heap s) = addrs ns \<and> (\<forall>a \<in> addrs ns. a < ll_brk s))"

lemma ll_seg_nodes_dom: "ll_seg h p xs q \<Longrightarrow> addrs xs \<subseteq> dom h"
  by (force dest: ll_seg_nodes_alloc)

lemma ll_insert_rep:
  assumes "ll_rep s xs"
  shows "\<exists>s'. ll_insert x s = Some s' \<and> ll_rep s' (xs @ [x])"
proof -
  from assms obtain ns where ns: "ll_list (ll_heap s) (ll_head s) ns" "map snd ns = xs"
    "dom (ll_heap s) = addrs ns" "\<forall>a \<in> addrs ns. a < ll_brk s" by (auto simp: ll_rep_def)
  let ?b = "ll_brk s" and ?h = "(ll_heap s)(ll_brk s \<mapsto> (x, None))"
  have fresh: "?b \<notin> addrs ns" using ns(4) by blast
  then have "ll_list ?h (ll_head s) ns" using ns(1) by simp
  from LL_APPEND2_append [OF this, of ?b x None] fresh
  obtain h' head' where r: "LL_APPEND2 ?h (ll_head s) ?b = Some (h', head')"
    "ll_list h' head' (ns @ [(?b, x)])" "\<forall>a. a \<notin> insert ?b (addrs ns) \<longrightarrow> h' a = ?h a" by auto
  have "dom h' = addrs (ns @ [(?b, x)])"
  proof
    show "addrs (ns @ [(?b, x)]) \<subseteq> dom h'" using r(2) by (rule ll_seg_nodes_dom)
    show "dom h' \<subseteq> addrs (ns @ [(?b, x)])" using r(3) ns(3) by (auto simp: dom_def)
  qed
  moreover have "\<forall>a \<in> addrs (ns @ [(?b, x)]). a < Suc ?b" using ns(4) by fastforce
  ultimately show ?thesis using r ns(2)
    by (auto simp: ll_insert_def ll_rep_def intro!: exI [of _ "ns @ [(?b, x)]"])
qed

lemma ll_remove_rep:
  assumes "ll_rep s xs"
  shows "\<exists>s'. ll_remove P s = Some s' \<and> ll_rep s' (filter (\<lambda>x. \<not> P x) xs)"
proof -
  from assms obtain ns where ns: "ll_list (ll_heap s) (ll_head s) ns" "map snd ns = xs"
    "dom (ll_heap s) = addrs ns" "\<forall>a \<in> addrs ns. a < ll_brk s" by (auto simp: ll_rep_def)
  from ll_remove_loop_filter [of "ll_heap s" "ll_head s" "[]" ns "ll_head s" P] ns(1)
  obtain h' head' where r: "ll_remove_loop P (ll_heap s) (ll_head s) (ll_head s) = Some (h', head')"
    "ll_list h' head' (kept P ns)"
    "\<forall>a \<in> addrs ns. a \<notin> addrs (kept P ns) \<longrightarrow> h' a = None"
    "\<forall>a. a \<notin> addrs ns \<longrightarrow> h' a = ll_heap s a" by auto
  have "dom h' = addrs (kept P ns)"
  proof
    show "addrs (kept P ns) \<subseteq> dom h'" using r(2) by (rule ll_seg_nodes_dom)
    show "dom h' \<subseteq> addrs (kept P ns)" using r(3,4) ns(3) by (metis domIff subsetI)
  qed
  moreover have "map snd (kept P ns) = filter (\<lambda>x. \<not> P x) xs"
    using ns(2) by (auto simp: filter_map o_def)
  ultimately show ?thesis using r ns(4)
    by (auto simp: ll_remove_def ll_rep_def intro!: exI [of _ "kept P ns"])
qed

lemma ll_lookup_rep:
  assumes "ll_rep s xs"
  shows "ll_lookup P s = Some (find P xs)"
proof -
  from assms obtain ns where ns: "ll_list (ll_heap s) (ll_head s) ns" "map snd ns = xs"
    by (auto simp: ll_rep_def)
  have f: "find P xs = map_option snd (find (\<lambda>n. P (snd n)) ns)"
    unfolding ns(2) [symmetric] by (induction ns) auto
  show ?thesis
  proof (cases "find (\<lambda>n. P (snd n)) ns")
    case None
    with f ll_find_find [OF ns(1), of P] show ?thesis by (simp add: ll_lookup_def)
  next
    case (Some n)
    then have "(fst n, snd n) \<in> set ns" by (auto simp: find_Some_iff)
    from ll_seg_nodes_alloc [OF ns(1) this] Some f ll_find_find [OF ns(1), of P]
    show ?thesis by (auto simp: ll_lookup_def)
  qed
qed

interpretation ll: mutable_list ll_rep ll_insert ll_remove ll_lookup ll_empty
proof unfold_locales
  show "ll_rep ll_empty []" by (simp add: ll_rep_def ll_empty_def)
qed (auto intro: ll_insert_rep ll_remove_rep ll_lookup_rep)

text \<open>
  C19: the linked lists of the program behave as lists. Starting from an empty list, every
  sequence of appending new nodes and removing (and freeing) the nodes that satisfy a
  condition runs to its end without touching memory that is not allocated, no node leaks,
  and searching the result finds what searching the list finds that the same operations give.
\<close>

theorem linked_list_implements_list:
  "\<exists>s. run_ops ll_insert ll_remove ops ll_empty = Some s \<and> ll_rep s (abs_ops ops [])
     \<and> (\<forall>P. ll_lookup P s = Some (find P (abs_ops ops [])))
     \<and> card (dom (ll_heap s)) = length (abs_ops ops [])"
proof -
  obtain s where s: "run_ops ll_insert ll_remove ops ll_empty = Some s" "ll_rep s (abs_ops ops [])"
    using ll.run_ops_total by blast
  then obtain ns where "ll_list (ll_heap s) (ll_head s) ns" "map snd ns = abs_ops ops []" "dom (ll_heap s) = addrs ns"
    by (auto simp: ll_rep_def)
  then have "card (dom (ll_heap s)) = length (abs_ops ops [])"
    using distinct_card [OF ll_list_distinct] by (metis length_map set_map)
  with s ll.rep_look show ?thesis by blast
qed

end
