(* ===== verification/Append_Race.thy ===== *)
theory Append_Race
  imports Utlist
begin

text \<open>
  \<^verbatim>\<open>LL_APPEND\<close> in the middle of other operations. The client library appends the node of a
  request to the tracking list without taking its lock (\<^verbatim>\<open>json_hal_client.c\<close>), so that the
  socket thread can delete nodes, and other callers can append theirs, between any two accesses of the
  macro to memory. Here these accesses are steps, on the heap of the theory \<open>Utlist\<close>.
\<close>

section \<open>The macro step by step\<close>

datatype append_pc =
    A_Clear               \<comment> \<open>\<^verbatim>\<open>(add)->next=NULL\<close>\<close>
  | A_Test                \<comment> \<open>\<^verbatim>\<open>if (head)\<close>\<close>
  | A_Load                \<comment> \<open>\<^verbatim>\<open>_tmp = head\<close>\<close>
  | A_Walk "nat option"   \<comment> \<open>\<^verbatim>\<open>while (_tmp->next)\<close>\<close>
  | A_Move nat            \<comment> \<open>\<^verbatim>\<open>_tmp = _tmp->next\<close>\<close>
  | A_Link nat            \<comment> \<open>\<^verbatim>\<open>_tmp->next=(add)\<close>\<close>
  | A_Set_Head            \<comment> \<open>\<^verbatim>\<open>(head)=(add)\<close>\<close>
  | A_Done

text \<open>The heap, the head, and for each node that is being appended the place its thread has
  reached.\<close>

record 'a list_race =
  race_heap :: "'a heap"
  race_head :: "nat option"
  race_pc :: "nat \<Rightarrow> append_pc"

definition goto :: "nat \<Rightarrow> append_pc \<Rightarrow> 'a list_race \<Rightarrow> 'a list_race" where
  "goto a p s = s\<lparr>race_pc := (race_pc s)(a := p)\<rparr>"

text \<open>The next access of the thread that appends the node \<open>add\<close>; \<open>None\<close> when it reads or
  writes through NULL or outside allocated memory.\<close>

definition append_step :: "nat \<Rightarrow> 'a list_race \<Rightarrow> 'a list_race option" where
  "append_step add s =
     (case race_pc s add of
        A_Clear \<Rightarrow> map_option (\<lambda>h. goto add A_Test (s\<lparr>race_heap := h\<rparr>)) (ll_set_next (race_heap s) add None)
      | A_Test \<Rightarrow> Some (goto add (if race_head s = None then A_Set_Head else A_Load) s)
      | A_Load \<Rightarrow> Some (goto add (A_Walk (race_head s)) s)
      | A_Walk tmp \<Rightarrow> Option.bind tmp (\<lambda>p. map_option (\<lambda>q. goto add (if q = None then A_Link p else A_Move p) s)
          (ll_next (race_heap s) p))
      | A_Move p \<Rightarrow> map_option (\<lambda>q. goto add (A_Walk q) s) (ll_next (race_heap s) p)
      | A_Link p \<Rightarrow> map_option (\<lambda>h. goto add A_Done (s\<lparr>race_heap := h\<rparr>)) (ll_set_next (race_heap s) p (Some add))
      | A_Set_Head \<Rightarrow> Some (goto add A_Done (s\<lparr>race_head := Some add\<rparr>))
      | A_Done \<Rightarrow> Some s)"

text \<open>The other threads delete nodes under the lock of the list, one at a time.\<close>

datatype race_event = Append nat | Delete nat

fun race_step :: "race_event \<Rightarrow> 'a list_race \<Rightarrow> 'a list_race option" where
  "race_step (Append a) s = append_step a s"
| "race_step (Delete d) s =
     map_option (\<lambda>(h, head). s\<lparr>race_heap := h, race_head := head\<rparr>) (LL_DELETE2 (race_heap s) (race_head s) d)"

fun race_run :: "race_event list \<Rightarrow> 'a list_race \<Rightarrow> 'a list_race option" where
  "race_run [] s = Some s"
| "race_run (e # es) s = Option.bind (race_step e s) (race_run es)"

lemma race_run_append: "race_run (es @ es') s = Option.bind (race_run es s) (race_run es')"
proof (induction es arbitrary: s)
  case (Cons e es)
  then show ?case by (cases "race_step e s") auto
qed simp

lemma goto_simps [simp]:
  "race_heap (goto a p s) = race_heap s" "race_head (goto a p s) = race_head s"
  "race_pc (goto a p s) b = (if b = a then p else race_pc s b)"
  by (simp_all add: goto_def)

section \<open>Alone\<close>

lemma walk_to_end:
  assumes "ll_list (race_heap s) (Some p) xs" "race_pc s a = A_Walk (Some p)"
  shows "race_run (replicate (2 * length xs - 1) (Append a)) s = Some (goto a (A_Link (fst (last xs))) s)"
  using assms
proof (induction xs arbitrary: s p)
  case outer: (Cons n xs)
  then obtain m where m: "p = fst n" "race_heap s p = Some (snd n, m)" "ll_list (race_heap s) m xs" by auto
  show ?case
  proof (cases xs)
    case Nil
    then show ?thesis using m outer.prems by (simp add: append_step_def)
  next
    case (Cons n' xs')
    let ?s = "goto a (A_Walk m) s"
    have "race_run (replicate 2 (Append a)) s = Some ?s"
      using m Cons outer.prems by (auto simp: append_step_def numeral_2_eq_2 goto_def)
    moreover have "race_run (replicate (2 * length xs - 1) (Append a)) ?s = Some (goto a (A_Link (fst (last xs))) s)"
      using outer.IH [of ?s "fst n'"] m Cons by (auto simp: goto_def)
    moreover have "2 * length (n # xs) - 1 = 2 + (2 * length xs - 1)" using Cons by simp
    ultimately show ?thesis using Cons by (simp only: replicate_add race_run_append) simp
  qed
qed simp

lemma append_alone:
  assumes "ll_list (race_heap s) (race_head s) xs" "race_heap s a = Some (x, n)" "a \<notin> addrs xs" "race_pc s a = A_Clear"
  shows "\<exists>h head. LL_APPEND2 (race_heap s) (race_head s) a = Some (h, head) \<and>
    race_run (replicate (2 * length xs + 3) (Append a)) s = Some (goto a A_Done (s\<lparr>race_heap := h, race_head := head\<rparr>))"
proof (cases xs rule: rev_cases)
  case Nil
  then show ?thesis using assms by (simp add: LL_APPEND2_def append_step_def numeral_3_eq_3 goto_def)
next
  case (snoc ys l)
  let ?h = "(race_heap s)(a \<mapsto> (x, None))"
  let ?s = "goto a (A_Walk (race_head s)) (s\<lparr>race_heap := ?h\<rparr>)"
  obtain p where head: "race_head s = Some p" using assms(1) snoc by (cases "race_head s") auto
  have l: "ll_list ?h (Some p) xs" using assms(1,3) head by simp
  have t: "ll_tail ?h p = Some (fst l)" using ll_tail_last [OF l] snoc by simp
  obtain y m where y: "?h (fst l) = Some (y, m)" using ll_seg_nodes_alloc [OF l, of "fst l" "snd l"] snoc by auto
  have "race_run (replicate 3 (Append a)) s = Some ?s"
    using assms(2,4) head by (simp add: append_step_def numeral_3_eq_3 goto_def)
  moreover have "race_run (replicate (2 * length xs - 1) (Append a)) ?s = Some (goto a (A_Link (fst l)) ?s)"
    using walk_to_end [of ?s p xs a] l head snoc by simp
  moreover have "2 * length xs + 3 = 3 + ((2 * length xs - 1) + 1)" using snoc by simp
  ultimately show ?thesis using assms(2) head t y
    by (simp only: replicate_add race_run_append) (simp add: race_run_append LL_APPEND2_def append_step_def goto_def)
qed

section \<open>Beside deletions\<close>

text \<open>A deletion does not disturb the thread that appends \<open>a\<close>: it does not take away the node
  the thread stands on, nor turn a test it has just made around.\<close>

definition harmless :: "nat \<Rightarrow> nat \<Rightarrow> 'a list_race \<Rightarrow> bool" where
  "harmless a d s \<longleftrightarrow>
     (let h = race_heap s in
      case race_pc s a of
        A_Load \<Rightarrow> \<not> (race_head s = Some d \<and> ll_next h d = Some None)
      | A_Walk tmp \<Rightarrow> tmp \<noteq> Some d
      | A_Move p \<Rightarrow> p \<noteq> d \<and> \<not> (ll_next h p = Some (Some d) \<and> ll_next h d = Some None)
      | A_Link p \<Rightarrow> p \<noteq> d
      | _ \<Rightarrow> True)"

fun harmless_run :: "nat \<Rightarrow> race_event list \<Rightarrow> 'a list_race \<Rightarrow> bool" where
  "harmless_run a [] s = True"
| "harmless_run a (e # es) s =
     ((case e of Append b \<Rightarrow> b = a | Delete d \<Rightarrow> harmless a d s) \<and>
      (case race_step e s of None \<Rightarrow> True | Some s' \<Rightarrow> harmless_run a es s'))"

fun deletions :: "race_event list \<Rightarrow> nat list" where
  "deletions [] = []" | "deletions (Append a # es) = deletions es" | "deletions (Delete d # es) = d # deletions es"

fun pc_ok :: "(nat \<times> 'a) list \<Rightarrow> append_pc \<Rightarrow> bool" where
  "pc_ok xs A_Load = (xs \<noteq> [])"
| "pc_ok xs (A_Walk tmp) = (case tmp of None \<Rightarrow> False | Some q \<Rightarrow> q \<in> addrs xs)"
| "pc_ok xs (A_Move q) = (q \<in> addrs xs \<and> q \<noteq> fst (last xs))"
| "pc_ok xs (A_Link q) = (xs \<noteq> [] \<and> q = fst (last xs))"
| "pc_ok xs A_Set_Head = (xs = [])"
| "pc_ok xs _ = True"

definition race_inv :: "nat \<Rightarrow> 'a \<Rightarrow> (nat \<times> 'a) list \<Rightarrow> 'a list_race \<Rightarrow> bool" where
  "race_inv a x xs s \<longleftrightarrow>
     (let h = race_heap s; p = race_pc s a in
      a \<notin> addrs xs \<and>
      ll_list h (race_head s) (if p = A_Done then xs @ [(a, x)] else xs) \<and>
      (\<exists>n. h a = Some (x, n) \<and> (p \<noteq> A_Clear \<longrightarrow> n = None)) \<and>
      pc_ok xs p)"

lemma ll_list_next:
  assumes "ll_list h p xs" "q \<in> addrs xs"
  shows "(ll_next h q = Some None \<and> q = fst (last xs)) \<or>
    (\<exists>r. ll_next h q = Some (Some r) \<and> r \<in> addrs xs \<and> q \<noteq> fst (last xs))"
proof -
  obtain us y vs where xs: "xs = us @ (q, y) # vs" using assms(2) by (metis imageE prod.collapse split_list)
  then show ?thesis using assms(1) ll_list_distinct [OF assms(1)]
    by (cases vs) (auto simp: ll_next_def image_iff)
qed

lemma link_inv:
  assumes "race_inv a x xs s" "race_pc s a = A_Link t"
  shows "case append_step a s of None \<Rightarrow> False | Some s' \<Rightarrow> race_inv a x xs s'"
proof -
  obtain ys y where xs: "xs = ys @ [(t, y)]" and l: "ll_list (race_heap s) (race_head s) (ys @ [(t, y)])"
    and a: "a \<notin> addrs xs" "race_heap s a = Some (x, None)"
    using assms by (cases xs rule: rev_cases) (auto simp: race_inv_def Let_def)
  then show ?thesis using assms(2) ll_list_snocE [OF l]
    by (auto simp: append_step_def race_inv_def)
qed

lemma append_step_inv:
  assumes "race_inv a x xs s"
  shows "case append_step a s of None \<Rightarrow> False | Some s' \<Rightarrow> race_inv a x xs s'"
proof (cases "race_pc s a")
  case (A_Walk tmp)
  then obtain q where q: "tmp = Some q" "q \<in> addrs xs" "ll_list (race_heap s) (race_head s) xs"
    using assms by (auto simp: race_inv_def Let_def split: option.splits)
  then have "xs \<noteq> []" by auto
  from ll_list_next [OF q(3,2)] show ?thesis
    by (elim disjE exE conjE) (use \<open>xs \<noteq> []\<close> q assms A_Walk in \<open>simp_all add: append_step_def race_inv_def Let_def\<close>)
next
  case (A_Move q)
  then have q: "q \<in> addrs xs" "ll_list (race_heap s) (race_head s) xs"
    using assms by (auto simp: race_inv_def Let_def)
  from ll_list_next [OF q(2,1)] show ?thesis
    by (elim disjE exE conjE) (use assms A_Move in \<open>simp_all add: append_step_def race_inv_def Let_def\<close>)
next
  case A_Load
  then show ?thesis using assms by (cases xs) (auto simp: append_step_def race_inv_def Let_def)
next
  case (A_Link t)
  show ?thesis using link_inv [OF assms A_Link] .
next
  case A_Test
  then show ?thesis using assms by (cases xs) (auto simp: append_step_def race_inv_def Let_def)
next
  case A_Clear
  then show ?thesis using assms by (auto simp: append_step_def race_inv_def Let_def)
qed (use assms in \<open>auto simp: append_step_def race_inv_def Let_def\<close>)

lemma delete_pc_ok:
  assumes "race_pc s a \<noteq> A_Done \<Longrightarrow> ll_list (race_heap s) (race_head s) (us @ (d, y) # vs)" "harmless a d s"
    "pc_ok (us @ (d, y) # vs) (race_pc s a)"
  shows "pc_ok (us @ vs) (race_pc s a)"
proof (cases "race_pc s a")
  case A_Load
  then show ?thesis using assms by (cases us; cases vs) (auto simp: harmless_def Let_def)
next
  case (A_Walk tmp)
  then show ?thesis using assms(2,3) by (auto simp: harmless_def split: option.splits)
next
  case (A_Link q)
  then show ?thesis using assms(2,3) by (cases vs) (auto simp: harmless_def)
next
  case (A_Move q)
  have l: "ll_list (race_heap s) (race_head s) (us @ (d, y) # vs)" using assms(1) A_Move by simp
  show ?thesis
  proof (cases vs)
    case Nil
    have "q \<noteq> fst (last us)" if "us \<noteq> []"
      using that assms(2) l Nil A_Move by (cases us rule: rev_cases) (auto simp: harmless_def Let_def)
    then show ?thesis using assms(2,3) A_Move Nil by (cases "us = []") (auto simp: harmless_def Let_def)
  qed (use assms(2,3) A_Move in \<open>auto simp: harmless_def Let_def\<close>)
qed (use assms(3) in auto)

lemma delete_inv:
  assumes "race_inv a x xs s" "d \<in> addrs xs" "harmless a d s"
  shows "\<exists>s'. race_step (Delete d) s = Some s' \<and> race_inv a x (filter (\<lambda>n. fst n \<noteq> d) xs) s'"
proof -
  let ?h = "race_heap s" and ?p = "race_pc s a"
  obtain us y vs where xs: "xs = us @ (d, y) # vs" using assms(2) by (metis imageE prod.collapse split_list)
  let ?fin = "if ?p = A_Done then [(a, x)] else []"
  have l: "ll_list ?h (race_head s) (us @ (d, y) # vs @ ?fin)"
    using assms(1) xs by (auto simp: race_inv_def Let_def split: if_splits)
  obtain h' head' where del: "LL_DELETE2 ?h (race_head s) d = Some (h', head')"
    "ll_list h' head' (us @ vs @ ?fin)" "\<forall>b. b \<notin> addrs us \<longrightarrow> h' b = ?h b"
    using LL_DELETE2_delete [OF l] by auto
  have ds: "d \<notin> addrs us" "d \<notin> addrs vs" using ll_list_distinct [OF l] by auto
  then have "filter (\<lambda>n. fst n \<noteq> d) us = us" "filter (\<lambda>n. fst n \<noteq> d) vs = vs"
    by (force simp: filter_id_conv)+
  then have fl: "filter (\<lambda>n. fst n \<noteq> d) xs = us @ vs" using xs by simp
  have a: "a \<notin> addrs xs" using assms(1) by (simp add: race_inv_def Let_def)
  then have ha: "h' a = ?h a" using del(3) xs by auto
  have pc: "pc_ok (us @ vs) ?p" using delete_pc_ok [OF _ assms(3)] assms(1) xs
    by (auto simp: race_inv_def Let_def split: if_splits)
  show ?thesis using del a ha fl pc assms(1) xs
    by (auto simp: race_inv_def Let_def)
qed

lemma harmless_run_inv:
  assumes "race_inv a x xs s" "harmless_run a es s" "distinct (deletions es)" "set (deletions es) \<subseteq> addrs xs"
  shows "\<exists>s'. race_run es s = Some s' \<and> race_inv a x (filter (\<lambda>n. fst n \<notin> set (deletions es)) xs) s'"
  using assms
proof (induction es arbitrary: xs s)
  case (Cons e es)
  show ?case
  proof (cases e)
    case (Append b)
    then obtain s1 where "append_step a s = Some s1" "race_inv a x xs s1"
      using append_step_inv [OF Cons.prems(1)] by (auto split: option.splits)
    then show ?thesis using Cons Append by auto
  next
    case (Delete d)
    then obtain s1 where s1: "race_step e s = Some s1" "race_inv a x (filter (\<lambda>n. fst n \<noteq> d) xs) s1"
      using delete_inv [OF Cons.prems(1), of d] Cons.prems by auto
    have "addrs (filter (\<lambda>n. fst n \<noteq> d) xs) = addrs xs - {d}" by auto
    then have "set (deletions es) \<subseteq> addrs (filter (\<lambda>n. fst n \<noteq> d) xs)"
      using Cons.prems(3,4) Delete by auto
    moreover have "harmless_run a es s1" "distinct (deletions es)"
      using Cons.prems(2,3) s1(1) Delete by auto
    ultimately show ?thesis using Cons.IH [OF s1(2)] s1(1) Delete by (auto simp: conj_commute)
  qed
qed simp

text \<open>C20: A thread that appends a node without the lock, alone or while other threads delete nodes
  of the list, never touches memory that is not allocated, and when it is through, the list has
  the nodes that were not deleted with the new node behind them -- provided that no
  deletion hits the node its walk stands on or turns around a test it has just made. Undisturbed it
  does exactly what the macro does, in \<open>2 n + 3\<close> accesses for a list of \<open>n\<close> nodes.\<close>

theorem append_beside_deletions:
  assumes "ll_list (race_heap s) (race_head s) xs" "race_heap s a = Some (x, n)" "a \<notin> addrs xs"
    "race_pc s a = A_Clear"
  shows "(\<exists>h head. LL_APPEND2 (race_heap s) (race_head s) a = Some (h, head) \<and>
      race_run (replicate (2 * length xs + 3) (Append a)) s =
        Some (goto a A_Done (s\<lparr>race_heap := h, race_head := head\<rparr>))) \<and>
    (harmless_run a es s \<and> distinct (deletions es) \<and> set (deletions es) \<subseteq> addrs xs \<longrightarrow>
      (\<exists>s'. race_run es s = Some s' \<and>
        (let kept = filter (\<lambda>n. fst n \<notin> set (deletions es)) xs in
         ll_list (race_heap s') (race_head s') (if race_pc s' a = A_Done then kept @ [(a, x)] else kept))))"
proof -
  have inv: "race_inv a x xs s" using assms by (simp add: race_inv_def)
  have "\<exists>s'. race_run es s = Some s' \<and>
      (let kept = filter (\<lambda>n. fst n \<notin> set (deletions es)) xs in
       ll_list (race_heap s') (race_head s') (if race_pc s' a = A_Done then kept @ [(a, x)] else kept))"
    if "harmless_run a es s \<and> distinct (deletions es) \<and> set (deletions es) \<subseteq> addrs xs"
    using harmless_run_inv [OF inv, of es] that unfolding race_inv_def Let_def by metis
  then show ?thesis using append_alone [OF assms] by blast
qed

text \<open>A list of two nodes, with a third and a fourth that are to be appended.\<close>

definition two_nodes :: "string list_race" where
  "two_nodes = \<lparr>race_heap = [11 \<mapsto> (''one'', Some 12), 12 \<mapsto> (''two'', None), 13 \<mapsto> (''three'', None), 14 \<mapsto> (''four'', None)],
     race_head = Some 11, race_pc = (\<lambda>_. A_Clear)\<rparr>"

theorem append_beside_deletions_witness:
  "\<exists>s'. race_run (replicate 5 (Append 13) @ [Delete 11] @ replicate 2 (Append 13)) two_nodes = Some s' \<and>
     ll_list (race_heap s') (race_head s') (if race_pc s' 13 = A_Done then [(12, ''two''), (13, ''three'')] else [(12, ''two'')])"
proof -
  let ?es = "replicate 5 (Append 13) @ [Delete 11] @ replicate 2 (Append 13)"
  have h: "harmless_run 13 ?es two_nodes" "deletions ?es = [11]" by code_simp+
  have p: "ll_list (race_heap two_nodes) (race_head two_nodes) [(11, ''one''), (12, ''two'')]"
    "race_heap two_nodes 13 = Some (''three'', None)" "(13::nat) \<notin> addrs [(11, ''one''), (12, ''two'')]" "race_pc two_nodes 13 = A_Clear"
    by (simp_all add: two_nodes_def)
  obtain s' where "race_run ?es two_nodes = Some s'"
    "let kept = filter (\<lambda>n. fst n \<notin> set (deletions ?es)) [(11, ''one''), (12, ''two'')] in
     ll_list (race_heap s') (race_head s') (if race_pc s' 13 = A_Done then kept @ [(13, ''three'')] else kept)"
    using append_beside_deletions [OF p, of ?es] h by auto
  then show ?thesis unfolding h(2) by (intro exI [of _ s']) (auto split: if_splits)
qed

section \<open>Lost requests\<close>

text \<open>The accesses of an append up to the last one, which links the new node.\<close>

definition before_link :: "nat \<Rightarrow> nat \<Rightarrow> race_event list" where
  "before_link n a = replicate (2 * n + 2) (Append a)"

lemma run_before_link:
  assumes "ll_list (race_heap s) (race_head s) (xs @ [(t, y)])" "race_heap s a = Some (x, m)"
    "a \<notin> addrs (xs @ [(t, y)])" "race_pc s a = A_Clear"
  shows "race_run (before_link (Suc (length xs)) a) s =
    Some (goto a (A_Link t) (s\<lparr>race_heap := (race_heap s)(a \<mapsto> (x, None))\<rparr>))"
proof -
  let ?h = "(race_heap s)(a \<mapsto> (x, None))"
  let ?s = "goto a (A_Walk (race_head s)) (s\<lparr>race_heap := ?h\<rparr>)"
  obtain p where head: "race_head s = Some p" using assms(1) by (cases "race_head s") auto
  have "ll_list ?h (Some p) (xs @ [(t, y)])" using assms(1,3) head by simp
  then have "race_run (replicate (2 * length (xs @ [(t, y)]) - 1) (Append a)) ?s = Some (goto a (A_Link t) ?s)"
    using walk_to_end [of ?s p "xs @ [(t, y)]" a] head by simp
  moreover have "race_run (replicate 3 (Append a)) s = Some ?s"
    using assms(2,4) head by (simp add: append_step_def numeral_3_eq_3 goto_def)
  moreover have "2 * Suc (length xs) + 2 = 3 + (2 * length (xs @ [(t, y)]) - 1)" by simp
  ultimately show ?thesis
    unfolding before_link_def by (simp only: replicate_add race_run_append) (simp add: goto_def)
qed

text \<open>C21: Without the lock a request can be lost. When two callers append at the same time and
  both reach the last node before either links its own, the node linked first is not in the list
  at the end. When the socket thread deletes the last node while a caller is about to link behind it, the new
  node is not in the list either. When it deletes the only node between two accesses of a caller,
  the caller reads through NULL.\<close>

theorem unlocked_append_loses_node:
  assumes "ll_list (race_heap s) (race_head s) (xs @ [(t, y)])" "race_heap s a = Some (x, m)" "race_heap s b = Some (z, l)"
    "a \<notin> addrs (xs @ [(t, y)])" "b \<notin> addrs (xs @ [(t, y)])" "a \<noteq> b"
    "race_pc s a = A_Clear" "race_pc s b = A_Clear"
  shows "(\<exists>s'. race_run (before_link (Suc (length xs)) a @ before_link (Suc (length xs)) b @ [Append a, Append b]) s = Some s' \<and>
      race_pc s' a = A_Done \<and> race_pc s' b = A_Done \<and> ll_list (race_heap s') (race_head s') (xs @ [(t, y), (b, z)])) \<and>
    (\<exists>s'. race_run (before_link (Suc (length xs)) a @ [Delete t, Append a]) s = Some s' \<and>
      race_pc s' a = A_Done \<and> ll_list (race_heap s') (race_head s') xs) \<and>
    (xs = [] \<longrightarrow> race_run [Append a, Append a, Delete t, Append a, Append a] s = None)"
proof -
  have l: "ll_seg (race_heap s) (race_head s) xs (Some t)" "race_heap s t = Some (y, None)" "t \<notin> addrs xs"
    using ll_list_snocE [OF assms(1)] by auto
  let ?s = "goto a (A_Link t) (s\<lparr>race_heap := (race_heap s)(a \<mapsto> (x, None))\<rparr>)"
  have a: "race_run (before_link (Suc (length xs)) a) s = Some ?s"
    using run_before_link [OF assms(1,2,4,7)] .
  have ls: "ll_list (race_heap ?s) (race_head ?s) (xs @ [(t, y)])" using assms(1,4) by simp
  have b: "race_run (before_link (Suc (length xs)) b) ?s =
      Some (goto b (A_Link t) (?s\<lparr>race_heap := (race_heap ?s)(b \<mapsto> (z, None))\<rparr>))"
    by (rule run_before_link [OF ls, of b z l]) (use assms in auto)
  have "\<exists>s'. race_run (before_link (Suc (length xs)) a @ before_link (Suc (length xs)) b @ [Append a, Append b]) s = Some s' \<and>
      race_pc s' a = A_Done \<and> race_pc s' b = A_Done \<and> ll_list (race_heap s') (race_head s') (xs @ [(t, y), (b, z)])"
    using a b l assms(4,5,6) by (simp add: race_run_append append_step_def)
  moreover obtain h head where d: "LL_DELETE2 (race_heap ?s) (race_head ?s) t = Some (h, head)" "ll_list h head xs"
      "h t = Some (y, None)"
    using LL_DELETE2_delete [OF ls] l assms(4) by auto
  moreover have "xs = [] \<longrightarrow> race_run [Append a, Append a, Delete t, Append a, Append a] s = None"
    using assms(2,4,7) l by (cases "xs = []") (auto simp: append_step_def LL_DELETE2_def)
  ultimately show ?thesis using a l(3) by (simp add: race_run_append append_step_def)
qed

theorem unlocked_append_loses_node_witness:
  "\<exists>s'. race_run (before_link 2 13 @ before_link 2 14 @ [Append 13, Append 14]) two_nodes = Some s' \<and>
     ll_list (race_heap s') (race_head s') [(11, ''one''), (12, ''two''), (14, ''four'')]"
  using unlocked_append_loses_node [of two_nodes "[(11, ''one'')]" 12 "''two''" 13 "''three''" None 14 "''four''" None]
  by (auto simp: two_nodes_def numeral_2_eq_2)

end
