(* ===== verification/List_Contract.thy ===== *)
theory List_Contract
  imports Prelude "HOL-Library.Sorting_Algorithms"
begin

text \<open>
  What the macros of \<^verbatim>\<open>json-rpc-common/utlist.h\<close> promise at an element of a list, for singly
  linked, doubly linked and circular lists alike. A heap maps addresses to nodes of some type,
  a list is known by the addresses of its nodes, and the payloads of the nodes never change.
\<close>

section \<open>Operations on lists of addresses\<close>

datatype element_op =
    Prepend nat
  | Append nat
  | Delete nat
  | Replace nat nat
  | Prepend_Elem nat nat
  | Append_Elem nat nat

text \<open>What the operations mean. They have a result only if the node that is added is not in the
  list and the node that is named is.\<close>

fun abs_element :: "nat set \<Rightarrow> element_op \<Rightarrow> nat list \<Rightarrow> nat list option" where
  "abs_element A (Prepend a) as = (if a \<in> A - set as then Some (a # as) else None)"
| "abs_element A (Append a) as = (if a \<in> A - set as then Some (as @ [a]) else None)"
| "abs_element A (Delete d) as = (if d \<in> set as then Some (remove1 d as) else None)"
| "abs_element A (Replace e a) as =
     (if e \<in> set as \<and> a \<in> A - set as then Some (takeWhile (\<lambda>b. b \<noteq> e) as @ a # tl (dropWhile (\<lambda>b. b \<noteq> e) as)) else None)"
| "abs_element A (Prepend_Elem e a) as =
     (if e \<in> set as \<and> a \<in> A - set as then Some (takeWhile (\<lambda>b. b \<noteq> e) as @ a # dropWhile (\<lambda>b. b \<noteq> e) as) else None)"
| "abs_element A (Append_Elem e a) as =
     (if e \<in> set as \<and> a \<in> A - set as then Some (takeWhile (\<lambda>b. b \<noteq> e) as @ e # a # tl (dropWhile (\<lambda>b. b \<noteq> e) as)) else None)"

fun abs_elements :: "nat set \<Rightarrow> element_op list \<Rightarrow> nat list \<Rightarrow> nat list option" where
  "abs_elements A [] as = Some as"
| "abs_elements A (op # ops) as = Option.bind (abs_element A op as) (abs_elements A ops)"

lemma split_at_element:
  assumes "e \<in> set as" and "distinct as"
  obtains us vs where "as = us @ e # vs" "takeWhile (\<lambda>b. b \<noteq> e) as = us" "dropWhile (\<lambda>b. b \<noteq> e) as = e # vs" "remove1 e as = us @ vs"
proof -
  from assms(1) obtain us vs where as: "as = us @ e # vs" by (auto dest: split_list)
  with assms(2) have "e \<notin> set us" by auto
  then have "takeWhile (\<lambda>b. b \<noteq> e) as = us" "dropWhile (\<lambda>b. b \<noteq> e) as = e # vs" "remove1 e as = us @ vs"
    unfolding as by (induction us) auto
  with as that show thesis by blast
qed

section \<open>The contract\<close>

text \<open>A family of macros: \<open>rep h head as\<close> says that \<open>head\<close> points to the list with the nodes
  \<open>as\<close>, and \<open>data\<close> reads the payload of a node.\<close>

record 'n list_macros =
  m_prepend :: "(nat \<rightharpoonup> 'n) \<Rightarrow> nat option \<Rightarrow> nat \<Rightarrow> ((nat \<rightharpoonup> 'n) \<times> nat option) option"
  m_append :: "(nat \<rightharpoonup> 'n) \<Rightarrow> nat option \<Rightarrow> nat \<Rightarrow> ((nat \<rightharpoonup> 'n) \<times> nat option) option"
  m_delete :: "(nat \<rightharpoonup> 'n) \<Rightarrow> nat option \<Rightarrow> nat \<Rightarrow> ((nat \<rightharpoonup> 'n) \<times> nat option) option"
  m_replace :: "(nat \<rightharpoonup> 'n) \<Rightarrow> nat option \<Rightarrow> nat \<Rightarrow> nat \<Rightarrow> ((nat \<rightharpoonup> 'n) \<times> nat option) option"
  m_prepend_elem :: "(nat \<rightharpoonup> 'n) \<Rightarrow> nat option \<Rightarrow> nat option \<Rightarrow> nat \<Rightarrow> ((nat \<rightharpoonup> 'n) \<times> nat option) option"
  m_append_elem :: "(nat \<rightharpoonup> 'n) \<Rightarrow> nat option \<Rightarrow> nat option \<Rightarrow> nat \<Rightarrow> ((nat \<rightharpoonup> 'n) \<times> nat option) option"

fun run_element :: "'n list_macros \<Rightarrow> element_op \<Rightarrow> (nat \<rightharpoonup> 'n) \<times> nat option \<Rightarrow> ((nat \<rightharpoonup> 'n) \<times> nat option) option" where
  "run_element M (Prepend a) (h, head) = m_prepend M h head a"
| "run_element M (Append a) (h, head) = m_append M h head a"
| "run_element M (Delete d) (h, head) = m_delete M h head d"
| "run_element M (Replace e a) (h, head) = m_replace M h head e a"
| "run_element M (Prepend_Elem e a) (h, head) = m_prepend_elem M h head (Some e) a"
| "run_element M (Append_Elem e a) (h, head) = m_append_elem M h head (Some e) a"

fun run_elements :: "'n list_macros \<Rightarrow> element_op list \<Rightarrow> (nat \<rightharpoonup> 'n) \<times> nat option \<Rightarrow> ((nat \<rightharpoonup> 'n) \<times> nat option) option" where
  "run_elements M [] s = Some s"
| "run_elements M (op # ops) s = Option.bind (run_element M op s) (run_elements M ops)"

definition payload :: "('n \<Rightarrow> 'a) \<Rightarrow> (nat \<rightharpoonup> 'n) \<Rightarrow> nat \<rightharpoonup> 'a" where
  "payload data h = map_option data \<circ> h"

lemma dom_payload [simp]: "dom (payload data h) = dom h"
  by (auto simp: payload_def dom_def)

lemma payload_apply [simp]: "payload data h a = map_option data (h a)"
  by (simp add: payload_def)

text \<open>The result of a macro: it returns, and the list and the payloads are as expected.\<close>

definition gives ::
  "((nat \<rightharpoonup> 'n) \<Rightarrow> nat option \<Rightarrow> nat list \<Rightarrow> bool) \<Rightarrow> ('n \<Rightarrow> 'a) \<Rightarrow> (nat \<rightharpoonup> 'n)
    \<Rightarrow> ((nat \<rightharpoonup> 'n) \<times> nat option) option \<Rightarrow> nat list \<Rightarrow> bool" where
  "gives rep data h r as \<longleftrightarrow> (\<exists>h' head'. r = Some (h', head') \<and> rep h' head' as \<and> payload data h' = payload data h)"

locale element_list =
  fixes rep :: "(nat \<rightharpoonup> 'n) \<Rightarrow> nat option \<Rightarrow> nat list \<Rightarrow> bool"
    and data :: "'n \<Rightarrow> 'a"
    and M :: "'n list_macros"
  assumes rep_nodes: "rep h head as \<Longrightarrow> distinct as \<and> set as \<subseteq> dom h"
    and rep_prepend: "\<lbrakk>rep h head as; a \<in> dom h; a \<notin> set as\<rbrakk> \<Longrightarrow> gives rep data h (m_prepend M h head a) (a # as)"
    and rep_append: "\<lbrakk>rep h head as; a \<in> dom h; a \<notin> set as\<rbrakk> \<Longrightarrow> gives rep data h (m_append M h head a) (as @ [a])"
    and rep_delete: "rep h head (us @ d # vs) \<Longrightarrow> gives rep data h (m_delete M h head d) (us @ vs)"
    and rep_replace: "\<lbrakk>rep h head (us @ e # vs); a \<in> dom h; a \<notin> set (us @ e # vs)\<rbrakk>
      \<Longrightarrow> gives rep data h (m_replace M h head e a) (us @ a # vs)"
    and rep_prepend_elem: "\<lbrakk>rep h head (us @ e # vs); a \<in> dom h; a \<notin> set (us @ e # vs)\<rbrakk>
      \<Longrightarrow> gives rep data h (m_prepend_elem M h head (Some e) a) (us @ a # e # vs)"
    and rep_append_elem: "\<lbrakk>rep h head (us @ e # vs); a \<in> dom h; a \<notin> set (us @ e # vs)\<rbrakk>
      \<Longrightarrow> gives rep data h (m_append_elem M h head (Some e) a) (us @ e # a # vs)"
begin

lemma run_element_gives:
  assumes "rep h head as" and "abs_element (dom h) op as = Some as'"
  shows "gives rep data h (run_element M op (h, head)) as'"
proof -
  have d: "distinct as" using rep_nodes [OF assms(1)] by blast
  show ?thesis
  proof (cases op)
    case (Prepend a)
    with assms rep_prepend [OF assms(1), of a] show ?thesis by (simp split: if_splits)
  next
    case (Append a)
    with assms rep_append [OF assms(1), of a] show ?thesis by (simp split: if_splits)
  next
    case (Delete e)
    with assms(2) have "e \<in> set as" by (simp split: if_splits)
    then obtain us vs where s: "as = us @ e # vs" "remove1 e as = us @ vs" using d by (rule split_at_element)
    with rep_delete [of h head us e vs] assms Delete show ?thesis by simp
  next
    case (Replace e a)
    with assms(2) have e: "e \<in> set as" "a \<in> dom h" "a \<notin> set as" by (simp_all split: if_splits)
    from e(1) d obtain us vs where s: "as = us @ e # vs" "takeWhile (\<lambda>b. b \<noteq> e) as = us" "dropWhile (\<lambda>b. b \<noteq> e) as = e # vs"
      by (rule split_at_element)
    from e s Replace assms(2) have "as' = us @ a # vs" by simp
    with rep_replace [of h head us e vs a] assms(1) e s(1) Replace show ?thesis by simp
  next
    case (Prepend_Elem e a)
    with assms(2) have e: "e \<in> set as" "a \<in> dom h" "a \<notin> set as" by (simp_all split: if_splits)
    from e(1) d obtain us vs where s: "as = us @ e # vs" "takeWhile (\<lambda>b. b \<noteq> e) as = us" "dropWhile (\<lambda>b. b \<noteq> e) as = e # vs"
      by (rule split_at_element)
    from e s Prepend_Elem assms(2) have "as' = us @ a # e # vs" by simp
    with rep_prepend_elem [of h head us e vs a] assms(1) e s(1) Prepend_Elem show ?thesis by simp
  next
    case (Append_Elem e a)
    with assms(2) have e: "e \<in> set as" "a \<in> dom h" "a \<notin> set as" by (simp_all split: if_splits)
    from e(1) d obtain us vs where s: "as = us @ e # vs" "takeWhile (\<lambda>b. b \<noteq> e) as = us" "dropWhile (\<lambda>b. b \<noteq> e) as = e # vs"
      by (rule split_at_element)
    from e s Append_Elem assms(2) have "as' = us @ e # a # vs" by simp
    with rep_append_elem [of h head us e vs a] assms(1) e s(1) Append_Elem show ?thesis by simp
  qed
qed

lemma run_elements_gives:
  assumes "rep h head as" and "abs_elements (dom h) ops as = Some as'"
  shows "gives rep data h (run_elements M ops (h, head)) as'"
  using assms
proof (induction ops arbitrary: h head as)
  case Nil
  then show ?case by (simp add: gives_def)
next
  case (Cons op ops)
  from Cons.prems(2) obtain as1 where as1: "abs_element (dom h) op as = Some as1" "abs_elements (dom h) ops as1 = Some as'"
    by (auto simp: bind_eq_Some_conv)
  from run_element_gives [OF Cons.prems(1) as1(1)] obtain h1 head1
    where r: "run_element M op (h, head) = Some (h1, head1)" "rep h1 head1 as1" "payload data h1 = payload data h"
    by (auto simp: gives_def)
  from r(3) have "dom h1 = dom h" by (metis dom_payload)
  with Cons.IH [OF r(2)] as1(2) r show ?case by (auto simp: gives_def)
qed

end

section \<open>Lists in order\<close>

text \<open>The sign of the comparison function of the caller follows an order of the library.\<close>

definition follows :: "('a \<Rightarrow> 'a \<Rightarrow> int) \<Rightarrow> 'a comparator \<Rightarrow> bool" where
  "follows cmp c \<longleftrightarrow> (\<forall>x y. (cmp x y < 0 \<longleftrightarrow> compare c x y = Less) \<and> (cmp x y > 0 \<longleftrightarrow> compare c x y = Greater))"

lemma follows_le: "follows cmp c \<Longrightarrow> cmp x y \<le> 0 \<longleftrightarrow> compare c x y \<noteq> Greater"
  by (simp add: follows_def flip: not_less)

lemma integers_follow: "follows (\<lambda>x y. x - y) (default :: int comparator)"
  by (auto simp: follows_def)

text \<open>The order of the nodes is the order of their payloads.\<close>

abbreviation by_data :: "('n \<Rightarrow> 'a) \<Rightarrow> (nat \<rightharpoonup> 'n) \<Rightarrow> 'a comparator \<Rightarrow> nat comparator" where
  "by_data data h c \<equiv> key (\<lambda>a. the (payload data h a)) c"

text \<open>The nodes of a list before the first that is not below a value.\<close>

definition below :: "('n \<Rightarrow> 'a) \<Rightarrow> ('a \<Rightarrow> 'a \<Rightarrow> int) \<Rightarrow> (nat \<rightharpoonup> 'n) \<Rightarrow> 'a \<Rightarrow> nat list \<Rightarrow> nat list" where
  "below data cmp h v as = takeWhile (\<lambda>b. cmp (the (payload data h b)) v < 0) as"

lemma insort_below:
  assumes "follows cmp c" and "h a = Some n"
  shows "Sorting_Algorithms.insort (by_data data h c) a as
    = below data cmp h (data n) as @ a # drop (length (below data cmp h (data n) as)) as"
  using assms by (induction as) (auto simp: below_def follows_def compare.less_iff_sym_greater)

locale ordered_list = element_list +
  fixes lower :: "('b \<Rightarrow> 'b \<Rightarrow> int) \<Rightarrow> (nat \<rightharpoonup> 'a) \<Rightarrow> nat option \<Rightarrow> 'b \<Rightarrow> nat option option"
    and insert_inorder :: "('b \<Rightarrow> 'b \<Rightarrow> int) \<Rightarrow> (nat \<rightharpoonup> 'a) \<Rightarrow> nat option \<Rightarrow> nat \<Rightarrow> ((nat \<rightharpoonup> 'a) \<times> nat option) option"
  assumes lower_below: "rep h head as \<Longrightarrow> lower cmp h head v
      = Some (if below data cmp h v as = [] then None else Some (last (below data cmp h v as)))"
    and append_elem_none: "\<lbrakk>rep h head as; a \<in> dom h; a \<notin> set as\<rbrakk> \<Longrightarrow> gives rep data h (m_append_elem M h head None a) (a # as)"
    and insert_empty: "\<lbrakk>rep h head []; a \<in> dom h\<rbrakk> \<Longrightarrow> gives rep data h (insert_inorder cmp h head a) [a]"
    and insert_nonempty: "\<lbrakk>rep h head as; as \<noteq> []; h a = Some n\<rbrakk> \<Longrightarrow>
      insert_inorder cmp h head a = Option.bind (lower cmp h head (data n)) (\<lambda>e. m_append_elem M h head e a)"
begin

lemma insert_inorder_gives:
  assumes "follows cmp c" and "rep h head as" and "a \<in> dom h" and "a \<notin> set as"
  shows "gives rep data h (insert_inorder cmp h head a) (Sorting_Algorithms.insort (by_data data h c) a as)"
proof (cases "as = []")
  case True
  with insert_empty [of h head a] assms show ?thesis by simp
next
  case False
  from assms(3) obtain n where n: "h a = Some n" by auto
  let ?lo = "below data cmp h (data n) as"
  note steps = insert_nonempty [OF assms(2) False n] lower_below [OF assms(2)] insort_below [where h = h and a = a, OF assms(1) n, of data as]
  show ?thesis
  proof (cases "?lo = []")
    case True
    with steps append_elem_none [OF assms(2-4)] show ?thesis by simp
  next
    case False
    then obtain us e where lo: "?lo = us @ [e]" by (cases ?lo rule: rev_cases) auto
    have "as = ?lo @ drop (length ?lo) as" unfolding below_def by (metis append_take_drop_id takeWhile_eq_take)
    then have as: "as = us @ e # drop (length ?lo) as" using lo by simp
    have "gives rep data h (m_append_elem M h head (Some e) a) (us @ e # a # drop (length ?lo) as)"
      using assms(2-4) by (intro rep_append_elem) (simp_all flip: as)
    with False steps lo show ?thesis by simp
  qed
qed

end

end
