(* ===== verification/Utlist_Elements.thy ===== *)
theory Utlist_Elements
  imports Utlist List_Contract
begin

text \<open>
  The macros of \<^verbatim>\<open>json-rpc-common/utlist.h\<close> that work at an element of a singly linked list
  (searching, replacing, inserting before or behind an element and in order), and the variants
  of the header for compilers without \<^verbatim>\<open>decltype\<close>. A failed \<^verbatim>\<open>assert\<close> is a fault.
\<close>

section \<open>The macros\<close>

definition LL_SEARCH_SCALAR2 :: "'a heap \<Rightarrow> nat option \<Rightarrow> ('a \<Rightarrow> 'b) \<Rightarrow> 'b \<Rightarrow> nat option option" where
  "LL_SEARCH_SCALAR2 h head field val = ll_find h (\<lambda>x. field x = val) head"

definition LL_SEARCH2 :: "('a \<Rightarrow> 'b \<Rightarrow> int) \<Rightarrow> 'a heap \<Rightarrow> nat option \<Rightarrow> 'b \<Rightarrow> nat option option" where
  "LL_SEARCH2 cmp h head elt = ll_find h (\<lambda>x. cmp x elt = 0) head"

text \<open>The loops to the predecessor of an element and, when it has one, the step that puts
  \<^verbatim>\<open>add\<close> behind the predecessor.\<close>

definition ll_link_pred :: "'a heap \<Rightarrow> nat option \<Rightarrow> nat \<Rightarrow> nat \<Rightarrow> ('a heap \<times> nat option) option" where
  "ll_link_pred h head el add =
     Option.bind head (\<lambda>p.
     Option.bind (ll_pred h p el) (\<lambda>t.
     Option.bind (ll_next h t) (\<lambda>q.
       if q \<noteq> None then map_option (\<lambda>h'. (h', head)) (ll_set_next h t (Some add)) else Some (h, head))))"

definition LL_REPLACE_ELEM2 :: "'a heap \<Rightarrow> nat option \<Rightarrow> nat \<Rightarrow> nat \<Rightarrow> ('a heap \<times> nat option) option" where
  "LL_REPLACE_ELEM2 h head el add =
     (if head = None then None
      else
        Option.bind (ll_next h el) (\<lambda>n.
        Option.bind (ll_set_next h add n) (\<lambda>h.
          if head = Some el then Some (h, Some add) else ll_link_pred h head el add)))"

definition LL_PREPEND_ELEM2 :: "'a heap \<Rightarrow> nat option \<Rightarrow> nat option \<Rightarrow> nat \<Rightarrow> ('a heap \<times> nat option) option" where
  "LL_PREPEND_ELEM2 h head el add =
     (case el of
        Some e \<Rightarrow>
          if head = None then None
          else Option.bind (ll_set_next h add el) (\<lambda>h.
            if head = el then Some (h, Some add) else ll_link_pred h head e add)
      | None \<Rightarrow> LL_APPEND2 h head add)"

definition LL_APPEND_ELEM2 :: "'a heap \<Rightarrow> nat option \<Rightarrow> nat option \<Rightarrow> nat \<Rightarrow> ('a heap \<times> nat option) option" where
  "LL_APPEND_ELEM2 h head el add =
     (case el of
        Some e \<Rightarrow>
          if head = None then None
          else
            Option.bind (ll_next h e) (\<lambda>n.
            Option.bind (ll_set_next h add n) (\<lambda>h.
              map_option (\<lambda>h'. (h', head)) (ll_set_next h e (Some add))))
      | None \<Rightarrow> LL_PREPEND2 h head add)"

text \<open>The last element below \<^verbatim>\<open>like\<close> of a list in order.\<close>

partial_function (option) lower_loop :: "('a \<Rightarrow> 'a \<Rightarrow> int) \<Rightarrow> 'a heap \<Rightarrow> 'a \<Rightarrow> nat \<Rightarrow> nat option" where
  "lower_loop cmp h like elt =
     Option.bind (ll_next h elt) (\<lambda>q.
       case q of
         None \<Rightarrow> Some elt
       | Some r \<Rightarrow> Option.bind (h r) (\<lambda>n. if cmp (fst n) like \<ge> 0 then Some elt else lower_loop cmp h like r))"

definition LL_LOWER_BOUND2 :: "('a \<Rightarrow> 'a \<Rightarrow> int) \<Rightarrow> 'a heap \<Rightarrow> nat option \<Rightarrow> 'a \<Rightarrow> nat option option" where
  "LL_LOWER_BOUND2 cmp h head like =
     (case head of
        None \<Rightarrow> Some None
      | Some p \<Rightarrow> Option.bind (h p) (\<lambda>n.
          if cmp (fst n) like \<ge> 0 then Some None else map_option Some (lower_loop cmp h like p)))"

definition LL_INSERT_INORDER2 :: "('a \<Rightarrow> 'a \<Rightarrow> int) \<Rightarrow> 'a heap \<Rightarrow> nat option \<Rightarrow> nat \<Rightarrow> ('a heap \<times> nat option) option" where
  "LL_INSERT_INORDER2 cmp h head add =
     (case head of
        Some p \<Rightarrow>
          Option.bind (h add) (\<lambda>a.
          Option.bind (LL_LOWER_BOUND2 cmp h head (fst a)) (\<lambda>tmp. LL_APPEND_ELEM2 h head tmp add))
      | None \<Rightarrow> map_option (\<lambda>h'. (h', Some add)) (ll_set_next h add None))"

section \<open>The variants without decltype\<close>

text \<open>Two loops use \<^verbatim>\<open>add->next\<close> as their variable: every turn writes it.\<close>

partial_function (option) tail_in_add :: "'a heap \<Rightarrow> nat \<Rightarrow> 'a heap option" where
  "tail_in_add h add =
     Option.bind (Option.bind (ll_next h add) (\<lambda>t. Option.bind t (ll_next h))) (\<lambda>q.
       case q of
         None \<Rightarrow> Some h
       | Some r \<Rightarrow> Option.bind (ll_set_next h add (Some r)) (\<lambda>h. tail_in_add h add))"

partial_function (option) pred_in_add :: "'a heap \<Rightarrow> nat \<Rightarrow> nat \<Rightarrow> 'a heap option" where
  "pred_in_add h el add =
     Option.bind (Option.bind (ll_next h add) (\<lambda>t. Option.bind t (ll_next h))) (\<lambda>q.
       case q of
         None \<Rightarrow> Some h
       | Some r \<Rightarrow>
           if r = el then Some h
           else Option.bind (ll_set_next h add (Some r)) (\<lambda>h. pred_in_add h el add))"

definition LL_APPEND2_no_decltype :: "'a heap \<Rightarrow> nat option \<Rightarrow> nat \<Rightarrow> ('a heap \<times> nat option) option" where
  "LL_APPEND2_no_decltype h head add =
     Option.bind
       (case head of
          Some p \<Rightarrow>
            Option.bind (ll_set_next h add head) (\<lambda>h.
            Option.bind (tail_in_add h add) (\<lambda>h.
            Option.bind (Option.bind (ll_next h add) id) (\<lambda>t.
              map_option (\<lambda>h. (h, head)) (ll_set_next h t (Some add)))))
        | None \<Rightarrow> Some (h, Some add))
       (\<lambda>r. map_option (\<lambda>h. (h, snd r)) (ll_set_next (fst r) add None))"

text \<open>The part common to replacing and prepending: the list behind \<^verbatim>\<open>head\<close> up to the
  predecessor of \<^verbatim>\<open>el\<close>, which gets \<^verbatim>\<open>add\<close> behind it.\<close>

definition link_pred_in_add :: "'a heap \<Rightarrow> nat option \<Rightarrow> nat \<Rightarrow> nat \<Rightarrow> 'a heap option" where
  "link_pred_in_add h head el add =
     Option.bind (ll_set_next h add head) (\<lambda>h.
     Option.bind (pred_in_add h el add) (\<lambda>h.
     Option.bind (Option.bind (ll_next h add) id) (\<lambda>t.
     Option.bind (ll_next h t) (\<lambda>q.
       if q \<noteq> None then ll_set_next h t (Some add) else Some h))))"

definition LL_REPLACE_ELEM2_no_decltype :: "'a heap \<Rightarrow> nat option \<Rightarrow> nat \<Rightarrow> nat \<Rightarrow> ('a heap \<times> nat option) option" where
  "LL_REPLACE_ELEM2_no_decltype h head el add =
     (if head = None then None
      else
        Option.bind (if head = Some el then Some (h, Some add) else map_option (\<lambda>h. (h, head)) (link_pred_in_add h head el add)) (\<lambda>r.
        Option.bind (ll_next (fst r) el) (\<lambda>n.
          map_option (\<lambda>h. (h, snd r)) (ll_set_next (fst r) add n))))"

definition LL_PREPEND_ELEM2_no_decltype :: "'a heap \<Rightarrow> nat option \<Rightarrow> nat option \<Rightarrow> nat \<Rightarrow> ('a heap \<times> nat option) option" where
  "LL_PREPEND_ELEM2_no_decltype h head el add =
     (case el of
        Some e \<Rightarrow>
          if head = None then None
          else Option.bind (if head = el then Some (h, Some add) else map_option (\<lambda>h. (h, head)) (link_pred_in_add h head e add)) (\<lambda>r.
            map_option (\<lambda>h. (h, snd r)) (ll_set_next (fst r) add el))
      | None \<Rightarrow> LL_APPEND2_no_decltype h head add)"

text \<open>The other variants walk with the head itself, \<open>walk\<close> below, and put it back.\<close>

definition LL_INSERT_INORDER2_no_decltype ::
  "('a \<Rightarrow> 'a \<Rightarrow> int) \<Rightarrow> 'a heap \<Rightarrow> nat option \<Rightarrow> nat \<Rightarrow> ('a heap \<times> nat option) option" where
  "LL_INSERT_INORDER2_no_decltype cmp h head add =
     (case head of
        None \<Rightarrow> map_option (\<lambda>h. (h, Some add)) (ll_set_next h add head)
      | Some p \<Rightarrow>
          Option.bind (h p) (\<lambda>n.
          Option.bind (h add) (\<lambda>a.
            if cmp (fst n) (fst a) \<ge> 0
            then map_option (\<lambda>h. (h, Some add)) (ll_set_next h add head)
            else
              Option.bind (lower_loop cmp h (fst a) p) (\<lambda>walk.
              Option.bind (ll_next h walk) (\<lambda>q.
              Option.bind (ll_set_next h add q) (\<lambda>h.
                map_option (\<lambda>h. (h, head)) (ll_set_next h walk (Some add))))))))"

section \<open>What the macros do\<close>

declare image_Un [simp]

text \<open>A list that is cut at an element which is not the first: the predecessor and the two
  pointers around it.\<close>

lemma ll_list_cutE:
  assumes "ll_list h head (ys @ (t, y) # (el, z) # vs)"
  obtains p n where "head = Some p" "p \<noteq> el" "ll_seg h head ys (Some t)" "h t = Some (y, Some el)" "h el = Some (z, n)" "ll_list h n vs"
    "t \<noteq> el" "t \<notin> addrs ys" "t \<notin> addrs vs" "el \<notin> addrs ys" "el \<notin> addrs vs"
proof -
  obtain p where p: "head = Some p" using assms by (cases head) auto
  have "p \<in> addrs (ys @ [(t, y)])" using assms p by (cases ys) auto
  with that p assms ll_list_distinct [OF assms] show thesis by auto
qed

lemma ll_link_pred_links:
  assumes "ll_list h head (ys @ (t, y) # (el, z) # vs)" and "add \<notin> addrs (ys @ (t, y) # (el, z) # vs)"
  shows "ll_link_pred (h(add \<mapsto> v)) head el add = Some (h(add \<mapsto> v, t \<mapsto> (y, Some add)), head)"
proof -
  from assms(1) obtain p where p: "head = Some p" "h t = Some (y, Some el)" by (rule ll_list_cutE)
  have "ll_list (h(add \<mapsto> v)) (Some p) (ys @ (t, y) # (el, z) # vs)"
    using assms p(1) by auto
  from ll_pred_before [OF this] p assms(2) show ?thesis by (simp add: ll_link_pred_def)
qed

text \<open>Where the three macros put \<^verbatim>\<open>add\<close>, with the heap they leave.\<close>

lemma LL_REPLACE_ELEM2_heap:
  assumes "ll_list h head (us @ (el, z) # vs)" and "h add = Some (x, m)" and "add \<notin> addrs (us @ (el, z) # vs)"
    and "h el = Some (z, n)"
  shows "LL_REPLACE_ELEM2 h head el add = (if us = [] then Some (h(add \<mapsto> (x, n)), Some add)
    else Some (h(add \<mapsto> (x, n), fst (last us) \<mapsto> (snd (last us), Some add)), head))"
proof (cases us rule: rev_cases)
  case Nil
  with assms show ?thesis by (simp add: LL_REPLACE_ELEM2_def)
next
  case (snoc ys l)
  obtain t y where l: "l = (t, y)" by (cases l)
  have list: "ll_list h head (ys @ (t, y) # (el, z) # vs)" "add \<notin> addrs (ys @ (t, y) # (el, z) # vs)"
    using assms(1,3) snoc l by simp_all
  from list(1) obtain p where "head = Some p" "p \<noteq> el" by (rule ll_list_cutE)
  with ll_link_pred_links [OF list, of "(x, n)"] assms(2,4) snoc l show ?thesis by (simp add: LL_REPLACE_ELEM2_def)
qed

lemma LL_PREPEND_ELEM2_heap:
  assumes "ll_list h head (us @ (el, z) # vs)" and "h add = Some (x, m)" and "add \<notin> addrs (us @ (el, z) # vs)"
  shows "LL_PREPEND_ELEM2 h head (Some el) add = (if us = [] then Some (h(add \<mapsto> (x, Some el)), Some add)
    else Some (h(add \<mapsto> (x, Some el), fst (last us) \<mapsto> (snd (last us), Some add)), head))"
proof (cases us rule: rev_cases)
  case Nil
  with assms show ?thesis by (simp add: LL_PREPEND_ELEM2_def)
next
  case (snoc ys l)
  obtain t y where l: "l = (t, y)" by (cases l)
  have list: "ll_list h head (ys @ (t, y) # (el, z) # vs)" "add \<notin> addrs (ys @ (t, y) # (el, z) # vs)"
    using assms(1,3) snoc l by simp_all
  from list(1) obtain p where "head = Some p" "p \<noteq> el" by (rule ll_list_cutE)
  with ll_link_pred_links [OF list, of "(x, Some el)"] assms(2) snoc l show ?thesis by (simp add: LL_PREPEND_ELEM2_def)
qed

text \<open>Putting \<^verbatim>\<open>add\<close> behind \<open>us\<close> and in front of \<open>ws\<close>, in such a heap.\<close>

lemma ll_insert_between:
  assumes "ll_seg h head us q" and "ll_list h n ws" and "add \<notin> addrs us" and "add \<notin> addrs ws"
    and "distinct (map fst us)" and "addrs us \<inter> addrs ws = {}"
  shows "ll_list (if us = [] then h(add \<mapsto> (x, n)) else h(add \<mapsto> (x, n), fst (last us) \<mapsto> (snd (last us), Some add)))
    (if us = [] then Some add else head) (us @ (add, x) # ws)"
proof (cases us rule: rev_cases)
  case Nil
  with assms show ?thesis by simp
next
  case (snoc ys l)
  obtain t y where l: "l = (t, y)" by (cases l)
  with assms snoc show ?thesis by auto
qed

lemma LL_REPLACE_ELEM2_replace:
  assumes "ll_list h head (us @ (el, z) # vs)" and "h add = Some (x, m)" and "add \<notin> addrs (us @ (el, z) # vs)"
  shows "\<exists>h' head'. LL_REPLACE_ELEM2 h head el add = Some (h', head') \<and> ll_list h' head' (us @ (add, x) # vs)"
proof -
  from assms(1) obtain n where n: "h el = Some (z, n)" "ll_seg h head us (Some el)" "ll_list h n vs" by auto
  have "distinct (map fst us)" "addrs us \<inter> addrs vs = {}" using ll_list_distinct [OF assms(1)] by auto
  with ll_insert_between [OF n(2,3), of add x] LL_REPLACE_ELEM2_heap [OF assms n(1)] assms(3) show ?thesis
    by (auto split: if_splits)
qed

lemma LL_PREPEND_ELEM2_prepend:
  assumes "ll_list h head (us @ (el, z) # vs)" and "h add = Some (x, m)" and "add \<notin> addrs (us @ (el, z) # vs)"
  shows "\<exists>h' head'. LL_PREPEND_ELEM2 h head (Some el) add = Some (h', head') \<and> ll_list h' head' (us @ (add, x) # (el, z) # vs)"
proof -
  from assms(1) have n: "ll_seg h head us (Some el)" "ll_list h (Some el) ((el, z) # vs)" by auto
  have "distinct (map fst us)" "addrs us \<inter> addrs ((el, z) # vs) = {}" using ll_list_distinct [OF assms(1)] by auto
  with ll_insert_between [OF n, of add x] LL_PREPEND_ELEM2_heap [OF assms] assms(3) show ?thesis
    by (auto split: if_splits)
qed

lemma LL_APPEND_ELEM2_heap:
  assumes "h el = Some (z, n)" and "h add = Some (x, m)" and "head \<noteq> None" and "add \<noteq> el"
  shows "LL_APPEND_ELEM2 h head (Some el) add = Some (h(add \<mapsto> (x, n), el \<mapsto> (z, Some add)), head)"
  using assms by (simp add: LL_APPEND_ELEM2_def)

lemma LL_APPEND_ELEM2_append:
  assumes "ll_list h head (us @ (el, z) # vs)" and "h add = Some (x, m)" and "add \<notin> addrs (us @ (el, z) # vs)"
  shows "\<exists>h' head'. LL_APPEND_ELEM2 h head (Some el) add = Some (h', head') \<and> ll_list h' head' (us @ (el, z) # (add, x) # vs)"
proof -
  from assms(1) obtain n where n: "h el = Some (z, n)" "ll_seg h head us (Some el)" "ll_list h n vs" by auto
  have d: "el \<notin> addrs us" "el \<notin> addrs vs" using ll_list_distinct [OF assms(1)] by auto
  have "head \<noteq> None" using n(2) by (cases head) auto
  then have "LL_APPEND_ELEM2 h head (Some el) add = Some (h(add \<mapsto> (x, n), el \<mapsto> (z, Some add)), head)"
    using LL_APPEND_ELEM2_heap [OF n(1) assms(2)] assms(3) by auto
  with n d assms(3) show ?thesis by auto
qed

section \<open>Inserting in order\<close>

lemma lower_loop_step:
  "h p = Some (x, Some r) \<Longrightarrow> h r = Some (y, n) \<Longrightarrow>
   lower_loop cmp h v p = (if cmp y v \<ge> 0 then Some p else lower_loop cmp h v r)"
  by (subst lower_loop.simps) simp

lemma lower_loop_end: "h p = Some (x, None) \<Longrightarrow> lower_loop cmp h v p = Some p"
  by (subst lower_loop.simps) simp

text \<open>The loop stops at the last node before which all are below \<open>v\<close>.\<close>

lemma lower_loop_last:
  assumes "ll_list h (Some p) ((p, y) # xs)"
  shows "lower_loop cmp h v p = Some (fst (last ((p, y) # takeWhile (\<lambda>n. cmp (snd n) v < 0) xs)))"
  using assms
proof (induction xs arbitrary: p y)
  case Nil
  then show ?case by (simp add: lower_loop_end)
next
  case (Cons n xs)
  then show ?case by (cases n) (auto simp: lower_loop_step)
qed

lemma LL_INSERT_INORDER2_cases:
  assumes "ll_list h (Some p) ((p, y) # ys)" and "h add = Some (x, m)"
  shows "LL_INSERT_INORDER2 cmp h (Some p) add =
    (if cmp y x \<ge> 0 then LL_PREPEND2 h (Some p) add
     else LL_APPEND_ELEM2 h (Some p) (Some (fst (last ((p, y) # takeWhile (\<lambda>n. cmp (snd n) x < 0) ys)))) add)"
proof -
  from assms(1) obtain n where "h p = Some (y, n)" by auto
  then show ?thesis using assms(2) lower_loop_last [OF assms(1), of cmp x]
    by (simp add: LL_INSERT_INORDER2_def LL_LOWER_BOUND2_def LL_APPEND_ELEM2_def)
qed

section \<open>The variants agree\<close>

lemma tail_in_add_step:
  "h add = Some (x, Some t) \<Longrightarrow> h t = Some (y, Some r) \<Longrightarrow> tail_in_add h add = tail_in_add (h(add \<mapsto> (x, Some r))) add"
  by (subst tail_in_add.simps) simp

lemma tail_in_add_end: "h add = Some (x, Some t) \<Longrightarrow> h t = Some (y, None) \<Longrightarrow> tail_in_add h add = Some h"
  by (subst tail_in_add.simps) simp

lemma tail_in_add_tail:
  "ll_list h (Some p) ((p, y) # xs) \<Longrightarrow> add \<notin> addrs ((p, y) # xs) \<Longrightarrow> h add = Some (x, Some p) \<Longrightarrow>
   tail_in_add h add = Some (h(add \<mapsto> (x, Some (fst (last ((p, y) # xs))))))"
proof (induction xs arbitrary: h p y)
  case Nil
  then show ?case by (simp add: tail_in_add_end fun_upd_idem)
next
  case (Cons n xs)
  obtain r z where n: "n = (r, z)" by (cases n)
  with Cons.prems have "h p = Some (y, Some r)" by simp
  from tail_in_add_step [OF Cons.prems(3) this] have step: "tail_in_add h add = tail_in_add (h(add \<mapsto> (x, Some r))) add" .
  have "ll_list (h(add \<mapsto> (x, Some r))) (Some r) ((r, z) # xs)" "add \<notin> addrs ((r, z) # xs)"
    "(h(add \<mapsto> (x, Some r))) add = Some (x, Some r)" using Cons.prems n by simp_all
  from Cons.IH [OF this] step show ?case using n by (simp only: fun_upd_upd last_ConsR) simp
qed

lemma pred_in_add_step:
  "h add = Some (x, Some t) \<Longrightarrow> h t = Some (y, Some r) \<Longrightarrow> r \<noteq> el \<Longrightarrow>
   pred_in_add h el add = pred_in_add (h(add \<mapsto> (x, Some r))) el add"
  by (subst pred_in_add.simps) simp

lemma pred_in_add_found: "h add = Some (x, Some t) \<Longrightarrow> h t = Some (y, Some el) \<Longrightarrow> pred_in_add h el add = Some h"
  by (subst pred_in_add.simps) simp

lemma pred_in_add_pred:
  "ll_list h (Some p) (ys @ (t, y) # (el, z) # vs) \<Longrightarrow> add \<notin> addrs (ys @ (t, y) # (el, z) # vs) \<Longrightarrow>
   h add = Some (x, Some p) \<Longrightarrow> pred_in_add h el add = Some (h(add \<mapsto> (x, Some t)))"
proof (induction ys arbitrary: h p)
  case Nil
  then show ?case by (simp add: pred_in_add_found fun_upd_idem)
next
  case (Cons n ys)
  let ?rest = "ys @ (t, y) # (el, z) # vs"
  from Cons.prems(1) obtain m where m: "p = fst n" "h p = Some (snd n, m)" "ll_list h m ?rest" by auto
  obtain r where r: "m = Some r" using m(3) by (cases m) auto
  have "r \<in> addrs (ys @ [(t, y)])" using m(3) r by (cases ys) auto
  moreover have "el \<notin> addrs (ys @ [(t, y)])" using ll_list_distinct [OF Cons.prems(1)] by auto
  ultimately have "r \<noteq> el" by auto
  from pred_in_add_step [OF Cons.prems(3) m(2) [unfolded r] this]
  have step: "pred_in_add h el add = pred_in_add (h(add \<mapsto> (x, Some r))) el add" .
  have "ll_list (h(add \<mapsto> (x, Some r))) (Some r) ?rest" "add \<notin> addrs ?rest"
    "(h(add \<mapsto> (x, Some r))) add = Some (x, Some r)" using Cons.prems m(3) r by auto
  from Cons.IH [OF this] step show ?case by (simp only: fun_upd_upd)
qed

lemma LL_APPEND2_no_decltype_eq:
  assumes "ll_list h head xs" and "h add = Some (x, n)" and "add \<notin> addrs xs"
  shows "LL_APPEND2_no_decltype h head add = LL_APPEND2 h head add"
proof (cases xs rule: rev_cases)
  case Nil
  with assms show ?thesis by (simp add: LL_APPEND2_def LL_APPEND2_no_decltype_def)
next
  case (snoc ys l)
  obtain t y where l: "l = (t, y)" by (cases l)
  have list: "ll_list h head (ys @ [(t, y)])" using assms(1) snoc l by simp
  from ll_list_snocE [OF list] have t: "h t = Some (y, None)" by simp
  have ne: "t \<noteq> add" using assms(3) snoc l by auto
  have "xs \<noteq> []" using snoc by simp
  then obtain p z zs where xs: "xs = (p, z) # zs" "head = Some p" using assms(1) by (cases xs) auto
  have pre: "ll_list (h(add \<mapsto> (x, head))) (Some p) ((p, z) # zs)" using assms xs by auto
  have pre': "add \<notin> addrs ((p, z) # zs)" using assms(3) xs by simp
  have "tail_in_add (h(add \<mapsto> (x, head))) add = Some (h(add \<mapsto> (x, Some t)))"
    using tail_in_add_tail [OF pre pre', of x] xs snoc l by (metis fun_upd_same fun_upd_upd fst_conv last_snoc)
  then have "LL_APPEND2_no_decltype h head add = Some (h(add \<mapsto> (x, None), t \<mapsto> (y, Some add)), head)"
    using assms xs t ne by (simp add: LL_APPEND2_no_decltype_def fun_upd_twist)
  then show ?thesis using LL_APPEND2_at_end [OF list assms(2)] assms(3) snoc l by simp
qed

lemma link_pred_in_add_heap:
  assumes "ll_list h head (ys @ (t, y) # (el, z) # vs)" and "h add = Some (x, m)"
    and "add \<notin> addrs (ys @ (t, y) # (el, z) # vs)"
  shows "link_pred_in_add h head el add = Some (h(add \<mapsto> (x, Some t), t \<mapsto> (y, Some add)))"
proof -
  from assms(1) obtain p where p: "head = Some p" "h t = Some (y, Some el)" by (rule ll_list_cutE)
  have pre: "ll_list (h(add \<mapsto> (x, head))) (Some p) (ys @ (t, y) # (el, z) # vs)" using assms p(1) by auto
  have "pred_in_add (h(add \<mapsto> (x, head))) el add = Some (h(add \<mapsto> (x, Some t)))"
    using pred_in_add_pred [OF pre assms(3), of x] p by (metis fun_upd_same fun_upd_upd)
  with assms p show ?thesis by (simp add: link_pred_in_add_def)
qed

lemma LL_REPLACE_ELEM2_no_decltype_eq:
  assumes "ll_list h head (us @ (el, z) # vs)" and "h add = Some (x, m)" and "add \<notin> addrs (us @ (el, z) # vs)"
  shows "LL_REPLACE_ELEM2_no_decltype h head el add = LL_REPLACE_ELEM2 h head el add"
proof -
  from assms(1) obtain n where n: "h el = Some (z, n)" by auto
  show ?thesis
  proof (cases us rule: rev_cases)
    case Nil
    with assms n show ?thesis by (auto simp: LL_REPLACE_ELEM2_def LL_REPLACE_ELEM2_no_decltype_def)
  next
    case (snoc ys l)
    obtain t y where l: "l = (t, y)" by (cases l)
    have list: "ll_list h head (ys @ (t, y) # (el, z) # vs)" "add \<notin> addrs (ys @ (t, y) # (el, z) # vs)"
      using assms(1,3) snoc l by simp_all
    from list(1) obtain p where p: "head = Some p" "p \<noteq> el" "t \<noteq> el" by (rule ll_list_cutE)
    have ne: "t \<noteq> add" "el \<noteq> add" using list(2) by auto
    from link_pred_in_add_heap [OF list(1) assms(2) list(2)] LL_REPLACE_ELEM2_heap [OF assms n] p ne n snoc l show ?thesis
      by (simp add: LL_REPLACE_ELEM2_no_decltype_def fun_upd_twist)
  qed
qed

lemma LL_PREPEND_ELEM2_no_decltype_eq:
  assumes "ll_list h head (us @ (el, z) # vs)" and "h add = Some (x, m)" and "add \<notin> addrs (us @ (el, z) # vs)"
  shows "LL_PREPEND_ELEM2_no_decltype h head (Some el) add = LL_PREPEND_ELEM2 h head (Some el) add"
proof (cases us rule: rev_cases)
  case Nil
  with assms show ?thesis by (auto simp: LL_PREPEND_ELEM2_def LL_PREPEND_ELEM2_no_decltype_def)
next
  case (snoc ys l)
  obtain t y where l: "l = (t, y)" by (cases l)
  have list: "ll_list h head (ys @ (t, y) # (el, z) # vs)" "add \<notin> addrs (ys @ (t, y) # (el, z) # vs)"
    using assms(1,3) snoc l by simp_all
  from list(1) obtain p where p: "head = Some p" "p \<noteq> el" by (rule ll_list_cutE)
  have ne: "t \<noteq> add" using list(2) by auto
  from link_pred_in_add_heap [OF list(1) assms(2) list(2)] LL_PREPEND_ELEM2_heap [OF assms] p ne snoc l show ?thesis
    by (simp add: LL_PREPEND_ELEM2_no_decltype_def fun_upd_twist)
qed

lemma LL_INSERT_INORDER2_no_decltype_eq:
  assumes "ll_list h head xs" and "h add = Some (x, m)"
  shows "LL_INSERT_INORDER2_no_decltype cmp h head add = LL_INSERT_INORDER2 cmp h head add"
proof (cases xs)
  case Nil
  with assms show ?thesis by (simp add: LL_INSERT_INORDER2_def LL_INSERT_INORDER2_no_decltype_def)
next
  case (Cons l ys)
  obtain p y where xs: "xs = (p, y) # ys" using Cons by (cases l) simp
  with assms obtain n where head: "head = Some p" "h p = Some (y, n)" "ll_list h (Some p) ((p, y) # ys)" by auto
  show ?thesis
    using head(1,2) assms(2) LL_INSERT_INORDER2_cases [OF head(3) assms(2), of cmp] lower_loop_last [OF head(3), of cmp x]
    by (simp add: LL_INSERT_INORDER2_no_decltype_def LL_PREPEND2_def LL_APPEND_ELEM2_def)
qed

section \<open>The contract of the lists\<close>

text \<open>A list known by the addresses of its nodes.\<close>

definition nodes_of :: "'a heap \<Rightarrow> nat list \<Rightarrow> (nat \<times> 'a) list" where
  "nodes_of h as = map (\<lambda>a. (a, the (payload fst h a))) as"

definition ll_chain :: "'a heap \<Rightarrow> nat option \<Rightarrow> nat list \<Rightarrow> bool" where
  "ll_chain h head as \<longleftrightarrow> ll_list h head (nodes_of h as)"

lemma nodes_of_simps [simp]:
  "nodes_of h [] = []" "nodes_of h (a # as) = (a, the (payload fst h a)) # nodes_of h as"
  "nodes_of h (as @ bs) = nodes_of h as @ nodes_of h bs" "map fst (nodes_of h as) = as" "addrs (nodes_of h as) = set as"
  "nodes_of h as = [] \<longleftrightarrow> as = []"
  by (simp_all add: nodes_of_def image_image o_def)

lemma nodes_of_list: "ll_seg h p xs q \<Longrightarrow> nodes_of h (map fst xs) = xs"
  by (induction xs arbitrary: p) auto

lemma ll_chain_nodes: "ll_chain h head as \<Longrightarrow> distinct as \<and> set as \<subseteq> dom h"
  unfolding ll_chain_def using ll_list_distinct [of h head "nodes_of h as"] ll_seg_nodes_dom [of h head "nodes_of h as" None] by simp

text \<open>The macros write \<^verbatim>\<open>next\<close> pointers only.\<close>

lemma ll_set_next_payload: "ll_set_next h p q = Some h' \<Longrightarrow> payload fst h' = payload fst h"
  by (rule ext) (auto simp: ll_set_next_def)

lemma LL_macros_payload:
  "LL_PREPEND2 h head a = Some (h', head') \<Longrightarrow> payload fst h' = payload fst h"
  "LL_APPEND2 h head a = Some (h', head') \<Longrightarrow> payload fst h' = payload fst h"
  "LL_DELETE2 h head a = Some (h', head') \<Longrightarrow> payload fst h' = payload fst h"
  "LL_REPLACE_ELEM2 h head e a = Some (h', head') \<Longrightarrow> payload fst h' = payload fst h"
  "LL_PREPEND_ELEM2 h head (Some e) a = Some (h', head') \<Longrightarrow> payload fst h' = payload fst h"
  "LL_APPEND_ELEM2 h head e' a = Some (h', head') \<Longrightarrow> payload fst h' = payload fst h"
  by (auto simp: LL_PREPEND2_def LL_APPEND2_def LL_DELETE2_def LL_REPLACE_ELEM2_def LL_PREPEND_ELEM2_def LL_APPEND_ELEM2_def
      ll_link_pred_def bind_eq_Some_conv split: option.splits if_splits dest!: ll_set_next_payload)

lemma ll_gives:
  assumes "\<exists>h' head'. r = Some (h', head') \<and> ll_list h' head' xs"
    and "\<And>h' head'. r = Some (h', head') \<Longrightarrow> payload fst h' = payload fst h"
  shows "gives ll_chain fst h r (map fst xs)"
proof -
  from assms(1) obtain h' head' where r: "r = Some (h', head')" "ll_list h' head' xs" by (elim exE conjE)
  from nodes_of_list [OF r(2)] r(2) have "ll_chain h' head' (map fst xs)" by (simp add: ll_chain_def)
  with r(1) assms(2) show ?thesis unfolding gives_def by blast
qed

definition LL_macros :: "('a \<times> nat option) list_macros" where
  "LL_macros = \<lparr>m_prepend = LL_PREPEND2, m_append = LL_APPEND2, m_delete = LL_DELETE2, m_replace = LL_REPLACE_ELEM2,
     m_prepend_elem = LL_PREPEND_ELEM2, m_append_elem = LL_APPEND_ELEM2\<rparr>"

lemma LL_PREPEND2_prepend:
  assumes "ll_list h head xs" and "h add = Some (x, m)" and "add \<notin> addrs xs"
  shows "\<exists>h' head'. LL_PREPEND2 h head add = Some (h', head') \<and> ll_list h' head' ((add, x) # xs)"
  using assms by (simp add: LL_PREPEND2_def)

interpretation ll_elements: element_list ll_chain fst LL_macros
proof unfold_locales
  fix h :: "'a heap" and head as
  assume rep: "ll_chain h head as"
  then show "distinct as \<and> set as \<subseteq> dom h" by (rule ll_chain_nodes)
  fix a assume "a \<in> dom h" "a \<notin> set as"
  then obtain x m where a: "h a = Some (x, m)" "a \<notin> addrs (nodes_of h as)" by auto
  note rep = rep [unfolded ll_chain_def]
  from ll_gives [OF LL_PREPEND2_prepend [OF rep a] LL_macros_payload(1)]
  show "gives ll_chain fst h (m_prepend LL_macros h head a) (a # as)" by (simp add: LL_macros_def)
  have "\<exists>h' head'. LL_APPEND2 h head a = Some (h', head') \<and> ll_list h' head' (nodes_of h as @ [(a, x)])"
    using LL_APPEND2_append [OF rep a] by blast
  from ll_gives [OF this LL_macros_payload(2)]
  show "gives ll_chain fst h (m_append LL_macros h head a) (as @ [a])" by (simp add: LL_macros_def)
next
  fix h :: "'a heap" and head us e vs
  assume rep: "ll_chain h head (us @ e # vs)"
  note rep = rep [unfolded ll_chain_def nodes_of_simps]
  have "\<exists>h' head'. LL_DELETE2 h head e = Some (h', head') \<and> ll_list h' head' (nodes_of h us @ nodes_of h vs)"
    using LL_DELETE2_delete [OF rep] by blast
  from ll_gives [OF this LL_macros_payload(3)]
  show "gives ll_chain fst h (m_delete LL_macros h head e) (us @ vs)" by (simp add: LL_macros_def)
  fix a assume "a \<in> dom h" "a \<notin> set (us @ e # vs)"
  then obtain x m where a: "h a = Some (x, m)" "a \<notin> addrs (nodes_of h us @ (e, the (payload fst h e)) # nodes_of h vs)" by auto
  from ll_gives [OF LL_REPLACE_ELEM2_replace [OF rep a] LL_macros_payload(4)]
  show "gives ll_chain fst h (m_replace LL_macros h head e a) (us @ a # vs)" by (simp add: LL_macros_def)
  from ll_gives [OF LL_PREPEND_ELEM2_prepend [OF rep a] LL_macros_payload(5)]
  show "gives ll_chain fst h (m_prepend_elem LL_macros h head (Some e) a) (us @ a # e # vs)" by (simp add: LL_macros_def)
  from ll_gives [OF LL_APPEND_ELEM2_append [OF rep a] LL_macros_payload(6)]
  show "gives ll_chain fst h (m_append_elem LL_macros h head (Some e) a) (us @ e # a # vs)" by (simp add: LL_macros_def)
qed

text \<open>The lower bound of a list and the insertion in order.\<close>

lemma takeWhile_nodes_of:
  "takeWhile (\<lambda>n. cmp (snd n) v < 0) (nodes_of h as) = nodes_of h (below fst cmp h v as)"
  by (induction as) (simp_all add: below_def)

lemma LL_LOWER_BOUND2_below:
  assumes "ll_chain h head as"
  shows "LL_LOWER_BOUND2 cmp h head v = Some (if below fst cmp h v as = [] then None else Some (last (below fst cmp h v as)))"
proof (cases as)
  case Nil
  with assms show ?thesis by (simp add: LL_LOWER_BOUND2_def ll_chain_def below_def)
next
  case (Cons p bs)
  then obtain n where list: "head = Some p" "h p = Some (the (payload fst h p), n)" "ll_list h (Some p) ((p, the (payload fst h p)) # nodes_of h bs)"
    using assms by (auto simp: ll_chain_def)
  have "fst (last (nodes_of h cs)) = last cs" if "cs \<noteq> []" for cs using that by (simp add: nodes_of_def last_map)
  with list Cons lower_loop_last [OF list(3), of cmp v] show ?thesis
    by (simp add: LL_LOWER_BOUND2_def takeWhile_nodes_of below_def del: payload_apply)
qed

interpretation ll_ordered: ordered_list ll_chain fst LL_macros LL_LOWER_BOUND2 LL_INSERT_INORDER2
proof unfold_locales
  fix h :: "'a heap" and head as cmp v
  assume rep: "ll_chain h head as"
  then show "LL_LOWER_BOUND2 cmp h head v = Some (if below fst cmp h v as = [] then None else Some (last (below fst cmp h v as)))"
    by (rule LL_LOWER_BOUND2_below)
  fix a
  {
    assume a: "a \<in> dom h" "a \<notin> set as"
    from ll_elements.rep_prepend [OF rep a]
    show "gives ll_chain fst h (m_append_elem LL_macros h head None a) (a # as)"
      by (simp add: LL_macros_def LL_APPEND_ELEM2_def)
  next
    fix n assume "as \<noteq> []" "h a = Some n"
    with rep show "LL_INSERT_INORDER2 cmp h head a =
        Option.bind (LL_LOWER_BOUND2 cmp h head (fst n)) (\<lambda>e. m_append_elem LL_macros h head e a)"
      by (cases as) (auto simp: ll_chain_def LL_INSERT_INORDER2_def LL_macros_def)
  }
next
  fix h :: "'a heap" and head a and cmp :: "'a \<Rightarrow> 'a \<Rightarrow> int"
  assume rep: "ll_chain h head []" and a: "a \<in> dom h"
  then have "LL_INSERT_INORDER2 cmp h head a = m_prepend LL_macros h head a"
    by (simp add: ll_chain_def LL_INSERT_INORDER2_def LL_macros_def LL_PREPEND2_def)
  with ll_elements.rep_prepend [OF rep a] show "gives ll_chain fst h (LL_INSERT_INORDER2 cmp h head a) [a]" by simp
qed

section \<open>The variants without decltype\<close>

text \<open>
  The variants for compilers without \<^verbatim>\<open>decltype\<close> are equivalent to the macros they
  replace. On a list and a node outside it, appending, inserting in order, replacing an element
  and inserting before an element leave the same heap and the same head, although the variants
  use the \<^verbatim>\<open>next\<close> field of the new node, or the head, as their loop variable.
\<close>

lemma no_decltype_variants_agree:
  assumes "ll_list h head (us @ (el, z) # vs)" and "h add = Some (x, m)" and "add \<notin> addrs (us @ (el, z) # vs)"
  shows "LL_APPEND2_no_decltype h head add = LL_APPEND2 h head add
    \<and> LL_INSERT_INORDER2_no_decltype cmp h head add = LL_INSERT_INORDER2 cmp h head add
    \<and> LL_REPLACE_ELEM2_no_decltype h head el add = LL_REPLACE_ELEM2 h head el add
    \<and> LL_PREPEND_ELEM2_no_decltype h head (Some el) add = LL_PREPEND_ELEM2 h head (Some el) add"
  using LL_APPEND2_no_decltype_eq [OF assms] LL_INSERT_INORDER2_no_decltype_eq [OF assms(1,2), of cmp]
    LL_REPLACE_ELEM2_no_decltype_eq [OF assms] LL_PREPEND_ELEM2_no_decltype_eq [OF assms] by (intro conjI)

end
