(* ===== verification/Utlist_Double.thy ===== *)
theory Utlist_Double
  imports List_Contract "HOL-Library.Monad_Syntax"
begin

text \<open>
  The doubly linked lists of \<^verbatim>\<open>json-rpc-common/utlist.h\<close> (the \<^verbatim>\<open>DL_\<close> macros): the
  \<^verbatim>\<open>next\<close> pointers end with NULL, the \<^verbatim>\<open>prev\<close> pointer of the head leads to the last node.
  The macros are written statement by statement; a step on memory that is not allocated, or a
  failed \<^verbatim>\<open>assert\<close>, is \<open>None\<close>.
\<close>

section \<open>Nodes\<close>

record 'a dnode =
  dn_data :: 'a
  dn_prev :: "nat option"
  dn_next :: "nat option"

type_synonym 'a dheap = "nat \<rightharpoonup> 'a dnode"

definition dl_prev :: "'a dheap \<Rightarrow> nat \<Rightarrow> nat option option" where
  "dl_prev h a = map_option dn_prev (h a)"

definition dl_next :: "'a dheap \<Rightarrow> nat \<Rightarrow> nat option option" where
  "dl_next h a = map_option dn_next (h a)"

definition upd_prev :: "'a dheap \<Rightarrow> nat \<Rightarrow> nat option \<Rightarrow> 'a dheap" where
  "upd_prev h a p = h(a := map_option (\<lambda>n. n\<lparr>dn_prev := p\<rparr>) (h a))"

definition upd_next :: "'a dheap \<Rightarrow> nat \<Rightarrow> nat option \<Rightarrow> 'a dheap" where
  "upd_next h a p = h(a := map_option (\<lambda>n. n\<lparr>dn_next := p\<rparr>) (h a))"

definition dl_set_prev :: "'a dheap \<Rightarrow> nat \<Rightarrow> nat option \<Rightarrow> 'a dheap option" where
  "dl_set_prev h a p = (case h a of None \<Rightarrow> None | Some _ \<Rightarrow> Some (upd_prev h a p))"

definition dl_set_next :: "'a dheap \<Rightarrow> nat \<Rightarrow> nat option \<Rightarrow> 'a dheap option" where
  "dl_set_next h a p = (case h a of None \<Rightarrow> None | Some _ \<Rightarrow> Some (upd_next h a p))"

section \<open>The macros\<close>

definition DL_PREPEND2 :: "'a dheap \<Rightarrow> nat option \<Rightarrow> nat \<Rightarrow> ('a dheap \<times> nat option) option" where
  "DL_PREPEND2 h head add = do {
     h \<leftarrow> dl_set_next h add head;
     h \<leftarrow> (case head of
             Some p \<Rightarrow> do {
               r \<leftarrow> dl_prev h p;
               h \<leftarrow> dl_set_prev h add r;
               dl_set_prev h p (Some add)
             }
           | None \<Rightarrow> dl_set_prev h add (Some add));
     Some (h, Some add)
   }"

definition DL_APPEND2 :: "'a dheap \<Rightarrow> nat option \<Rightarrow> nat \<Rightarrow> ('a dheap \<times> nat option) option" where
  "DL_APPEND2 h head add =
     (case head of
        Some p \<Rightarrow> do {
          r \<leftarrow> dl_prev h p;
          h \<leftarrow> dl_set_prev h add r;
          r \<leftarrow> dl_prev h p;
          t \<leftarrow> r;
          h \<leftarrow> dl_set_next h t (Some add);
          h \<leftarrow> dl_set_prev h p (Some add);
          h \<leftarrow> dl_set_next h add None;
          Some (h, head)
        }
      | None \<Rightarrow> do {
          h \<leftarrow> dl_set_prev h add (Some add);
          h \<leftarrow> dl_set_next h add None;
          Some (h, Some add)
        })"

definition DL_CONCAT2 :: "'a dheap \<Rightarrow> nat option \<Rightarrow> nat option \<Rightarrow> ('a dheap \<times> nat option) option" where
  "DL_CONCAT2 h head1 head2 =
     (case head2 of
        None \<Rightarrow> Some (h, head1)
      | Some p2 \<Rightarrow>
          (case head1 of
             None \<Rightarrow> Some (h, head2)
           | Some p1 \<Rightarrow> do {
               tmp \<leftarrow> dl_prev h p2;
               r \<leftarrow> dl_prev h p1;
               h \<leftarrow> dl_set_prev h p2 r;
               r \<leftarrow> dl_prev h p1;
               t \<leftarrow> r;
               h \<leftarrow> dl_set_next h t head2;
               h \<leftarrow> dl_set_prev h p1 tmp;
               Some (h, head1)
             }))"

definition DL_DELETE2 :: "'a dheap \<Rightarrow> nat option \<Rightarrow> nat \<Rightarrow> ('a dheap \<times> nat option) option" where
  "DL_DELETE2 h head del = do {
     p \<leftarrow> head;
     r \<leftarrow> dl_prev h del;
     t \<leftarrow> r;
     if t = del then Some (h, None)
     else if head = Some del then do {
       n \<leftarrow> dl_next h del;
       s \<leftarrow> n;
       h \<leftarrow> dl_set_prev h s r;
       n \<leftarrow> dl_next h del;
       Some (h, n)
     }
     else do {
       n \<leftarrow> dl_next h del;
       h \<leftarrow> dl_set_next h t n;
       n \<leftarrow> dl_next h del;
       r \<leftarrow> dl_prev h del;
       h \<leftarrow> (case n of
               Some s \<Rightarrow> dl_set_prev h s r
             | None \<Rightarrow> dl_set_prev h p r);
       Some (h, head)
     }
   }"

definition DL_REPLACE_ELEM2 :: "'a dheap \<Rightarrow> nat option \<Rightarrow> nat \<Rightarrow> nat \<Rightarrow> ('a dheap \<times> nat option) option" where
  "DL_REPLACE_ELEM2 h head el add = do {
     p \<leftarrow> head;
     n \<leftarrow> dl_next h el;
     if head = Some el then do {
       h \<leftarrow> dl_set_next h add n;
       n \<leftarrow> dl_next h el;
       h \<leftarrow> (case n of
               None \<Rightarrow> dl_set_prev h add (Some add)
             | Some _ \<Rightarrow> do {
                 r \<leftarrow> dl_prev h el;
                 h \<leftarrow> dl_set_prev h add r;
                 n \<leftarrow> dl_next h add;
                 s \<leftarrow> n;
                 dl_set_prev h s (Some add)
               });
       Some (h, Some add)
     }
     else do {
       h \<leftarrow> dl_set_next h add n;
       r \<leftarrow> dl_prev h el;
       h \<leftarrow> dl_set_prev h add r;
       r \<leftarrow> dl_prev h add;
       t \<leftarrow> r;
       h \<leftarrow> dl_set_next h t (Some add);
       n \<leftarrow> dl_next h el;
       h \<leftarrow> (case n of
               None \<Rightarrow> dl_set_prev h p (Some add)
             | Some _ \<Rightarrow> do {
                 n \<leftarrow> dl_next h add;
                 s \<leftarrow> n;
                 dl_set_prev h s (Some add)
               });
       Some (h, head)
     }
   }"

definition DL_PREPEND_ELEM2 :: "'a dheap \<Rightarrow> nat option \<Rightarrow> nat option \<Rightarrow> nat \<Rightarrow> ('a dheap \<times> nat option) option" where
  "DL_PREPEND_ELEM2 h head el add =
     (case el of
        Some e \<Rightarrow> do {
          p \<leftarrow> head;
          h \<leftarrow> dl_set_next h add el;
          r \<leftarrow> dl_prev h e;
          h \<leftarrow> dl_set_prev h add r;
          h \<leftarrow> dl_set_prev h e (Some add);
          if head = el then Some (h, Some add)
          else do {
            r \<leftarrow> dl_prev h add;
            t \<leftarrow> r;
            h \<leftarrow> dl_set_next h t (Some add);
            Some (h, head)
          }
        }
      | None \<Rightarrow> DL_APPEND2 h head add)"

definition DL_APPEND_ELEM2 :: "'a dheap \<Rightarrow> nat option \<Rightarrow> nat option \<Rightarrow> nat \<Rightarrow> ('a dheap \<times> nat option) option" where
  "DL_APPEND_ELEM2 h head el add =
     (case el of
        Some e \<Rightarrow> do {
          p \<leftarrow> head;
          n \<leftarrow> dl_next h e;
          h \<leftarrow> dl_set_next h add n;
          h \<leftarrow> dl_set_prev h add el;
          h \<leftarrow> dl_set_next h e (Some add);
          n \<leftarrow> dl_next h add;
          h \<leftarrow> (case n of
                  Some s \<Rightarrow> dl_set_prev h s (Some add)
                | None \<Rightarrow> dl_set_prev h p (Some add));
          Some (h, head)
        }
      | None \<Rightarrow> DL_PREPEND2 h head add)"

partial_function (option) dl_lower_loop :: "('a \<Rightarrow> 'a \<Rightarrow> int) \<Rightarrow> 'a dheap \<Rightarrow> 'a \<Rightarrow> nat \<Rightarrow> nat option" where
  "dl_lower_loop cmp h like elt = do {
     n \<leftarrow> dl_next h elt;
     (case n of
        None \<Rightarrow> Some elt
      | Some r \<Rightarrow> do {
          x \<leftarrow> h r;
          if cmp (dn_data x) like \<ge> 0 then Some elt else dl_lower_loop cmp h like r
        })
   }"

definition DL_LOWER_BOUND2 :: "('a \<Rightarrow> 'a \<Rightarrow> int) \<Rightarrow> 'a dheap \<Rightarrow> nat option \<Rightarrow> 'a \<Rightarrow> nat option option" where
  "DL_LOWER_BOUND2 cmp h head like =
     (case head of
        None \<Rightarrow> Some None
      | Some p \<Rightarrow> do {
          x \<leftarrow> h p;
          if cmp (dn_data x) like \<ge> 0 then Some None
          else do {
            e \<leftarrow> dl_lower_loop cmp h like p;
            Some (Some e)
          }
        })"

definition DL_INSERT_INORDER2 :: "('a \<Rightarrow> 'a \<Rightarrow> int) \<Rightarrow> 'a dheap \<Rightarrow> nat option \<Rightarrow> nat \<Rightarrow> ('a dheap \<times> nat option) option" where
  "DL_INSERT_INORDER2 cmp h head add =
     (case head of
        Some p \<Rightarrow> do {
          x \<leftarrow> h add;
          tmp \<leftarrow> DL_LOWER_BOUND2 cmp h head (dn_data x);
          DL_APPEND_ELEM2 h head tmp add
        }
      | None \<Rightarrow> do {
          h \<leftarrow> dl_set_prev h add (Some add);
          h \<leftarrow> dl_set_next h add None;
          Some (h, Some add)
        })"

text \<open>The variant for compilers without \<^verbatim>\<open>decltype\<close>, which walks with the head itself.\<close>

definition DL_INSERT_INORDER2_no_decltype ::
  "('a \<Rightarrow> 'a \<Rightarrow> int) \<Rightarrow> 'a dheap \<Rightarrow> nat option \<Rightarrow> nat \<Rightarrow> ('a dheap \<times> nat option) option" where
  "DL_INSERT_INORDER2_no_decltype cmp h head add =
     (case head of
        None \<Rightarrow> do {
          h \<leftarrow> dl_set_prev h add (Some add);
          h \<leftarrow> dl_set_next h add None;
          Some (h, Some add)
        }
      | Some p \<Rightarrow> do {
          x \<leftarrow> h p;
          y \<leftarrow> h add;
          if cmp (dn_data x) (dn_data y) \<ge> 0 then do {
            r \<leftarrow> dl_prev h p;
            h \<leftarrow> dl_set_prev h add r;
            h \<leftarrow> dl_set_next h add head;
            h \<leftarrow> dl_set_prev h p (Some add);
            Some (h, Some add)
          }
          else do {
            walk \<leftarrow> dl_lower_loop cmp h (dn_data y) p;
            h \<leftarrow> dl_set_prev h add (Some walk);
            n \<leftarrow> dl_next h walk;
            h \<leftarrow> dl_set_next h add n;
            h \<leftarrow> dl_set_next h walk (Some add);
            n \<leftarrow> dl_next h add;
            h \<leftarrow> (case n of
                    Some s \<Rightarrow> dl_set_prev h s (Some add)
                  | None \<Rightarrow> dl_set_prev h p (Some add));
            Some (h, head)
          }
        })"

partial_function (option) dl_count :: "'a dheap \<Rightarrow> nat option \<Rightarrow> nat \<Rightarrow> nat option" where
  "dl_count h el counter =
     (case el of None \<Rightarrow> Some counter | Some p \<Rightarrow> do { n \<leftarrow> dl_next h p; dl_count h n (Suc counter) })"

definition DL_COUNT2 :: "'a dheap \<Rightarrow> nat option \<Rightarrow> nat option" where
  "DL_COUNT2 h head = dl_count h head 0"

section \<open>Reading and writing pointers\<close>

lemma dl_set_simps [simp]:
  "a \<in> dom h \<Longrightarrow> dl_set_prev h a p = Some (upd_prev h a p)" "h a \<noteq> None \<Longrightarrow> dl_set_prev h a p = Some (upd_prev h a p)"
  "a \<in> dom h \<Longrightarrow> dl_set_next h a p = Some (upd_next h a p)" "h a \<noteq> None \<Longrightarrow> dl_set_next h a p = Some (upd_next h a p)"
  by (auto simp: dl_set_prev_def dl_set_next_def)

lemma dom_upd [simp]:
  "dom (upd_prev h a p) = dom h" "dom (upd_next h a p) = dom h"
  "upd_prev h a p b = None \<longleftrightarrow> h b = None" "upd_next h a p b = None \<longleftrightarrow> h b = None"
  by (auto simp: upd_prev_def upd_next_def dom_def)

lemma read_upd [simp]:
  "a \<in> dom h \<Longrightarrow> dl_prev (upd_prev h a p) a = Some p" "h a \<noteq> None \<Longrightarrow> dl_prev (upd_prev h a p) a = Some p"
  "a \<in> dom h \<Longrightarrow> dl_next (upd_next h a p) a = Some p" "h a \<noteq> None \<Longrightarrow> dl_next (upd_next h a p) a = Some p"
  "dl_prev h a = Some r \<Longrightarrow> dl_prev (upd_prev h a p) a = Some p" "dl_next h a = Some r \<Longrightarrow> dl_next (upd_next h a p) a = Some p"
  "a \<noteq> b \<Longrightarrow> dl_prev (upd_prev h a p) b = dl_prev h b" "a \<noteq> b \<Longrightarrow> dl_next (upd_next h a p) b = dl_next h b"
  "dl_prev (upd_next h a p) b = dl_prev h b" "dl_next (upd_prev h a p) b = dl_next h b"
  by (auto simp: dl_prev_def dl_next_def upd_prev_def upd_next_def option.map_comp o_def)

lemma payload_upd [simp]:
  "payload dn_data (upd_prev h a p) = payload dn_data h" "payload dn_data (upd_next h a p) = payload dn_data h"
  by (auto simp: payload_def upd_prev_def upd_next_def fun_eq_iff option.map_comp o_def)

lemma read_dom: "dl_prev h a = Some r \<Longrightarrow> a \<in> dom h" "dl_next h a = Some r \<Longrightarrow> a \<in> dom h"
  by (auto simp: dl_prev_def dl_next_def)

lemma dom_read: "a \<in> dom h \<Longrightarrow> \<exists>r. dl_prev h a = Some r" "a \<in> dom h \<Longrightarrow> \<exists>r. dl_next h a = Some r"
  by (auto simp: dl_prev_def dl_next_def)

section \<open>Segments\<close>

text \<open>\<open>dl_seg h r p as q l\<close>: the nodes \<open>as\<close> are linked in both directions, the first, \<open>p\<close>, has
  \<open>r\<close> before it, and behind the last, \<open>l\<close>, comes \<open>q\<close>.\<close>

fun dl_seg :: "'a dheap \<Rightarrow> nat option \<Rightarrow> nat option \<Rightarrow> nat list \<Rightarrow> nat option \<Rightarrow> nat option \<Rightarrow> bool" where
  "dl_seg h r p [] q l \<longleftrightarrow> p = q \<and> r = l"
| "dl_seg h r p (a # as) q l \<longleftrightarrow>
     p = Some a \<and> dl_prev h a = Some r \<and> (\<exists>n. dl_next h a = Some n \<and> dl_seg h (Some a) n as q l)"

lemma dl_seg_append: "dl_seg h r p (as @ bs) q l \<longleftrightarrow> (\<exists>m k. dl_seg h r p as m k \<and> dl_seg h k m bs q l)"
  by (induction as arbitrary: r p) auto

lemma dl_seg_upd [simp]:
  "a \<notin> set as \<Longrightarrow> dl_seg (upd_prev h a v) r p as q l = dl_seg h r p as q l"
  "a \<notin> set as \<Longrightarrow> dl_seg (upd_next h a v) r p as q l = dl_seg h r p as q l"
  by (induction as arbitrary: r p) auto

lemma dl_seg_dom: "dl_seg h r p as q l \<Longrightarrow> set as \<subseteq> dom h"
  by (induction as arbitrary: r p) (auto dest: read_dom)

lemma dl_seg_ends:
  assumes "dl_seg h r p as q l" and "as \<noteq> []"
  shows "p = Some (hd as)" "l = Some (last as)" "dl_prev h (hd as) = Some r" "dl_next h (last as) = Some q"
  using assms by (induction as arbitrary: r p) (auto split: if_splits)

text \<open>The ends of a segment may be linked to something else.\<close>

lemma dl_seg_first:
  "dl_seg h r p as q l \<Longrightarrow> as \<noteq> [] \<Longrightarrow> distinct as \<Longrightarrow> dl_seg (upd_prev h (hd as) r') r' p as q l"
  by (cases as) auto

lemma dl_seg_last:
  "dl_seg h r p as q l \<Longrightarrow> as \<noteq> [] \<Longrightarrow> distinct as \<Longrightarrow> dl_seg (upd_next h (last as) q') r p as q' l"
proof (induction as arbitrary: r p)
  case outer: (Cons a as)
  show ?case
  proof (cases as)
    case Nil
    with outer show ?thesis by auto
  next
    case (Cons b bs)
    then have "last as \<in> set as" by simp
    then have "last as \<noteq> a" using outer.prems(3) by auto
    with Cons outer.prems outer.IH show ?thesis by auto
  qed
qed simp

lemma dl_seg_single: "dl_seg h r p [a] q l \<longleftrightarrow> p = Some a \<and> dl_prev h a = Some r \<and> dl_next h a = Some q \<and> l = Some a"
  by auto

section \<open>Lists\<close>

definition dl_list :: "'a dheap \<Rightarrow> nat option \<Rightarrow> nat list \<Rightarrow> bool" where
  "dl_list h head as \<longleftrightarrow> distinct as \<and> (\<exists>t. dl_seg h t head as None t)"

lemma dl_list_Nil [simp]: "dl_list h head [] \<longleftrightarrow> head = None"
  by (simp add: dl_list_def)

lemma dl_listI: "distinct as \<Longrightarrow> dl_seg h t head as None t \<Longrightarrow> dl_list h head as"
  by (auto simp: dl_list_def)

lemma dl_listD:
  assumes "dl_list h head as"
  shows "distinct as" "set as \<subseteq> dom h" "as \<noteq> [] \<Longrightarrow> dl_seg h (Some (last as)) (Some (hd as)) as None (Some (last as))"
    "as \<noteq> [] \<Longrightarrow> head = Some (hd as)"
proof -
  from assms obtain t where t: "distinct as" "dl_seg h t head as None t" by (auto simp: dl_list_def)
  from t(1) dl_seg_dom [OF t(2)] show "distinct as" "set as \<subseteq> dom h" .
  show "as \<noteq> [] \<Longrightarrow> head = Some (hd as)" using dl_seg_ends(1) [OF t(2)] .
  show "as \<noteq> [] \<Longrightarrow> dl_seg h (Some (last as)) (Some (hd as)) as None (Some (last as))"
    using t(2) dl_seg_ends [OF t(2)] by auto
qed

text \<open>Linking two segments.\<close>

lemma dl_seg_join:
  assumes "dl_seg h r p us q k" and "dl_seg h k' p' vs q' l" and "us \<noteq> []" and "vs \<noteq> []" and "distinct (us @ vs)"
  shows "dl_seg (upd_prev (upd_next h (last us) (Some (hd vs))) (hd vs) (Some (last us))) r p (us @ vs) q' l"
proof -
  let ?h = "upd_next h (last us) (Some (hd vs))"
  have d: "distinct us" "distinct vs" "last us \<notin> set vs" "hd vs \<notin> set us" using assms(3-5) by (auto dest: hd_in_set last_in_set)
  have "dl_seg ?h r p us (Some (hd vs)) k" using dl_seg_last [OF assms(1,3) d(1)] .
  then have us: "dl_seg (upd_prev ?h (hd vs) (Some (last us))) r p us (Some (hd vs)) k" using d(4) by simp
  have "dl_seg ?h k' p' vs q' l" using assms(2) d(3) by simp
  from dl_seg_first [OF this assms(4) d(2), of "Some (last us)"] dl_seg_ends(1) [OF assms(2,4)]
  have "dl_seg (upd_prev ?h (hd vs) (Some (last us))) (Some (last us)) (Some (hd vs)) vs q' l" by simp
  with us dl_seg_ends(2) [OF assms(1,3)] show ?thesis by (auto simp: dl_seg_append)
qed

section \<open>What the macros do\<close>

text \<open>The ends of the parts of a list are allocated nodes, different from a node outside the part.\<close>

lemma ends_facts:
  assumes "xs \<noteq> []" and "set xs \<subseteq> A" and "d \<notin> set xs"
  shows "hd xs \<in> A" "last xs \<in> A" "hd xs \<noteq> d" "last xs \<noteq> d" "d \<noteq> hd xs" "d \<noteq> last xs"
  using assms by (auto dest: hd_in_set last_in_set)

lemma ends_apart:
  assumes "xs \<noteq> []" and "set xs \<inter> set ys = {}"
  shows "hd xs \<notin> set ys" "last xs \<notin> set ys"
  using assms hd_in_set [OF assms(1)] last_in_set [OF assms(1)] by blast+

abbreviation dl_gives :: "'a dheap \<Rightarrow> ('a dheap \<times> nat option) option \<Rightarrow> nat list \<Rightarrow> bool" where
  "dl_gives \<equiv> gives dl_list dn_data"

lemma dl_givesI:
  "r = Some (h', head') \<Longrightarrow> distinct as \<Longrightarrow> dl_seg h' t head' as None t \<Longrightarrow> payload dn_data h' = payload dn_data h \<Longrightarrow> dl_gives h r as"
  by (auto simp: gives_def intro: dl_listI)

lemma DL_PREPEND2_gives:
  assumes "dl_list h head as" and "a \<in> dom h" and "a \<notin> set as"
  shows "dl_gives h (DL_PREPEND2 h head a) (a # as)"
proof (cases "as = []")
  case True
  with assms dom_read [OF assms(2)] show ?thesis
    by (auto simp: DL_PREPEND2_def intro!: dl_givesI [where t = "Some a"])
next
  case False
  note as = dl_listD [OF assms(1)] dl_listD(3,4) [OF assms(1) False]
  note ends = dl_seg_ends [OF as(5) False]
  let ?h = "upd_prev (upd_next h a head) a (Some (last as))"
  have in_as: "hd as \<in> set as" using False by simp
  then have ne: "a \<noteq> hd as" "hd as \<in> dom h" using assms(3) as(2) by auto
  have "DL_PREPEND2 h head a = Some (upd_prev ?h (hd as) (Some a), Some a)"
    using ends as(6) assms(2) ne by (simp add: DL_PREPEND2_def)
  moreover have "dl_seg ?h (Some (last as)) (Some (hd as)) as None (Some (last as))" using as(5) assms(3) by simp
  from dl_seg_first [OF this False as(1), of "Some a"]
  have "dl_seg (upd_prev ?h (hd as) (Some a)) (Some (last as)) (Some a) (a # as) None (Some (last as))"
    using dom_read [OF assms(2)] as(6) ne by auto
  ultimately show ?thesis using as(1) assms(3) by (auto intro!: dl_givesI)
qed

lemma DL_APPEND2_gives:
  assumes "dl_list h head as" and "a \<in> dom h" and "a \<notin> set as"
  shows "dl_gives h (DL_APPEND2 h head a) (as @ [a])"
proof (cases "as = []")
  case True
  with assms dom_read [OF assms(2)] show ?thesis
    by (auto simp: DL_APPEND2_def intro!: dl_givesI [where t = "Some a"])
next
  case False
  note as = dl_listD [OF assms(1)] dl_listD(3,4) [OF assms(1) False]
  note ends = dl_seg_ends [OF as(5) False]
  let ?h1 = "upd_prev h a (Some (last as))"
  let ?h2 = "upd_next ?h1 (last as) (Some a)"
  let ?h3 = "upd_prev ?h2 (hd as) (Some a)"
  have "hd as \<in> set as" "last as \<in> set as" using False by simp_all
  then have ne: "a \<noteq> hd as" "hd as \<in> dom h" "a \<noteq> last as" "last as \<in> dom h" using assms(3) as(2) by auto
  have "DL_APPEND2 h head a = Some (upd_next ?h3 a None, Some (hd as))"
    using ends as(6) assms(2) ne by (simp add: DL_APPEND2_def)
  moreover have "dl_seg ?h1 (Some (last as)) (Some (hd as)) as None (Some (last as))" using as(5) assms(3) by simp
  from dl_seg_first [OF dl_seg_last [OF this False as(1), of "Some a"] False as(1), of "Some a"]
  have "dl_seg (upd_next ?h3 a None) (Some a) (Some (hd as)) (as @ [a]) None (Some a)"
    unfolding dl_seg_append dl_seg_single using dom_read [OF assms(2)] assms(3) ne by auto
  ultimately show ?thesis using as(1) assms(3) by (auto intro!: dl_givesI)
qed

lemma DL_DELETE2_gives:
  assumes "dl_list h head (us @ d # vs)"
  shows "dl_gives h (DL_DELETE2 h head d) (us @ vs)"
proof -
  let ?as = "us @ d # vs" and ?t = "last (us @ d # vs)"
  have "?as \<noteq> []" by simp
  note as = dl_listD(1,2) [OF assms] dl_listD(3,4) [OF assms this]
  from as(3) obtain m k n where seg: "dl_seg h (Some ?t) (Some (hd ?as)) us m k" "m = Some d" "dl_prev h d = Some k"
    "dl_next h d = Some n" "dl_seg h (Some d) n vs None (Some ?t)" by (auto simp: dl_seg_append)
  have sets: "set us \<subseteq> dom h" "set vs \<subseteq> dom h" and out: "d \<notin> set us" "d \<notin> set vs" using as(1,2) by auto
  show ?thesis
  proof (cases "us = []"; cases "vs = []")
    assume e: "us = []" "vs = []"
    with seg as show ?thesis by (auto simp: DL_DELETE2_def intro!: dl_givesI)
  next
    assume e: "us = []" "vs \<noteq> []"
    note ne = ends_facts [OF e(2) sets(2) out(2)]
    note ends = dl_seg_ends [OF seg(5) e(2)]
    from e seg as ends ne have "DL_DELETE2 h head d = Some (upd_prev h (hd vs) (Some ?t), Some (hd vs))"
      by (auto simp: DL_DELETE2_def)
    moreover from dl_seg_first [OF seg(5) e(2), of "Some ?t"] as(1) ends
    have "dl_seg (upd_prev h (hd vs) (Some ?t)) (Some ?t) (Some (hd vs)) vs None (Some ?t)" by simp
    ultimately show ?thesis using e as(1) by (auto intro!: dl_givesI)
  next
    assume e: "us \<noteq> []" "vs = []"
    note ends = dl_seg_ends [OF seg(1) e(1)]
    note ne = ends_facts [OF e(1) sets(1) out(1)]
    let ?h = "upd_prev (upd_next h (last us) None) (hd us) (Some (last us))"
    have "DL_DELETE2 h head d = Some (?h, Some (hd us))"
      using e seg as ends ne by (simp add: DL_DELETE2_def)
    moreover have "distinct us" using as(1) by simp
    from dl_seg_first [OF dl_seg_last [OF seg(1) e(1) this, of None] e(1) this, of "Some (last us)"] ends
    have "dl_seg ?h (Some (last us)) (Some (hd us)) us None (Some (last us))" by simp
    ultimately show ?thesis using e as(1) by (auto intro!: dl_givesI)
  next
    assume e: "us \<noteq> []" "vs \<noteq> []"
    note ends = dl_seg_ends [OF seg(1) e(1)] dl_seg_ends [OF seg(5) e(2)]
    note ne = ends_facts [OF e(1) sets(1) out(1)] ends_facts [OF e(2) sets(2) out(2)]
    let ?h = "upd_prev (upd_next h (last us) (Some (hd vs))) (hd vs) (Some (last us))"
    have "DL_DELETE2 h head d = Some (?h, Some (hd us))"
      using e seg as ends ne by (simp add: DL_DELETE2_def)
    moreover have "distinct (us @ vs)" using as(1) by simp
    from dl_seg_join [OF seg(1,5) e this] ends
    have "dl_seg ?h (Some ?t) (Some (hd us)) (us @ vs) None (Some ?t)" by simp
    ultimately show ?thesis using as(1) by (auto intro!: dl_givesI)
  qed
qed

text \<open>Replacing an element, and inserting before and behind it.\<close>

lemma DL_REPLACE_ELEM2_gives:
  assumes "dl_list h head (us @ e # vs)" and "a \<in> dom h" and "a \<notin> set (us @ e # vs)"
  shows "dl_gives h (DL_REPLACE_ELEM2 h head e a) (us @ a # vs)"
proof -
  let ?as = "us @ e # vs" and ?t = "last (us @ e # vs)"
  have "?as \<noteq> []" by simp
  note as = dl_listD(1,2) [OF assms(1)] dl_listD(3,4) [OF assms(1) this]
  have sets: "set us \<subseteq> dom h" "set vs \<subseteq> dom h" and out: "a \<notin> set us" "a \<notin> set vs" "a \<noteq> e" and el: "e \<notin> set us" "e \<notin> set vs"
    using as(1,2) assms(3) by auto
  from as(3) obtain k n where seg: "dl_seg h (Some ?t) (Some (hd ?as)) us (Some e) k" "dl_prev h e = Some k"
    "dl_next h e = Some n" "dl_seg h (Some e) n vs None (Some ?t)" by (auto simp: dl_seg_append)
  let ?h = "upd_prev (upd_next h a n) a k"
  have node: "dl_prev ?h a = Some k" "dl_next ?h a = Some n" using dom_read [OF assms(2)] by auto
  have parts: "dl_seg ?h (Some ?t) (Some (hd ?as)) us (Some e) k" "dl_seg ?h (Some e) n vs None (Some ?t)" using seg out by simp_all
  show ?thesis
  proof (cases "us = []"; cases "vs = []")
    assume e: "us = []" "vs = []"
    with seg as assms(2) out(3) dom_read [OF assms(2)] show ?thesis
      by (auto simp: DL_REPLACE_ELEM2_def intro!: dl_givesI [where t = "Some a"])
  next
    assume e: "us = []" "vs \<noteq> []"
    note ne = ends_facts [OF e(2) sets(2) out(2)]
    note ends = dl_seg_ends [OF seg(4) e(2)]
    from e seg as assms(2) out(3) ends ne
    have "DL_REPLACE_ELEM2 h head e a = Some (upd_prev ?h (hd vs) (Some a), Some a)" by (auto simp: DL_REPLACE_ELEM2_def)
    moreover from dl_seg_first [OF parts(2) e(2), of "Some a"] as(1) e seg ends node ne
    have "dl_seg (upd_prev ?h (hd vs) (Some a)) (Some ?t) (Some a) (us @ a # vs) None (Some ?t)" by auto
    ultimately show ?thesis using as(1) assms(3) by (auto intro!: dl_givesI)
  next
    assume e: "us \<noteq> []" "vs = []"
    note ne = ends_facts [OF e(1) sets(1) out(1)] ends_facts(3,4) [OF e(1) sets(1) el(1)]
    note ends = dl_seg_ends [OF seg(1) e(1)]
    let ?h' = "upd_prev (upd_next ?h (last us) (Some a)) (hd us) (Some a)"
    from e seg as assms(2) out(3) ends ne
    have run: "DL_REPLACE_ELEM2 h head e a = Some (?h', head)" by (auto simp: DL_REPLACE_ELEM2_def)
    have d: "distinct us" using as(1) by simp
    from dl_seg_first [OF dl_seg_last [OF parts(1) e(1) d, of "Some a"] e(1) d, of "Some a"] e seg ends node ne
    have "dl_seg ?h' (Some a) head (us @ a # vs) None (Some a)" using as(4) e by (auto simp: dl_seg_append)
    from dl_givesI [OF run _ this] as(1) assms(3) show ?thesis by simp
  next
    assume e: "us \<noteq> []" "vs \<noteq> []"
    note ne = ends_facts [OF e(1) sets(1) out(1)] ends_facts(3,4) [OF e(1) sets(1) el(1)] ends_facts [OF e(2) sets(2) out(2)]
    note ends = dl_seg_ends [OF seg(1) e(1)] dl_seg_ends [OF seg(4) e(2)]
    let ?h' = "upd_prev (upd_next ?h (last us) (Some a)) (hd vs) (Some a)"
    from e seg as assms(2) out(3) ends ne
    have run: "DL_REPLACE_ELEM2 h head e a = Some (?h', head)" by (auto simp: DL_REPLACE_ELEM2_def)
    have d: "distinct us" "distinct vs" "last us \<notin> set vs" "hd vs \<notin> set us"
      using as(1) ends_apart [OF e(1), of vs] ends_apart [OF e(2), of us] by auto
    have "dl_seg ?h' (Some ?t) (Some (hd us)) us (Some a) k"
      using dl_seg_last [OF parts(1) e(1) d(1), of "Some a"] d(4) e by simp
    moreover have "dl_seg (upd_next ?h (last us) (Some a)) (Some e) n vs None (Some ?t)" using parts(2) d(3) by simp
    from dl_seg_first [OF this e(2) d(2), of "Some a"] have "dl_seg ?h' (Some a) n vs None (Some ?t)" .
    ultimately have "dl_seg ?h' (Some ?t) head (us @ a # vs) None (Some ?t)" using as(4) e node ne by (auto simp: dl_seg_append)
    from dl_givesI [OF run _ this] as(1) assms(3) show ?thesis by simp
  qed
qed

lemma DL_PREPEND_ELEM2_gives:
  assumes "dl_list h head (us @ e # vs)" and "a \<in> dom h" and "a \<notin> set (us @ e # vs)"
  shows "dl_gives h (DL_PREPEND_ELEM2 h head (Some e) a) (us @ a # e # vs)"
proof -
  let ?as = "us @ e # vs" and ?t = "last (us @ e # vs)"
  have "?as \<noteq> []" by simp
  note as = dl_listD(1,2) [OF assms(1)] dl_listD(3,4) [OF assms(1) this]
  have sets: "set us \<subseteq> dom h" "set (e # vs) \<subseteq> dom h" and out: "a \<notin> set us" "a \<notin> set (e # vs)" "a \<noteq> e" using as(1,2) assms(3) by auto
  from as(3) obtain k where seg: "dl_seg h (Some ?t) (Some (hd ?as)) us (Some e) k" "dl_seg h k (Some e) (e # vs) None (Some ?t)" by (auto simp: dl_seg_append)
  let ?h = "upd_prev (upd_prev (upd_next h a (Some e)) a k) e (Some a)"
  have rest: "dl_seg ?h (Some a) (Some e) (e # vs) None (Some ?t)" using seg(2) out as(1) by auto
  have node: "dl_prev ?h a = Some k" "dl_next ?h a = Some (Some e)" using out(3) dom_read [OF assms(2)] by auto
  show ?thesis
  proof (cases "us = []")
    case True
    with seg as assms(2) sets out(3) have "DL_PREPEND_ELEM2 h head (Some e) a = Some (?h, Some a)" "k = Some ?t"
      by (auto simp: DL_PREPEND_ELEM2_def)
    moreover from this True rest node have "dl_seg ?h (Some ?t) (Some a) (us @ a # e # vs) None (Some ?t)" by simp
    ultimately show ?thesis using as(1) assms(3) by (auto intro!: dl_givesI)
  next
    case False
    note ends = dl_seg_ends [OF seg(1) False]
    note ne = ends_facts [OF False sets(1) out(1)]
    have away: "last us \<notin> set (e # vs)" using as(1) by (intro ends_apart [OF False]) auto
    have "hd us \<noteq> e" "last us \<noteq> e" using as(1) False by (auto dest: hd_in_set last_in_set)
    with seg as assms(2) sets out(3) False ends ne
    have run: "DL_PREPEND_ELEM2 h head (Some e) a = Some (upd_next ?h (last us) (Some a), head)"
      by (auto simp: DL_PREPEND_ELEM2_def)
    have "dl_seg ?h (Some ?t) (Some (hd ?as)) us (Some e) k" using seg(1) out as(1) by simp
    from dl_seg_last [OF this False, of "Some a"] as(1)
    have "dl_seg (upd_next ?h (last us) (Some a)) (Some ?t) (Some (hd ?as)) us (Some a) k" by simp
    moreover have "dl_seg (upd_next ?h (last us) (Some a)) (Some a) (Some e) (e # vs) None (Some ?t)"
      using rest dl_seg_upd(2) [OF away] by blast
    ultimately have "dl_seg (upd_next ?h (last us) (Some a)) (Some ?t) head (us @ a # e # vs) None (Some ?t)"
      unfolding dl_seg_append dl_seg.simps(2) [of _ _ _ a] using as(4) node ne(4) by (intro exI conjI) auto
    from dl_givesI [OF run _ this] as(1) assms(3) show ?thesis by simp
  qed
qed

lemma DL_APPEND_ELEM2_gives:
  assumes "dl_list h head (us @ e # vs)" and "a \<in> dom h" and "a \<notin> set (us @ e # vs)"
  shows "dl_gives h (DL_APPEND_ELEM2 h head (Some e) a) (us @ e # a # vs)"
proof -
  let ?as = "us @ e # vs" and ?t = "last (us @ e # vs)" and ?us = "us @ [e]"
  have "?as \<noteq> []" by simp
  note as = dl_listD(1,2) [OF assms(1)] dl_listD(3,4) [OF assms(1) this]
  have us: "?us \<noteq> []" "distinct ?us" "set ?us \<subseteq> dom h" "a \<notin> set ?us" "e \<notin> set vs" and vs: "distinct vs" "set vs \<subseteq> dom h" "a \<notin> set vs"
    using as(1,2) assms(3) by auto
  from as(3) obtain n where seg: "dl_seg h (Some ?t) (Some (hd ?as)) ?us n (Some e)"
    "dl_next h e = Some n" "dl_seg h (Some e) n vs None (Some ?t)" by (auto simp: dl_seg_append)
  let ?h = "upd_next (upd_prev (upd_next h a n) a (Some e)) e (Some a)"
  have h: "head = Some (hd ?us)" using as(4) by (cases us) auto
  have first: "hd ?us \<in> dom h" "hd ?us \<noteq> a" using ends_facts(1,3) [OF us(1,3,4)] .
  have "dl_seg (upd_prev (upd_next h a n) a (Some e)) (Some ?t) (Some (hd ?as)) ?us n (Some e)" using seg(1) us(4) by simp
  from dl_seg_last [OF this us(1,2), of "Some a"] have left: "dl_seg ?h (Some ?t) head ?us (Some a) (Some e)" using as(4) by simp
  have node: "dl_prev ?h a = Some (Some e)" "dl_next ?h a = Some n" using us(4) dom_read [OF assms(2)] assms(2) by auto
  have right: "dl_seg ?h (Some e) n vs None (Some ?t)" using seg(3) vs us(5) by simp
  show ?thesis
  proof (cases "vs = []")
    case True
    then have n: "n = None" using seg(3) by simp
    let ?h' = "upd_prev ?h (hd ?us) (Some a)"
    have run: "DL_APPEND_ELEM2 h head (Some e) a = Some (?h', head)"
      using h seg(2) n assms(2) us(3,4) first by (simp add: DL_APPEND_ELEM2_def)
    have "dl_seg ?h' (Some a) head (?us @ a # vs) None (Some a)"
      unfolding dl_seg_append [of _ _ _ ?us "a # vs"] using dl_seg_first [OF left us(1,2), of "Some a"] node n True first by auto
    from dl_givesI [OF run _ this] True us assms(3) show ?thesis by simp
  next
    case False
    note ends = dl_seg_ends [OF seg(3) False] and ne = ends_facts [OF False vs(2,3)]
    have away: "hd vs \<notin> set ?us" using as(1) by (intro ends_apart [OF False]) auto
    let ?h' = "upd_prev ?h (hd vs) (Some a)"
    have run: "DL_APPEND_ELEM2 h head (Some e) a = Some (?h', head)"
      using h seg(2) ends(1) assms(2) us(3,4) first ne by (simp add: DL_APPEND_ELEM2_def)
    have "dl_seg ?h' (Some ?t) head ?us (Some a) (Some e)" using left away by simp
    with dl_seg_first [OF right False vs(1), of "Some a"] node ne
    have "dl_seg ?h' (Some ?t) head (?us @ a # vs) None (Some ?t)" unfolding dl_seg_append [of _ _ _ ?us "a # vs"] by auto
    from dl_givesI [OF run _ this] as(1) assms(3) show ?thesis by simp
  qed
qed

lemma DL_CONCAT2_gives:
  assumes "dl_list h head1 as" and "dl_list h head2 bs" and "set as \<inter> set bs = {}"
  shows "dl_gives h (DL_CONCAT2 h head1 head2) (as @ bs)"
proof (cases "as = [] \<or> bs = []")
  case True
  with assms show ?thesis
    by (cases head1; cases head2) (auto simp: DL_CONCAT2_def gives_def dl_listD(4) [OF assms(1)] dl_listD(4) [OF assms(2)])
next
  case False
  then have ne: "as \<noteq> []" "bs \<noteq> []" by auto
  note as = dl_listD [OF assms(1)] dl_listD(3,4) [OF assms(1) ne(1)]
  note bs = dl_listD [OF assms(2)] dl_listD(3,4) [OF assms(2) ne(2)]
  note ends = dl_seg_ends [OF as(5) ne(1)] dl_seg_ends [OF bs(5) ne(2)]
  have d: "distinct (as @ bs)" "distinct as" using as(1) bs(1) assms(3) by auto
  have sep: "hd bs \<notin> set as" "hd as \<notin> set bs" "last as \<notin> set bs"
    using ends_apart [OF ne(1) assms(3)] ends_apart [OF ne(2), of as] assms(3) by auto
  have alloc: "hd as \<in> dom h" "last as \<in> dom h" "hd bs \<in> dom h" "hd as \<noteq> hd bs" "hd bs \<noteq> hd as"
    using as(2) bs(2) ne sep by (auto dest: hd_in_set last_in_set)
  let ?h = "upd_prev (upd_next (upd_prev h (hd bs) (Some (last as))) (last as) (Some (hd bs))) (hd as) (Some (last bs))"
  have run: "DL_CONCAT2 h head1 head2 = Some (?h, head1)"
    using as(6) bs(6) ends alloc by (simp add: DL_CONCAT2_def)
  from dl_seg_last [OF as(5) ne(1) d(2), of "Some (hd bs)"]
  have "dl_seg (upd_next (upd_prev h (hd bs) (Some (last as))) (last as) (Some (hd bs))) (Some (last as)) (Some (hd as)) as (Some (hd bs)) (Some (last as))"
    using dl_seg_last [OF _ ne(1) d(2)] dl_seg_upd(1) [OF sep(1)] as(5) by blast
  from dl_seg_first [OF this ne(1) d(2), of "Some (last bs)"]
  have "dl_seg ?h (Some (last bs)) head1 as (Some (hd bs)) (Some (last as))" using as(6) by simp
  moreover have "dl_seg ?h (Some (last as)) (Some (hd bs)) bs None (Some (last bs))"
    using dl_seg_first [OF bs(5) ne(2) bs(1), of "Some (last as)"] sep by simp
  ultimately have "dl_seg ?h (Some (last bs)) head1 (as @ bs) None (Some (last bs))" unfolding dl_seg_append by blast
  from dl_givesI [OF run d(1) this] show ?thesis by simp
qed

lemma dl_count_seg: "dl_seg h r p as None l \<Longrightarrow> dl_count h p k = Some (k + length as)"
proof (induction as arbitrary: r p k)
  case Nil
  then show ?case by (subst dl_count.simps) simp
next
  case (Cons a as)
  then obtain n where "p = Some a" "dl_next h a = Some n" "dl_seg h (Some a) n as None l" by auto
  with Cons.IH [of "Some a" n "Suc k"] show ?case by (subst dl_count.simps) simp
qed

lemma DL_COUNT2_length: "dl_list h head as \<Longrightarrow> DL_COUNT2 h head = Some (length as)"
  by (auto simp: dl_list_def DL_COUNT2_def dl_count_seg)

section \<open>The contract\<close>

definition DL_macros :: "'a dnode list_macros" where
  "DL_macros = \<lparr>m_prepend = DL_PREPEND2, m_append = DL_APPEND2, m_delete = DL_DELETE2, m_replace = DL_REPLACE_ELEM2,
     m_prepend_elem = DL_PREPEND_ELEM2, m_append_elem = DL_APPEND_ELEM2\<rparr>"

interpretation dl_elements: element_list dl_list dn_data DL_macros
  by unfold_locales (simp_all add: DL_macros_def DL_PREPEND2_gives DL_APPEND2_gives DL_DELETE2_gives DL_REPLACE_ELEM2_gives
      DL_PREPEND_ELEM2_gives DL_APPEND_ELEM2_gives dl_listD(1,2))

lemma dl_lower_loop_step:
  "dl_next h p = Some (Some r) \<Longrightarrow> h r = Some x \<Longrightarrow>
   dl_lower_loop cmp h v p = (if cmp (dn_data x) v \<ge> 0 then Some p else dl_lower_loop cmp h v r)"
  by (subst dl_lower_loop.simps) simp

lemma dl_lower_loop_end: "dl_next h p = Some None \<Longrightarrow> dl_lower_loop cmp h v p = Some p"
  by (subst dl_lower_loop.simps) simp

lemma dl_lower_loop_last:
  "dl_seg h r (Some p) (p # as) None l \<Longrightarrow> dl_lower_loop cmp h v p = Some (last (p # below dn_data cmp h v as))"
proof (induction as arbitrary: r p)
  case Nil
  then show ?case by (simp add: dl_lower_loop_end below_def)
next
  case (Cons b as)
  then have b: "dl_next h p = Some (Some b)" "dl_seg h (Some p) (Some b) (b # as) None l" by auto
  then obtain x where x: "h b = Some x" using dl_seg_dom [OF b(2)] by auto
  from dl_lower_loop_step [where h = h, OF b(1) x, of cmp v] Cons.IH [OF b(2)] x show ?case by (auto simp: below_def)
qed

lemma DL_LOWER_BOUND2_below:
  assumes "dl_list h head as"
  shows "DL_LOWER_BOUND2 cmp h head v = Some (if below dn_data cmp h v as = [] then None else Some (last (below dn_data cmp h v as)))"
proof (cases as)
  case Nil
  with assms show ?thesis by (simp add: DL_LOWER_BOUND2_def below_def)
next
  case (Cons p bs)
  with dl_listD [OF assms] obtain x where "head = Some p" "h p = Some x" "dl_seg h (Some (last as)) (Some p) (p # bs) None (Some (last as))" by auto
  with Cons dl_lower_loop_last [of h "Some (last as)" p bs "Some (last as)" cmp v] show ?thesis
    by (auto simp: DL_LOWER_BOUND2_def below_def)
qed

interpretation dl_ordered: ordered_list dl_list dn_data DL_macros DL_LOWER_BOUND2 DL_INSERT_INORDER2
proof unfold_locales
  fix h :: "'a dheap" and head as cmp v
  assume rep: "dl_list h head as"
  then show "DL_LOWER_BOUND2 cmp h head v = Some (if below dn_data cmp h v as = [] then None else Some (last (below dn_data cmp h v as)))"
    by (rule DL_LOWER_BOUND2_below)
  fix a
  {
    assume a: "a \<in> dom h" "a \<notin> set as"
    from DL_PREPEND2_gives [OF rep a] show "dl_gives h (m_append_elem DL_macros h head None a) (a # as)"
      by (simp add: DL_macros_def DL_APPEND_ELEM2_def)
  next
    fix n assume "as \<noteq> []" "h a = Some n"
    with dl_listD(4) [OF rep] show "DL_INSERT_INORDER2 cmp h head a =
        Option.bind (DL_LOWER_BOUND2 cmp h head (dn_data n)) (\<lambda>e. m_append_elem DL_macros h head e a)"
      by (simp add: DL_INSERT_INORDER2_def DL_macros_def)
  }
next
  fix h :: "'a dheap" and head a and cmp :: "'a \<Rightarrow> 'a \<Rightarrow> int"
  assume rep: "dl_list h head []" and a: "a \<in> dom h"
  then have "DL_INSERT_INORDER2 cmp h head a = DL_APPEND2 h head a"
    by (simp add: DL_INSERT_INORDER2_def DL_APPEND2_def)
  with DL_APPEND2_gives [OF rep a] show "dl_gives h (DL_INSERT_INORDER2 cmp h head a) [a]" by simp
qed

section \<open>The variant without decltype\<close>

lemma upd_commute: "upd_prev (upd_next h a x) b y = upd_next (upd_prev h b y) a x"
  by (cases "h a") (auto simp: upd_prev_def upd_next_def fun_eq_iff)

lemma DL_INSERT_INORDER2_no_decltype_eq:
  assumes "dl_list h head as" and "a \<in> dom h" and "a \<notin> set as"
  shows "DL_INSERT_INORDER2_no_decltype cmp h head a = DL_INSERT_INORDER2 cmp h head a"
proof (cases as)
  case Nil
  with assms show ?thesis by (simp add: DL_INSERT_INORDER2_no_decltype_def DL_INSERT_INORDER2_def)
next
  case (Cons p bs)
  note as = dl_listD [OF assms(1)]
  from assms(2) obtain y where y: "h a = Some y" by auto
  from Cons as obtain x where x: "head = Some p" "h p = Some x" "dl_seg h (Some (last as)) (Some p) (p # bs) None (Some (last as))" by auto
  let ?lo = "below dn_data cmp h (dn_data y) bs"
  have walk: "dl_lower_loop cmp h (dn_data y) p = Some (last (p # ?lo))" using x(3) by (rule dl_lower_loop_last)
  have "last (p # ?lo) \<in> set (p # ?lo)" by (rule last_in_set) simp
  then have e: "last (p # ?lo) \<in> set as" using Cons by (auto simp: below_def dest: set_takeWhileD)
  then obtain n where n: "dl_next h (last (p # ?lo)) = Some n" "last (p # ?lo) \<in> dom h" "last (p # ?lo) \<noteq> a"
    using as(2) assms(3) dom_read(2) by blast
  from x(3) have p: "dl_prev h p = Some (Some (last as))" "p \<noteq> a" using assms(3) Cons by auto
  show ?thesis
    using x(1,2) y walk n p assms(2)
    by (simp add: DL_INSERT_INORDER2_no_decltype_def DL_INSERT_INORDER2_def DL_LOWER_BOUND2_def DL_APPEND_ELEM2_def
        DL_PREPEND2_def upd_commute del: last.simps cong: if_cong)
qed

end
