(* ===== verification/Utlist_Circular.thy ===== *)
theory Utlist_Circular
  imports Utlist_Double
begin

text \<open>
  The circular doubly linked lists of \<^verbatim>\<open>json-rpc-common/utlist.h\<close> (the \<^verbatim>\<open>CDL_\<close> macros):
  the \<^verbatim>\<open>next\<close> pointer of the last node leads back to the head.
\<close>

section \<open>The macros\<close>

definition CDL_APPEND2 :: "'a dheap \<Rightarrow> nat option \<Rightarrow> nat \<Rightarrow> ('a dheap \<times> nat option) option" where
  "CDL_APPEND2 h head add =
     (case head of
        Some p \<Rightarrow> do {
          r \<leftarrow> dl_prev h p;
          h \<leftarrow> dl_set_prev h add r;
          h \<leftarrow> dl_set_next h add head;
          h \<leftarrow> dl_set_prev h p (Some add);
          r \<leftarrow> dl_prev h add;
          t \<leftarrow> r;
          h \<leftarrow> dl_set_next h t (Some add);
          Some (h, head)
        }
      | None \<Rightarrow> do {
          h \<leftarrow> dl_set_prev h add (Some add);
          h \<leftarrow> dl_set_next h add (Some add);
          Some (h, Some add)
        })"

definition CDL_PREPEND2 :: "'a dheap \<Rightarrow> nat option \<Rightarrow> nat \<Rightarrow> ('a dheap \<times> nat option) option" where
  "CDL_PREPEND2 h head add = do {
     h \<leftarrow> (case head of
             Some p \<Rightarrow> do {
               r \<leftarrow> dl_prev h p;
               h \<leftarrow> dl_set_prev h add r;
               h \<leftarrow> dl_set_next h add head;
               h \<leftarrow> dl_set_prev h p (Some add);
               r \<leftarrow> dl_prev h add;
               t \<leftarrow> r;
               dl_set_next h t (Some add)
             }
           | None \<Rightarrow> do {
               h \<leftarrow> dl_set_prev h add (Some add);
               dl_set_next h add (Some add)
             });
     Some (h, Some add)
   }"

definition CDL_DELETE2 :: "'a dheap \<Rightarrow> nat option \<Rightarrow> nat \<Rightarrow> ('a dheap \<times> nat option) option" where
  "CDL_DELETE2 h head del = do {
     single \<leftarrow> (if head = Some del then do { n \<leftarrow> dl_next h del; Some (n = head) } else Some False);
     if single then Some (h, None)
     else do {
       r \<leftarrow> dl_prev h del;
       n \<leftarrow> dl_next h del;
       s \<leftarrow> n;
       h \<leftarrow> dl_set_prev h s r;
       n \<leftarrow> dl_next h del;
       r \<leftarrow> dl_prev h del;
       t \<leftarrow> r;
       h \<leftarrow> dl_set_next h t n;
       n \<leftarrow> dl_next h del;
       Some (h, if head = Some del then n else head)
     }
   }"

definition CDL_REPLACE_ELEM2 :: "'a dheap \<Rightarrow> nat option \<Rightarrow> nat \<Rightarrow> nat \<Rightarrow> ('a dheap \<times> nat option) option" where
  "CDL_REPLACE_ELEM2 h head el add = do {
     p \<leftarrow> head;
     n \<leftarrow> dl_next h el;
     if n = Some el then do {
       h \<leftarrow> dl_set_next h add (Some add);
       h \<leftarrow> dl_set_prev h add (Some add);
       Some (h, Some add)
     }
     else do {
       h \<leftarrow> dl_set_next h add n;
       r \<leftarrow> dl_prev h el;
       h \<leftarrow> dl_set_prev h add r;
       n \<leftarrow> dl_next h add;
       s \<leftarrow> n;
       h \<leftarrow> dl_set_prev h s (Some add);
       r \<leftarrow> dl_prev h add;
       t \<leftarrow> r;
       h \<leftarrow> dl_set_next h t (Some add);
       Some (h, if head = Some el then Some add else head)
     }
   }"

definition CDL_PREPEND_ELEM2 :: "'a dheap \<Rightarrow> nat option \<Rightarrow> nat option \<Rightarrow> nat \<Rightarrow> ('a dheap \<times> nat option) option" where
  "CDL_PREPEND_ELEM2 h head el add =
     (case el of
        Some e \<Rightarrow> do {
          p \<leftarrow> head;
          h \<leftarrow> dl_set_next h add el;
          r \<leftarrow> dl_prev h e;
          h \<leftarrow> dl_set_prev h add r;
          h \<leftarrow> dl_set_prev h e (Some add);
          r \<leftarrow> dl_prev h add;
          t \<leftarrow> r;
          h \<leftarrow> dl_set_next h t (Some add);
          Some (h, if head = el then Some add else head)
        }
      | None \<Rightarrow> CDL_APPEND2 h head add)"

definition CDL_APPEND_ELEM2 :: "'a dheap \<Rightarrow> nat option \<Rightarrow> nat option \<Rightarrow> nat \<Rightarrow> ('a dheap \<times> nat option) option" where
  "CDL_APPEND_ELEM2 h head el add =
     (case el of
        Some e \<Rightarrow> do {
          p \<leftarrow> head;
          n \<leftarrow> dl_next h e;
          h \<leftarrow> dl_set_next h add n;
          h \<leftarrow> dl_set_prev h add el;
          h \<leftarrow> dl_set_next h e (Some add);
          n \<leftarrow> dl_next h add;
          s \<leftarrow> n;
          h \<leftarrow> dl_set_prev h s (Some add);
          Some (h, head)
        }
      | None \<Rightarrow> CDL_PREPEND2 h head add)"

partial_function (option) cdl_lower_loop :: "('a \<Rightarrow> 'a \<Rightarrow> int) \<Rightarrow> 'a dheap \<Rightarrow> 'a \<Rightarrow> nat \<Rightarrow> nat \<Rightarrow> nat option" where
  "cdl_lower_loop cmp h like head elt = do {
     n \<leftarrow> dl_next h elt;
     if n = Some head then Some elt
     else do {
       r \<leftarrow> n;
       x \<leftarrow> h r;
       if cmp (dn_data x) like \<ge> 0 then Some elt else cdl_lower_loop cmp h like head r
     }
   }"

definition CDL_LOWER_BOUND2 :: "('a \<Rightarrow> 'a \<Rightarrow> int) \<Rightarrow> 'a dheap \<Rightarrow> nat option \<Rightarrow> 'a \<Rightarrow> nat option option" where
  "CDL_LOWER_BOUND2 cmp h head like =
     (case head of
        None \<Rightarrow> Some None
      | Some p \<Rightarrow> do {
          x \<leftarrow> h p;
          if cmp (dn_data x) like \<ge> 0 then Some None
          else do {
            e \<leftarrow> cdl_lower_loop cmp h like p p;
            Some (Some e)
          }
        })"

definition CDL_INSERT_INORDER2 :: "('a \<Rightarrow> 'a \<Rightarrow> int) \<Rightarrow> 'a dheap \<Rightarrow> nat option \<Rightarrow> nat \<Rightarrow> ('a dheap \<times> nat option) option" where
  "CDL_INSERT_INORDER2 cmp h head add =
     (case head of
        Some p \<Rightarrow> do {
          x \<leftarrow> h add;
          tmp \<leftarrow> CDL_LOWER_BOUND2 cmp h head (dn_data x);
          CDL_APPEND_ELEM2 h head tmp add
        }
      | None \<Rightarrow> do {
          h \<leftarrow> dl_set_next h add (Some add);
          h \<leftarrow> dl_set_prev h add (Some add);
          Some (h, Some add)
        })"

definition CDL_INSERT_INORDER2_no_decltype ::
  "('a \<Rightarrow> 'a \<Rightarrow> int) \<Rightarrow> 'a dheap \<Rightarrow> nat option \<Rightarrow> nat \<Rightarrow> ('a dheap \<times> nat option) option" where
  "CDL_INSERT_INORDER2_no_decltype cmp h head add =
     (case head of
        None \<Rightarrow> do {
          h \<leftarrow> dl_set_prev h add (Some add);
          h \<leftarrow> dl_set_next h add (Some add);
          Some (h, Some add)
        }
      | Some p \<Rightarrow> do {
          x \<leftarrow> h p;
          y \<leftarrow> h add;
          if cmp (dn_data x) (dn_data y) \<ge> 0 then do {
            r \<leftarrow> dl_prev h p;
            h \<leftarrow> dl_set_prev h add r;
            h \<leftarrow> dl_set_next h add head;
            r \<leftarrow> dl_prev h add;
            t \<leftarrow> r;
            h \<leftarrow> dl_set_next h t (Some add);
            h \<leftarrow> dl_set_prev h p (Some add);
            Some (h, Some add)
          }
          else do {
            walk \<leftarrow> cdl_lower_loop cmp h (dn_data y) p p;
            h \<leftarrow> dl_set_prev h add (Some walk);
            n \<leftarrow> dl_next h walk;
            h \<leftarrow> dl_set_next h add n;
            n \<leftarrow> dl_next h add;
            s \<leftarrow> n;
            h \<leftarrow> dl_set_prev h s (Some add);
            h \<leftarrow> dl_set_next h walk (Some add);
            Some (h, head)
          }
        })"

text \<open>\<^verbatim>\<open>CDL_FOREACH\<close> counting, and leaving the loop at the first element that satisfies a
  condition, as the searches do.\<close>

definition cdl_step :: "'a dheap \<Rightarrow> nat option \<Rightarrow> nat \<Rightarrow> nat option option" where
  "cdl_step h head el = do { n \<leftarrow> dl_next h el; Some (if n = head then None else n) }"

partial_function (option) cdl_count :: "'a dheap \<Rightarrow> nat option \<Rightarrow> nat option \<Rightarrow> nat \<Rightarrow> nat option" where
  "cdl_count h head el counter =
     (case el of None \<Rightarrow> Some counter | Some p \<Rightarrow> do { n \<leftarrow> cdl_step h head p; cdl_count h head n (Suc counter) })"

definition CDL_COUNT2 :: "'a dheap \<Rightarrow> nat option \<Rightarrow> nat option" where
  "CDL_COUNT2 h head = cdl_count h head head 0"

partial_function (option) cdl_find :: "'a dheap \<Rightarrow> ('a \<Rightarrow> bool) \<Rightarrow> nat option \<Rightarrow> nat option \<Rightarrow> nat option option" where
  "cdl_find h P head el =
     (case el of
        None \<Rightarrow> Some None
      | Some p \<Rightarrow> do {
          x \<leftarrow> h p;
          if P (dn_data x) then Some (Some p)
          else do { n \<leftarrow> cdl_step h head p; cdl_find h P head n }
        })"

definition CDL_SEARCH_SCALAR2 :: "'a dheap \<Rightarrow> nat option \<Rightarrow> ('a \<Rightarrow> 'b) \<Rightarrow> 'b \<Rightarrow> nat option option" where
  "CDL_SEARCH_SCALAR2 h head field val = cdl_find h (\<lambda>x. field x = val) head head"

definition CDL_SEARCH2 :: "('a \<Rightarrow> 'b \<Rightarrow> int) \<Rightarrow> 'a dheap \<Rightarrow> nat option \<Rightarrow> 'b \<Rightarrow> nat option option" where
  "CDL_SEARCH2 cmp h head elt = cdl_find h (\<lambda>x. cmp x elt = 0) head head"

section \<open>Rings\<close>

definition cdl_list :: "'a dheap \<Rightarrow> nat option \<Rightarrow> nat list \<Rightarrow> bool" where
  "cdl_list h head as \<longleftrightarrow> distinct as
     \<and> (if as = [] then head = None
        else dl_seg h (Some (last as)) head as head (Some (last as)))"

lemma cdl_list_Nil [simp]: "cdl_list h head [] \<longleftrightarrow> head = None"
  by (simp add: cdl_list_def)

lemma cdl_listD:
  assumes "cdl_list h head as" and "as \<noteq> []"
  shows "distinct as" "set as \<subseteq> dom h" "dl_seg h (Some (last as)) (Some (hd as)) as (Some (hd as)) (Some (last as))" "head = Some (hd as)"
proof -
  from assms have t: "distinct as" "dl_seg h (Some (last as)) head as head (Some (last as))" by (auto simp: cdl_list_def)
  from t(1) dl_seg_dom [OF t(2)] show "distinct as" "set as \<subseteq> dom h" .
  from dl_seg_ends(1) [OF t(2) assms(2)] show "head = Some (hd as)" .
  with t(2) show "dl_seg h (Some (last as)) (Some (hd as)) as (Some (hd as)) (Some (last as))" by simp
qed

abbreviation cdl_gives :: "'a dheap \<Rightarrow> ('a dheap \<times> nat option) option \<Rightarrow> nat list \<Rightarrow> bool" where
  "cdl_gives \<equiv> gives cdl_list dn_data"

lemma cdl_givesI:
  assumes "r = Some (h', Some (hd as))" and "as \<noteq> []" and "distinct as"
    and "dl_seg h' (Some (last as)) (Some (hd as)) as (Some (hd as)) (Some (last as))" and "payload dn_data h' = payload dn_data h"
  shows "cdl_gives h r as"
  using assms by (simp add: gives_def cdl_list_def)

text \<open>A ring without the head pointer, and what linking and unlinking a node do to it. The node
  goes between \<open>us\<close> and \<open>vs\<close>.\<close>

definition ring :: "'a dheap \<Rightarrow> nat list \<Rightarrow> bool" where
  "ring h as \<longleftrightarrow> distinct as \<and> dl_seg h (Some (last as)) (Some (hd as)) as (Some (hd as)) (Some (last as))"

abbreviation pred_of :: "nat list \<Rightarrow> nat list \<Rightarrow> nat" where
  "pred_of us vs \<equiv> (if us = [] then last vs else last us)"

abbreviation succ_of :: "nat list \<Rightarrow> nat list \<Rightarrow> nat" where
  "succ_of us vs \<equiv> (if vs = [] then hd us else hd vs)"

definition link_in :: "'a dheap \<Rightarrow> nat \<Rightarrow> nat \<Rightarrow> nat \<Rightarrow> 'a dheap" where
  "link_in h t a s = upd_next (upd_next (upd_prev (upd_prev h a (Some t)) s (Some a)) a (Some s)) t (Some a)"

definition link_out :: "'a dheap \<Rightarrow> nat \<Rightarrow> nat \<Rightarrow> 'a dheap" where
  "link_out h t s = upd_next (upd_prev h s (Some t)) t (Some s)"

lemma payload_link [simp]:
  "payload dn_data (link_in h t a s) = payload dn_data h" "payload dn_data (link_out h t s) = payload dn_data h"
  by (simp_all add: link_in_def link_out_def)

lemma ring_insert:
  assumes "ring h (us @ vs)" and "us @ vs \<noteq> []" and "a \<in> dom h" and "a \<notin> set (us @ vs)"
  shows "ring (link_in h (pred_of us vs) a (succ_of us vs)) (us @ a # vs)"
proof -
  let ?H = "link_in h (pred_of us vs) a (succ_of us vs)"
  let ?t = "Some (last (us @ vs))" and ?s = "Some (hd (us @ vs))"
  from assms(1) have d: "distinct us" "distinct vs" "set us \<inter> set vs = {}" and seg: "dl_seg h ?t ?s (us @ vs) ?s ?t"
    by (auto simp: ring_def)
  from seg obtain m k where parts: "dl_seg h ?t ?s us m k" "dl_seg h k m vs ?s ?t" by (auto simp: dl_seg_append)
  have out: "a \<notin> set us" "a \<notin> set vs" using assms(4) by auto
  have ne: "a \<noteq> pred_of us vs" "a \<noteq> succ_of us vs" using out assms(2) by (auto dest: hd_in_set last_in_set)
  have node: "dl_prev ?H a = Some (Some (pred_of us vs))" "dl_next ?H a = Some (Some (succ_of us vs))"
    unfolding link_in_def using ne assms(3) by auto
  have whole: "dl_seg ?H (Some a) (Some (hd xs)) xs (Some a) (Some (last xs))"
    if "xs \<noteq> []" "distinct xs" "a \<notin> set xs" "dl_seg h r p xs q l" "?H = link_in h (last xs) a (hd xs)" for xs r p q l
  proof -
    have "dl_seg (upd_prev h a (Some (last xs))) r p xs q l" using that by simp
    from dl_seg_first [OF this that(1,2), of "Some a"]
    have "dl_seg (upd_next (upd_prev (upd_prev h a (Some (last xs))) (hd xs) (Some a)) a (Some (hd xs))) (Some a) p xs q l" using that by simp
    from dl_seg_last [OF this that(1,2), of "Some a"] dl_seg_ends(1,2) [OF that(4,1)] that(5) show ?thesis by (simp add: link_in_def)
  qed
  show ?thesis
  proof (cases "us = []"; cases "vs = []")
    assume e: "us = []" "vs \<noteq> []"
    with whole [OF e(2) d(2) out(2) parts(2)] node show ?thesis using d out by (auto simp: ring_def)
  next
    assume e: "us \<noteq> []" "vs = []"
    with whole [OF e(1) d(1) out(1) parts(1)] node show ?thesis using d out by (auto simp: ring_def dl_seg_append)
  next
    assume e: "us \<noteq> []" "vs \<noteq> []"
    note sep = ends_apart [OF e(1) d(3)] ends_apart [OF e(2), of us] and ends = dl_seg_ends [OF parts(1) e(1)] dl_seg_ends [OF parts(2) e(2)]
    have sep': "hd vs \<notin> set us" using sep d(3) by blast
    let ?h = "upd_next (upd_prev (upd_prev h a (Some (last us))) (hd vs) (Some a)) a (Some (hd vs))"
    have H: "?H = upd_next ?h (last us) (Some a)" using e by (simp add: link_in_def)
    have "dl_seg ?h ?t ?s us m k" using parts(1) out(1) sep' by simp
    from dl_seg_last [OF this e(1) d(1), of "Some a"] have left: "dl_seg ?H ?t ?s us (Some a) (Some (last us))" using ends(2) H by simp
    have "dl_seg (upd_prev h a (Some (last us))) k m vs ?s ?t" using parts(2) out(2) by simp
    from dl_seg_first [OF this e(2) d(2), of "Some a"] have right: "dl_seg ?H (Some a) (Some (hd vs)) vs ?s ?t"
      using ends(5) out(2) sep(2) H by simp
    from left right node e have "dl_seg ?H ?t ?s (us @ a # vs) ?s ?t" unfolding dl_seg_append by auto
    then show ?thesis using d out e by (auto simp: ring_def)
  qed (use assms(2) in simp)
qed

lemma ring_delete:
  assumes "ring h (us @ d # vs)" and "us @ vs \<noteq> []"
  shows "ring (link_out h (pred_of us vs) (succ_of us vs)) (us @ vs)"
proof -
  let ?H = "link_out h (pred_of us vs) (succ_of us vs)"
  from assms(1) have d: "distinct us" "distinct vs" "set us \<inter> set vs = {}" "d \<notin> set us" "d \<notin> set vs" by (auto simp: ring_def)
  from assms(1) obtain k n where parts: "dl_seg h (Some (last (us @ d # vs))) (Some (hd (us @ d # vs))) us (Some d) k"
    "dl_seg h (Some d) n vs (Some (hd (us @ d # vs))) (Some (last (us @ d # vs)))" by (auto simp: ring_def dl_seg_append)
  have whole: "dl_seg ?H (Some (last xs)) (Some (hd xs)) xs (Some (hd xs)) (Some (last xs))"
    if "xs \<noteq> []" "distinct xs" "dl_seg h r p xs q l" "?H = link_out h (last xs) (hd xs)" for xs r p q l
    using dl_seg_last [OF dl_seg_first [OF that(3,1,2)] that(1,2)] dl_seg_ends(1,2) [OF that(3,1)] that(4) by (simp add: link_out_def)
  show ?thesis
  proof (cases "us = []"; cases "vs = []")
    assume e: "us = []" "vs \<noteq> []"
    with whole [OF e(2) d(2) parts(2)] show ?thesis using d by (simp add: ring_def)
  next
    assume e: "us \<noteq> []" "vs = []"
    with whole [OF e(1) d(1) parts(1)] show ?thesis using d by (simp add: ring_def)
  next
    assume e: "us \<noteq> []" "vs \<noteq> []"
    have "distinct (us @ vs)" using d by simp
    from dl_seg_join [OF parts e this] e this show ?thesis by (simp add: ring_def link_out_def upd_commute)
  qed (use assms(2) in simp)
qed

lemma ring_dom: "ring h as \<Longrightarrow> set as \<subseteq> dom h"
  by (auto simp: ring_def dest!: dl_seg_dom)

lemma ring_neighbours:
  assumes "ring h (us @ e # vs)"
  shows "dl_prev h e = Some (Some (if us = [] then last (e # vs) else last us))"
    "dl_next h e = Some (Some (if vs = [] then hd (us @ [e]) else hd vs))"
proof -
  let ?t = "Some (last (us @ e # vs))" and ?s = "Some (hd (us @ e # vs))"
  from assms obtain k n where p: "dl_seg h ?t ?s us (Some e) k" "dl_prev h e = Some k" "dl_next h e = Some n" "dl_seg h (Some e) n vs ?s ?t"
    by (auto simp: ring_def dl_seg_append)
  show "dl_prev h e = Some (Some (if us = [] then last (e # vs) else last us))"
    using p(1,2) dl_seg_ends(2) [OF p(1)] by (cases "us = []") auto
  show "dl_next h e = Some (Some (if vs = [] then hd (us @ [e]) else hd vs))"
    using p(3,4) dl_seg_ends(1) [OF p(4)] by (cases "vs = []"; cases us) auto
qed

lemma cdl_ring: "as \<noteq> [] \<Longrightarrow> cdl_list h head as \<longleftrightarrow> head = Some (hd as) \<and> ring h as"
  using dl_seg_ends(1) [of h "Some (last as)" head as head "Some (last as)"] by (auto simp: cdl_list_def ring_def)

lemma ring_gives:
  "ring h' as \<Longrightarrow> r = Some (h', Some (hd as)) \<Longrightarrow> as \<noteq> [] \<Longrightarrow> payload dn_data h' = payload dn_data h \<Longrightarrow> cdl_gives h r as"
  by (simp add: gives_def cdl_ring)

section \<open>What the macros do\<close>

lemma cdl_ends:
  assumes "ring h as" and "as \<noteq> []"
  shows "dl_prev h (hd as) = Some (Some (last as))" "dl_next h (last as) = Some (Some (hd as))"
  using dl_seg_ends(3,4) [of h _ _ as _ _] assms by (auto simp: ring_def)

lemma CDL_linked:
  assumes "ring h as" and "as \<noteq> []" and "a \<in> dom h" and "a \<notin> set as"
  shows "CDL_APPEND2 h (Some (hd as)) a = Some (link_in h (last as) a (hd as), Some (hd as))"
    and "CDL_PREPEND2 h (Some (hd as)) a = Some (link_in h (last as) a (hd as), Some a)"
  using ends_facts [OF assms(2) ring_dom [OF assms(1)] assms(4)] cdl_ends [OF assms(1,2)] assms(3)
  by (simp_all add: CDL_APPEND2_def CDL_PREPEND2_def link_in_def upd_commute)

lemma CDL_APPEND2_gives:
  assumes "cdl_list h head as" and "a \<in> dom h" and "a \<notin> set as"
  shows "cdl_gives h (CDL_APPEND2 h head a) (as @ [a])"
proof (cases "as = []")
  case True
  with assms dom_read [OF assms(2)] show ?thesis by (auto simp: CDL_APPEND2_def ring_def intro!: ring_gives)
next
  case False
  with assms(1) have r: "head = Some (hd as)" "ring h as" by (simp_all add: cdl_ring)
  from ring_insert [of h as "[]" a] r(2) False assms have "ring (link_in h (last as) a (hd as)) (as @ [a])" by simp
  from ring_gives [OF this] CDL_linked(1) [OF r(2) False assms(2,3)] r(1) False show ?thesis by simp
qed

lemma CDL_PREPEND2_gives:
  assumes "cdl_list h head as" and "a \<in> dom h" and "a \<notin> set as"
  shows "cdl_gives h (CDL_PREPEND2 h head a) (a # as)"
proof (cases "as = []")
  case True
  with assms dom_read [OF assms(2)] show ?thesis by (auto simp: CDL_PREPEND2_def ring_def intro!: ring_gives)
next
  case False
  with assms(1) have r: "head = Some (hd as)" "ring h as" by (simp_all add: cdl_ring)
  from ring_insert [of h "[]" as a] r(2) False assms have "ring (link_in h (last as) a (hd as)) (a # as)" by simp
  from ring_gives [OF this] CDL_linked(2) [OF r(2) False assms(2,3)] r(1) False show ?thesis by simp
qed

lemma CDL_DELETE2_run:
  assumes "dl_prev h d = Some (Some t)" and "dl_next h d = Some (Some s)" and "t \<noteq> d" and "s \<noteq> d" and "t \<in> dom h" and "s \<in> dom h"
  shows "CDL_DELETE2 h head d = Some (link_out h t s, if head = Some d then Some s else head)"
  using assms by (cases "head = Some d") (simp_all add: CDL_DELETE2_def link_out_def)

lemma CDL_DELETE2_gives:
  assumes "cdl_list h head (us @ d # vs)"
  shows "cdl_gives h (CDL_DELETE2 h head d) (us @ vs)"
proof -
  from assms have r: "head = Some (hd (us @ d # vs))" "ring h (us @ d # vs)" by (simp_all add: cdl_ring)
  then have d: "d \<notin> set us" "d \<notin> set vs" "set us \<subseteq> dom h" "set vs \<subseteq> dom h" using ring_dom [OF r(2)] by (auto simp: ring_def)
  note near = ring_neighbours [OF r(2)]
  show ?thesis
  proof (cases "us @ vs = []")
    case True
    with r near show ?thesis by (simp add: CDL_DELETE2_def gives_def)
  next
    case False
    have ne: "pred_of us vs \<noteq> d" "succ_of us vs \<noteq> d" "pred_of us vs \<in> dom h" "succ_of us vs \<in> dom h"
      using False d by (auto dest: hd_in_set last_in_set)
    have near': "dl_prev h d = Some (Some (pred_of us vs))" "dl_next h d = Some (Some (succ_of us vs))"
      using near False by (auto split: if_splits)
    have h: "(if head = Some d then Some (succ_of us vs) else head) = Some (hd (us @ vs))"
      using r(1) d(1) False by (cases us) auto
    from CDL_DELETE2_run [OF near' ne, of head] have "CDL_DELETE2 h head d = Some (link_out h (pred_of us vs) (succ_of us vs), Some (hd (us @ vs)))"
      unfolding h .
    from ring_gives [OF ring_delete [OF r(2) False] this False] show ?thesis by simp
  qed
qed

text \<open>Replacing an element is unlinking it and linking the new node in its place.\<close>

lemma link_in_out:
  assumes "a \<noteq> t" and "a \<noteq> s"
  shows "link_in (link_out h t s) t a s = link_in h t a s"
proof -
  have "upd_prev (upd_prev h b x) b y = upd_prev h b y" "upd_next (upd_next h b x) b y = upd_next h b y" for h :: "'a dheap" and b x y
    by (cases "h b"; simp add: upd_prev_def upd_next_def)+
  moreover have "b \<noteq> c \<Longrightarrow> upd_prev (upd_prev h b x) c y = upd_prev (upd_prev h c y) b x" "b \<noteq> c \<Longrightarrow> upd_next (upd_next h b x) c y = upd_next (upd_next h c y) b x"
    for h :: "'a dheap" and b c x y by (auto simp: upd_prev_def upd_next_def fun_eq_iff)
  ultimately show ?thesis using assms unfolding link_in_def link_out_def by (metis upd_commute)
qed

lemma CDL_REPLACE_ELEM2_run:
  assumes "dl_prev h e = Some (Some t)" and "dl_next h e = Some (Some s)" and "s \<noteq> e" and "t \<in> dom h" and "s \<in> dom h"
    and "a \<in> dom h" and "a \<noteq> e" and "a \<noteq> s" and "a \<noteq> t"
  shows "CDL_REPLACE_ELEM2 h (Some p) e a = Some (link_in h t a s, Some (if p = e then a else p))"
  using assms by (simp add: CDL_REPLACE_ELEM2_def link_in_def upd_commute)

lemma CDL_REPLACE_ELEM2_gives:
  assumes "cdl_list h head (us @ e # vs)" and "a \<in> dom h" and "a \<notin> set (us @ e # vs)"
  shows "cdl_gives h (CDL_REPLACE_ELEM2 h head e a) (us @ a # vs)"
proof -
  from assms(1) have r: "head = Some (hd (us @ e # vs))" "ring h (us @ e # vs)" by (simp_all add: cdl_ring)
  then have d: "e \<notin> set us" "e \<notin> set vs" "set us \<subseteq> dom h" "set vs \<subseteq> dom h" using ring_dom [OF r(2)] by (auto simp: ring_def)
  note near = ring_neighbours [OF r(2)]
  show ?thesis
  proof (cases "us @ vs = []")
    case True
    with r near assms dom_read [OF assms(2)] show ?thesis
      by (auto simp: CDL_REPLACE_ELEM2_def ring_def intro!: ring_gives)
  next
    case False
    let ?t = "pred_of us vs" and ?s = "succ_of us vs"
    have ne: "?s \<noteq> e" "?t \<in> dom h" "?s \<in> dom h" "a \<noteq> ?s" "a \<noteq> ?t"
      using False d assms(3) by (auto dest: hd_in_set last_in_set)
    have near': "dl_prev h e = Some (Some ?t)" "dl_next h e = Some (Some ?s)"
      using near False by (auto split: if_splits)
    have h: "(if hd (us @ e # vs) = e then a else hd (us @ e # vs)) = hd (us @ a # vs)" using d(1) by (cases us) auto
    have "a \<noteq> e" using assms(3) by simp
    from CDL_REPLACE_ELEM2_run [OF near' ne(1-3) assms(2) this ne(4,5)] r(1)
    have run: "CDL_REPLACE_ELEM2 h head e a = Some (link_in h ?t a ?s, Some (hd (us @ a # vs)))" by (simp only: h)
    have "ring (link_in (link_out h ?t ?s) ?t a ?s) (us @ a # vs)"
      using assms(2,3) by (intro ring_insert [OF ring_delete [OF r(2) False] False]) (auto simp: link_out_def)
    then have "ring (link_in h ?t a ?s) (us @ a # vs)" by (simp only: link_in_out [OF ne(5,4)])
    from ring_gives [OF this run] show ?thesis by simp
  qed
qed

lemma CDL_PREPEND_ELEM2_gives:
  assumes "cdl_list h head (us @ e # vs)" and "a \<in> dom h" and "a \<notin> set (us @ e # vs)"
  shows "cdl_gives h (CDL_PREPEND_ELEM2 h head (Some e) a) (us @ a # e # vs)"
proof -
  from assms(1) have r: "head = Some (hd (us @ e # vs))" "ring h (us @ e # vs)" by (simp_all add: cdl_ring)
  let ?t = "pred_of us (e # vs)"
  have d: "e \<notin> set us" "e \<in> dom h" "?t \<in> dom h" "a \<noteq> e" "a \<noteq> ?t" using r(2) ring_dom [OF r(2)] assms(3) by (auto simp: ring_def dest: last_in_set)
  have h: "(if head = Some e then Some a else head) = Some (hd (us @ a # e # vs))" using r(1) d(1) by (cases us) auto
  have "dl_prev h e = Some (Some ?t)" using ring_neighbours(1) [OF r(2)] .
  then have run: "CDL_PREPEND_ELEM2 h head (Some e) a = Some (link_in h ?t a e, Some (hd (us @ a # e # vs)))"
    unfolding h [symmetric] using r(1) d assms(2) by (simp add: CDL_PREPEND_ELEM2_def link_in_def upd_commute)
  from ring_insert [OF r(2) _ assms(2,3)] have "ring (link_in h ?t a e) (us @ a # e # vs)" by simp
  from ring_gives [OF this run] show ?thesis by simp
qed

lemma CDL_APPEND_ELEM2_gives:
  assumes "cdl_list h head (us @ e # vs)" and "a \<in> dom h" and "a \<notin> set (us @ e # vs)"
  shows "cdl_gives h (CDL_APPEND_ELEM2 h head (Some e) a) (us @ e # a # vs)"
proof -
  from assms(1) have r: "head = Some (hd (us @ e # vs))" "ring h (us @ e # vs)" by (simp_all add: cdl_ring)
  let ?s = "succ_of (us @ [e]) vs"
  have d: "e \<in> dom h" "?s \<in> dom h" "a \<noteq> e" "a \<noteq> ?s" using ring_dom [OF r(2)] assms(3) by (cases us; auto dest: hd_in_set)+
  have h: "head = Some (hd ((us @ [e]) @ a # vs))" using r(1) by (cases us) auto
  have "dl_next h e = Some (Some ?s)" using ring_neighbours(2) [OF r(2)] .
  then have run: "CDL_APPEND_ELEM2 h head (Some e) a = Some (link_in h e a ?s, Some (hd ((us @ [e]) @ a # vs)))"
    unfolding h using d assms(2) by (simp add: CDL_APPEND_ELEM2_def link_in_def upd_commute)
  from ring_insert [of h "us @ [e]" vs a] r(2) assms(2,3) have "ring (link_in h e a ?s) ((us @ [e]) @ a # vs)" by simp
  from ring_gives [OF this run] show ?thesis by simp
qed

section \<open>Walking around the ring\<close>

text \<open>The walk from a node of the ring stops where the ring closes; \<open>p\<close> is the head.\<close>

lemma cdl_step_seg:
  assumes "dl_seg h r (Some b) (b # as) (Some p) l" and "p \<notin> set as"
  shows "cdl_step h (Some p) b = Some (case as of [] \<Rightarrow> None | c # _ \<Rightarrow> Some c)"
  using assms by (cases as) (auto simp: cdl_step_def)

lemma cdl_count_seg:
  "dl_seg h r q as (Some p) l \<Longrightarrow> as \<noteq> [] \<Longrightarrow> p \<notin> set (tl as) \<Longrightarrow> cdl_count h (Some p) q k = Some (k + length as)"
proof (induction as arbitrary: r q k)
  case (Cons b as)
  then have q: "q = Some b" "dl_seg h r (Some b) (b # as) (Some p) l" by auto
  note step = cdl_step_seg [OF q(2)]
  show ?case
  proof (cases as)
    case Nil
    with q(1) step show ?thesis by (subst cdl_count.simps) (simp add: cdl_count.simps [of _ _ None])
  next
    case (Cons c cs)
    with q(2) have "dl_seg h (Some b) (Some c) as (Some p) l" by auto
    from Cons.IH [OF this] Cons.prems(3) Cons q(1) step show ?thesis by (subst cdl_count.simps) simp
  qed
qed simp

lemma CDL_COUNT2_length:
  assumes "cdl_list h head as"
  shows "CDL_COUNT2 h head = Some (length as)"
proof (cases as)
  case Nil
  with assms show ?thesis by (simp add: CDL_COUNT2_def cdl_count.simps [of _ _ None])
next
  case (Cons p bs)
  then have "as \<noteq> []" by simp
  note as = cdl_listD [OF assms this]
  from cdl_count_seg [OF as(3), of 0] as(1,4) Cons show ?thesis by (simp add: CDL_COUNT2_def)
qed

lemma cdl_find_seg:
  "dl_seg h r q as (Some p) l \<Longrightarrow> as \<noteq> [] \<Longrightarrow> p \<notin> set (tl as) \<Longrightarrow>
   cdl_find h P (Some p) q = Some (find (\<lambda>b. P (the (payload dn_data h b))) as)"
proof (induction as arbitrary: r q)
  case outer: (Cons b as)
  then have q: "q = Some b" "dl_seg h r (Some b) (b # as) (Some p) l" by auto
  then obtain x where x: "h b = Some x" using dl_seg_dom [OF q(2)] by auto
  note step = cdl_step_seg [OF q(2)]
  show ?case
  proof (cases as)
    case Nil
    with q(1) x step show ?thesis by (subst cdl_find.simps) (simp add: cdl_find.simps [of _ _ _ None])
  next
    case (Cons c cs)
    with q(2) have "dl_seg h (Some b) (Some c) as (Some p) l" by auto
    from outer.IH [OF this] outer.prems(3) Cons q(1) x step show ?thesis by (subst cdl_find.simps) simp
  qed
qed simp

text \<open>The searches find the first node that matches.\<close>

lemma CDL_SEARCH2_find:
  assumes "cdl_list h head as"
  shows "CDL_SEARCH2 cmp h head v = Some (find (\<lambda>b. cmp (the (payload dn_data h b)) v = 0) as)"
proof (cases as)
  case Nil
  with assms show ?thesis by (simp add: CDL_SEARCH2_def cdl_find.simps [of _ _ _ None])
next
  case (Cons p bs)
  then have "as \<noteq> []" by simp
  note as = cdl_listD [OF assms this]
  from cdl_find_seg [OF as(3), of "\<lambda>x. cmp x v = 0"] as(1,4) Cons show ?thesis by (simp add: CDL_SEARCH2_def)
qed

lemma cdl_lower_loop_step:
  "dl_next h b = Some (Some r) \<Longrightarrow> r \<noteq> p \<Longrightarrow> h r = Some x \<Longrightarrow>
   cdl_lower_loop cmp h v p b = (if cmp (dn_data x) v \<ge> 0 then Some b else cdl_lower_loop cmp h v p r)"
  by (subst cdl_lower_loop.simps) simp

lemma cdl_lower_loop_end: "dl_next h b = Some (Some p) \<Longrightarrow> cdl_lower_loop cmp h v p b = Some b"
  by (subst cdl_lower_loop.simps) simp

lemma cdl_lower_loop_last:
  "dl_seg h r (Some b) (b # as) (Some p) l \<Longrightarrow> p \<notin> set as \<Longrightarrow>
   cdl_lower_loop cmp h v p b = Some (last (b # below dn_data cmp h v as))"
proof (induction as arbitrary: r b)
  case Nil
  then show ?case by (simp add: cdl_lower_loop_end below_def)
next
  case (Cons c as)
  then have c: "dl_next h b = Some (Some c)" "dl_seg h (Some b) (Some c) (c # as) (Some p) l" "c \<noteq> p" by auto
  then obtain x where x: "h c = Some x" using dl_seg_dom [OF c(2)] by auto
  from cdl_lower_loop_step [where h = h, OF c(1,3) x, of cmp v] Cons.IH [OF c(2)] Cons.prems(2) x show ?case by (auto simp: below_def)
qed

lemma CDL_LOWER_BOUND2_below:
  assumes "cdl_list h head as"
  shows "CDL_LOWER_BOUND2 cmp h head v = Some (if below dn_data cmp h v as = [] then None else Some (last (below dn_data cmp h v as)))"
proof (cases as)
  case Nil
  with assms show ?thesis by (simp add: CDL_LOWER_BOUND2_def below_def)
next
  case (Cons p bs)
  then have "as \<noteq> []" by simp
  note as = cdl_listD [OF assms this]
  from as(2) Cons obtain x where "h p = Some x" by auto
  with cdl_lower_loop_last [of h "Some (last as)" p bs p "Some (last as)" cmp v] as(1,3,4) Cons show ?thesis
    by (auto simp: CDL_LOWER_BOUND2_def below_def)
qed

section \<open>The contract\<close>

definition CDL_macros :: "'a dnode list_macros" where
  "CDL_macros = \<lparr>m_prepend = CDL_PREPEND2, m_append = CDL_APPEND2, m_delete = CDL_DELETE2, m_replace = CDL_REPLACE_ELEM2,
     m_prepend_elem = CDL_PREPEND_ELEM2, m_append_elem = CDL_APPEND_ELEM2\<rparr>"

lemma cdl_list_nodes: "cdl_list h head as \<Longrightarrow> distinct as \<and> set as \<subseteq> dom h"
  using cdl_listD(1,2) [of h head as] by (cases "as = []") auto

interpretation cdl_elements: element_list cdl_list dn_data CDL_macros
  by unfold_locales (simp_all add: CDL_macros_def CDL_PREPEND2_gives CDL_APPEND2_gives CDL_DELETE2_gives CDL_REPLACE_ELEM2_gives
      CDL_PREPEND_ELEM2_gives CDL_APPEND_ELEM2_gives cdl_list_nodes)

interpretation cdl_ordered: ordered_list cdl_list dn_data CDL_macros CDL_LOWER_BOUND2 CDL_INSERT_INORDER2
proof unfold_locales
  fix h :: "'a dheap" and head as cmp v
  assume rep: "cdl_list h head as"
  then show "CDL_LOWER_BOUND2 cmp h head v = Some (if below dn_data cmp h v as = [] then None else Some (last (below dn_data cmp h v as)))"
    by (rule CDL_LOWER_BOUND2_below)
  fix a
  {
    assume a: "a \<in> dom h" "a \<notin> set as"
    from CDL_PREPEND2_gives [OF rep a] show "cdl_gives h (m_append_elem CDL_macros h head None a) (a # as)"
      by (simp add: CDL_macros_def CDL_APPEND_ELEM2_def)
  next
    fix n assume "as \<noteq> []" "h a = Some n"
    with cdl_listD(4) [OF rep] show "CDL_INSERT_INORDER2 cmp h head a =
        Option.bind (CDL_LOWER_BOUND2 cmp h head (dn_data n)) (\<lambda>e. m_append_elem CDL_macros h head e a)"
      by (simp add: CDL_INSERT_INORDER2_def CDL_macros_def)
  }
next
  fix h :: "'a dheap" and head a and cmp :: "'a \<Rightarrow> 'a \<Rightarrow> int"
  assume rep: "cdl_list h head []" and a: "a \<in> dom h"
  then have "CDL_INSERT_INORDER2 cmp h head a = CDL_APPEND2 h head a"
    by (simp add: CDL_INSERT_INORDER2_def CDL_APPEND2_def upd_commute)
  with CDL_APPEND2_gives [OF rep a] show "cdl_gives h (CDL_INSERT_INORDER2 cmp h head a) [a]" by simp
qed

lemma CDL_INSERT_INORDER2_no_decltype_eq:
  assumes "cdl_list h head as" and "a \<in> dom h" and "a \<notin> set as"
  shows "CDL_INSERT_INORDER2_no_decltype cmp h head a = CDL_INSERT_INORDER2 cmp h head a"
proof (cases as)
  case Nil
  with assms show ?thesis by (simp add: CDL_INSERT_INORDER2_no_decltype_def CDL_INSERT_INORDER2_def upd_commute)
next
  case (Cons p bs)
  then have ne: "as \<noteq> []" by simp
  note as = cdl_listD [OF assms(1) ne]
  from assms(2) obtain y where y: "h a = Some y" by auto
  from Cons as obtain x where x: "head = Some p" "h p = Some x" "dl_seg h (Some (last as)) (Some p) (p # bs) (Some p) (Some (last as))"
    "p \<notin> set bs" by auto
  let ?lo = "below dn_data cmp h (dn_data y) bs"
  have walk: "cdl_lower_loop cmp h (dn_data y) p p = Some (last (p # ?lo))" using x(3,4) by (rule cdl_lower_loop_last)
  have "last (p # ?lo) \<in> set (p # ?lo)" by (rule last_in_set) simp
  then have e: "last (p # ?lo) \<in> set as" using Cons by (auto simp: below_def dest: set_takeWhileD)
  then obtain us vs where cut: "as = us @ last (p # ?lo) # vs" by (auto dest: split_list)
  have ring: "ring h as" using as by (simp add: ring_def)
  let ?s = "succ_of (us @ [last (p # ?lo)]) vs"
  have n: "dl_next h (last (p # ?lo)) = Some (Some ?s)" using ring_neighbours(2) [OF ring [unfolded cut]] .
  have "?s \<in> set as" by (subst cut) (cases us; auto dest: hd_in_set)
  then have n': "?s \<in> dom h" "?s \<noteq> a" "last (p # ?lo) \<in> dom h" "last (p # ?lo) \<noteq> a" using e as(2) assms(3) by auto
  from cdl_ends [OF ring ne] Cons have p: "dl_prev h p = Some (Some (last as))" "p \<noteq> a" "last as \<noteq> a" "last as \<in> dom h"
    using assms(3) as(2) last_in_set [OF ne] by auto
  show ?thesis
    using x(1,2) y walk n n' p assms(2)
    by (simp add: CDL_INSERT_INORDER2_no_decltype_def CDL_INSERT_INORDER2_def CDL_LOWER_BOUND2_def CDL_APPEND_ELEM2_def
        CDL_PREPEND2_def upd_commute del: last.simps cong: if_cong)
qed

end
