(* ===== verification/Utlist_Iterate.thy ===== *)
theory Utlist_Iterate
  imports Utlist_Circular
begin

text \<open>
  The loops of \<^verbatim>\<open>json-rpc-common/utlist.h\<close> that allow their body to delete the current
  element of a doubly linked or circular list, and searching a doubly linked list. The body of a
  loop is the caller's; the theorems are about the use the macros are made for, deleting and
  freeing the elements that satisfy a condition.
\<close>

section \<open>The macros\<close>

text \<open>The successor is read before the body runs. \<open>stop\<close> tells whether the element just visited
  was the last one.\<close>

partial_function (option) safe_loop ::
  "((nat \<rightharpoonup> 'n) \<Rightarrow> nat \<Rightarrow> nat option option) \<Rightarrow> (nat \<Rightarrow> bool)
   \<Rightarrow> (nat \<Rightarrow> (nat \<rightharpoonup> 'n) \<times> nat option \<Rightarrow> ((nat \<rightharpoonup> 'n) \<times> nat option) option)
   \<Rightarrow> (nat \<rightharpoonup> 'n) \<times> nat option \<Rightarrow> nat option \<Rightarrow> ((nat \<rightharpoonup> 'n) \<times> nat option) option" where
  "safe_loop nxt stop body s el =
     (case el of
        None \<Rightarrow> Some s
      | Some p \<Rightarrow> do {
          tmp \<leftarrow> nxt (fst s) p;
          s \<leftarrow> body p s;
          safe_loop nxt stop body s (if stop p then None else tmp)
        })"

definition DL_FOREACH_SAFE2 ::
  "(nat \<Rightarrow> 'a dheap \<times> nat option \<Rightarrow> ('a dheap \<times> nat option) option) \<Rightarrow> 'a dheap \<times> nat option
   \<Rightarrow> ('a dheap \<times> nat option) option" where
  "DL_FOREACH_SAFE2 body s = safe_loop dl_next (\<lambda>el. False) body s (snd s)"

definition CDL_FOREACH_SAFE2 ::
  "(nat \<Rightarrow> 'a dheap \<times> nat option \<Rightarrow> ('a dheap \<times> nat option) option) \<Rightarrow> 'a dheap \<times> nat option
   \<Rightarrow> ('a dheap \<times> nat option) option" where
  "CDL_FOREACH_SAFE2 body s = do {
     tmp1 \<leftarrow> (case snd s of None \<Rightarrow> Some None | Some p \<Rightarrow> dl_prev (fst s) p);
     safe_loop dl_next (\<lambda>el. Some el = tmp1) body s (snd s)
   }"

text \<open>\<^verbatim>\<open>DL_SEARCH_SCALAR\<close> and \<^verbatim>\<open>DL_SEARCH\<close> are the macros of singly linked lists by name:
  the same loop over the \<^verbatim>\<open>next\<close> pointers of these nodes.\<close>

partial_function (option) dl_find :: "'a dheap \<Rightarrow> ('a \<Rightarrow> bool) \<Rightarrow> nat option \<Rightarrow> nat option option" where
  "dl_find h P out =
     (case out of
        None \<Rightarrow> Some None
      | Some p \<Rightarrow> do {
          n \<leftarrow> h p;
          if P (dn_data n) then Some (Some p) else dl_find h P (dn_next n)
        })"

definition DL_SEARCH_SCALAR2 :: "'a dheap \<Rightarrow> nat option \<Rightarrow> ('a \<Rightarrow> 'b) \<Rightarrow> 'b \<Rightarrow> nat option option" where
  "DL_SEARCH_SCALAR2 h head field val = dl_find h (\<lambda>x. field x = val) head"

definition DL_SEARCH2 :: "('a \<Rightarrow> 'b \<Rightarrow> int) \<Rightarrow> 'a dheap \<Rightarrow> nat option \<Rightarrow> 'b \<Rightarrow> nat option option" where
  "DL_SEARCH2 cmp h head elt = dl_find h (\<lambda>x. cmp x elt = 0) head"

section \<open>Removing elements while iterating\<close>

text \<open>\<^verbatim>\<open>if (cond) { DELETE (head, el); free (el); }\<close>\<close>

definition remove_elem ::
  "('n \<Rightarrow> 'a) \<Rightarrow> ((nat \<rightharpoonup> 'n) \<Rightarrow> nat option \<Rightarrow> nat \<Rightarrow> ((nat \<rightharpoonup> 'n) \<times> nat option) option) \<Rightarrow> ('a \<Rightarrow> bool)
   \<Rightarrow> nat \<Rightarrow> (nat \<rightharpoonup> 'n) \<times> nat option \<Rightarrow> ((nat \<rightharpoonup> 'n) \<times> nat option) option" where
  "remove_elem data del P p s = do {
     n \<leftarrow> fst s p;
     if P (data n) then do { s \<leftarrow> del (fst s) (snd s) p; Some ((fst s)(p := None), snd s) } else Some s
   }"

lemma restrict_map_UNIV: "m |` UNIV = m"
  by (simp add: fun_eq_iff)

text \<open>What the loop needs of a list, beyond the contract of its elements: freeing a node outside
  the list does no harm, and \<open>nxt\<close> leads from each node to the following one.\<close>

locale safe_iteration = element_list rep data M
  for rep :: "(nat \<rightharpoonup> 'n) \<Rightarrow> nat option \<Rightarrow> nat list \<Rightarrow> bool" and data :: "'n \<Rightarrow> 'a" and M :: "'n list_macros" +
  fixes nxt :: "(nat \<rightharpoonup> 'n) \<Rightarrow> nat \<Rightarrow> nat option option"
    and final :: "nat \<Rightarrow> nat option"
  assumes rep_free: "rep h head as \<Longrightarrow> a \<notin> set as \<Longrightarrow> rep (h(a := None)) head as"
    and rep_next: "rep h head (us @ p # x # xs) \<Longrightarrow> nxt h p = Some (Some x)"
    and rep_next_last: "rep h head (us @ [p]) \<Longrightarrow> nxt h p = Some (final (hd (us @ [p])))"
begin

text \<open>The elements that go and those that stay.\<close>

abbreviation goes :: "('a \<Rightarrow> bool) \<Rightarrow> (nat \<rightharpoonup> 'n) \<Rightarrow> nat \<Rightarrow> bool" where
  "goes P h a \<equiv> P (the (payload data h a))"

lemma remove_step:
  assumes "rep h head (us @ p # xs)"
  shows "\<exists>h' head'. remove_elem data (m_delete M) P p (h, head) = Some (h', head')
    \<and> rep h' head' (if goes P h p then us @ xs else us @ p # xs)
    \<and> payload data h' = (if goes P h p then (payload data h)(p := None) else payload data h)"
proof -
  from rep_nodes [OF assms] obtain n where n: "h p = Some n" "p \<notin> set (us @ xs)" by auto
  show ?thesis
  proof (cases "P (data n)")
    case True
    from rep_delete [OF assms] obtain k head' where k: "m_delete M h head p = Some (k, head')" "rep k head' (us @ xs)"
      "payload data k = payload data h" unfolding gives_def by blast
    from rep_free [OF k(2) n(2)] have "rep (k(p := None)) head' (us @ xs)" .
    moreover have "payload data (k(p := None)) = (payload data h)(p := None)"
      using k(3) by (auto simp: fun_eq_iff payload_def)
    ultimately show ?thesis using True n(1) k(1) by (simp add: remove_elem_def)
  qed (use n assms in \<open>simp add: remove_elem_def\<close>)
qed

lemma safe_loop_removes:
  assumes "rep h head (us @ xs)" and "el = (case xs of [] \<Rightarrow> None | p # _ \<Rightarrow> Some p)"
    and "\<forall>p \<in> set (butlast xs). \<not> stop p" and "xs \<noteq> [] \<Longrightarrow> stop (last xs) \<or> (\<forall>a. final a = None)"
  shows "\<exists>h' head'. safe_loop nxt stop (remove_elem data (m_delete M) P) (h, head) el = Some (h', head')
    \<and> rep h' head' (us @ filter (\<lambda>a. \<not> goes P h a) xs)
    \<and> payload data h' = payload data h |` (- {a \<in> set xs. goes P h a})"
  using assms
proof (induction xs arbitrary: us h head el)
  case Nil
  then show ?case by (subst safe_loop.simps) (simp add: restrict_map_UNIV)
next
  case (Cons p xs)
  obtain k head1 where k: "remove_elem data (m_delete M) P p (h, head) = Some (k, head1)"
    "rep k head1 (if goes P h p then us @ xs else us @ p # xs)"
    "payload data k = (if goes P h p then (payload data h)(p := None) else payload data h)"
    using remove_step [OF Cons.prems(1), of P] by blast
  have d: "p \<notin> set xs" using rep_nodes [OF Cons.prems(1)] by simp
  obtain tmp where tmp: "nxt h p = Some tmp" "(if stop p then None else tmp) = (case xs of [] \<Rightarrow> None | q # _ \<Rightarrow> Some q)"
    using rep_next [of h head us p] rep_next_last [of h head us p] Cons.prems(1,3,4)
    by (cases xs) (auto split: if_splits)
  have same: "goes P k a \<longleftrightarrow> goes P h a" if "a \<in> set xs" for a using k(3) d that by auto
  let ?us = "if goes P h p then us else us @ [p]"
  have rep: "rep k head1 (?us @ xs)" using k(2) by (cases "goes P h p") simp_all
  have stops: "\<forall>p \<in> set (butlast xs). \<not> stop p" "xs \<noteq> [] \<Longrightarrow> stop (last xs) \<or> (\<forall>a. final a = None)"
    using Cons.prems(3,4) by (auto split: if_splits)
  obtain h' head' where r: "safe_loop nxt stop (remove_elem data (m_delete M) P) (k, head1) (case xs of [] \<Rightarrow> None | q # _ \<Rightarrow> Some q) = Some (h', head')"
    "rep h' head' (?us @ filter (\<lambda>a. \<not> goes P k a) xs)" "payload data h' = payload data k |` (- {a \<in> set xs. goes P k a})"
    using Cons.IH [OF rep HOL.refl stops] by blast
  have "safe_loop nxt stop (remove_elem data (m_delete M) P) (h, head) el = Some (h', head')"
    using Cons.prems(2) k(1) tmp r(1) by (subst safe_loop.simps) simp
  moreover have "filter (\<lambda>a. \<not> goes P k a) xs = filter (\<lambda>a. \<not> goes P h a) xs"
    using same by (intro filter_cong) simp_all
  with r(2) have "rep h' head' (us @ filter (\<lambda>a. \<not> goes P h a) (p # xs))"
    by (cases "goes P h p") simp_all
  moreover have "{a \<in> set xs. goes P k a} = {a \<in> set xs. goes P h a}" using same by blast
  then have "payload data h' = payload data h |` (- {a \<in> set (p # xs). goes P h a})"
    using r(3) k(3) by (auto simp: fun_eq_iff restrict_map_def)
  ultimately show ?case by blast
qed

end

lemma dl_seg_free: "a \<notin> set as \<Longrightarrow> dl_seg (h(a := None)) r p as q l = dl_seg h r p as q l"
  by (induction as arbitrary: r p) (auto simp: dl_prev_def dl_next_def)

interpretation dl_safe: safe_iteration dl_list dn_data DL_macros dl_next "\<lambda>_. None"
proof unfold_locales
  fix h :: "'a dheap" and head us p x xs
  assume "dl_list h head (us @ p # x # xs)"
  then show "dl_next h p = Some (Some x)" by (auto simp: dl_list_def dl_seg_append)
next
  fix h :: "'a dheap" and head us p
  assume "dl_list h head (us @ [p])"
  then show "dl_next h p = Some None" by (auto simp: dl_list_def dl_seg_append)
qed (auto simp: dl_list_def dl_seg_free)

interpretation cdl_safe: safe_iteration cdl_list dn_data CDL_macros dl_next Some
proof unfold_locales
  fix h :: "'a dheap" and head us p x xs
  assume "cdl_list h head (us @ p # x # xs)"
  then show "dl_next h p = Some (Some x)" by (auto simp: cdl_list_def dl_seg_append)
next
  fix h :: "'a dheap" and head us p
  assume "cdl_list h head (us @ [p])"
  then show "dl_next h p = Some (Some (hd (us @ [p])))"
    using cdl_listD [of h head "us @ [p]"] by (auto simp: dl_seg_append)
qed (auto simp: cdl_list_def dl_seg_free split: if_splits)

text \<open>The removal loops keep exactly the elements that do not satisfy the condition and free the
  others.\<close>

lemma DL_FOREACH_SAFE2_removes:
  assumes "dl_list h head as"
  shows "\<exists>h' head'. DL_FOREACH_SAFE2 (remove_elem dn_data DL_DELETE2 P) (h, head) = Some (h', head')
    \<and> dl_list h' head' (filter (\<lambda>a. \<not> P (the (payload dn_data h a))) as)
    \<and> payload dn_data h' = payload dn_data h |` (- {a \<in> set as. P (the (payload dn_data h a))})"
proof -
  have "head = (case as of [] \<Rightarrow> None | p # _ \<Rightarrow> Some p)"
    using assms dl_listD(4) [OF assms] by (cases as) auto
  from dl_safe.safe_loop_removes [of h head "[]" as, OF _ this, of "\<lambda>_. False" P] assms
  show ?thesis by (simp add: DL_FOREACH_SAFE2_def DL_macros_def)
qed

lemma CDL_FOREACH_SAFE2_removes:
  assumes "cdl_list h head as"
  shows "\<exists>h' head'. CDL_FOREACH_SAFE2 (remove_elem dn_data CDL_DELETE2 P) (h, head) = Some (h', head')
    \<and> cdl_list h' head' (filter (\<lambda>a. \<not> P (the (payload dn_data h a))) as)
    \<and> payload dn_data h' = payload dn_data h |` (- {a \<in> set as. P (the (payload dn_data h a))})"
proof (cases "as = []")
  case True
  with assms show ?thesis by (simp add: CDL_FOREACH_SAFE2_def safe_loop.simps restrict_map_UNIV)
next
  case False
  have d: "distinct as" "head = Some (hd as)" "dl_prev h (hd as) = Some (Some (last as))"
    using cdl_listD [OF assms False] dl_seg_ends(3) False by auto
  have el: "head = (case as of [] \<Rightarrow> None | p # _ \<Rightarrow> Some p)" using False d(2) by (cases as) auto
  have "\<forall>p \<in> set (butlast as). Some p \<noteq> Some (last as)"
    using d(1) False by (metis append_butlast_last_id distinct_append list.set_intros(1) option.inject disjoint_iff)
  from cdl_safe.safe_loop_removes [of h head "[]" as, OF _ el this, of P] assms d(2,3) False
  show ?thesis by (simp add: CDL_FOREACH_SAFE2_def CDL_macros_def)
qed

section \<open>Searching\<close>

lemma dl_find_seg:
  "dl_seg h r p as None l \<Longrightarrow> dl_find h P p = Some (find (\<lambda>a. P (the (payload dn_data h a))) as)"
proof (induction as arbitrary: r p)
  case Nil
  then show ?case by (subst dl_find.simps) simp
next
  case (Cons a as)
  then obtain n where n: "h a = Some n" "dl_seg h (Some a) (dn_next n) as None l" "p = Some a"
    by (auto simp: dl_next_def)
  with Cons.IH [OF n(2)] show ?case by (subst dl_find.simps) simp
qed

lemma DL_SEARCH2_find:
  "dl_list h head as \<Longrightarrow> DL_SEARCH2 cmp h head v = Some (find (\<lambda>a. cmp (the (payload dn_data h a)) v = 0) as)"
  "dl_list h head as \<Longrightarrow> DL_SEARCH_SCALAR2 h head field x = Some (find (\<lambda>a. field (the (payload dn_data h a)) = x) as)"
  by (auto simp: DL_SEARCH2_def DL_SEARCH_SCALAR2_def dl_list_def dl_find_seg)

end
