(* ===== verification/Utlist_Sort.thy ===== *)
theory Utlist_Sort
  imports Utlist_Elements Utlist_Iterate C_Numbers
begin

text \<open>
  \<^verbatim>\<open>LL_SORT\<close>, \<^verbatim>\<open>DL_SORT\<close> and \<^verbatim>\<open>CDL_SORT\<close> of \<^verbatim>\<open>json-rpc-common/utlist.h\<close>: one merge
  sort that works bottom up on the pointers of the heap. The three macros have the same text but
  for the way they read a \<^verbatim>\<open>next\<close> pointer, link an element behind the tail and close the list
  at the end of a pass; these are the fields of a \<open>sort_store\<close>. The theory shows that all three
  are the stable sort of the library.
\<close>

section \<open>The macros\<close>

text \<open>\<open>ss_next h old a\<close> is the successor of \<open>a\<close>, where \<open>old\<close> is the head at the start of the
  pass (\<^verbatim>\<open>_ls_oldhead\<close>); \<open>ss_link h list tail e\<close> returns the heap and the head;
  \<open>ss_close h list tail\<close> ends the list of the pass.\<close>

record ('n, 'a) sort_store =
  ss_data :: "'n \<Rightarrow> 'a"
  ss_next :: "(nat \<rightharpoonup> 'n) \<Rightarrow> nat option \<Rightarrow> nat \<Rightarrow> nat option option"
  ss_link :: "(nat \<rightharpoonup> 'n) \<Rightarrow> nat option \<Rightarrow> nat option \<Rightarrow> nat \<Rightarrow> ((nat \<rightharpoonup> 'n) \<times> nat option) option"
  ss_close :: "(nat \<rightharpoonup> 'n) \<Rightarrow> nat option \<Rightarrow> nat option \<Rightarrow> (nat \<rightharpoonup> 'n) option"

text \<open>The loop that steps \<^verbatim>\<open>_ls_q\<close> over the first run, at most \<open>n\<close> nodes. The result is
  \<^verbatim>\<open>_ls_psize\<close> and \<^verbatim>\<open>_ls_q\<close>.\<close>

fun sort_run :: "('n, 'a) sort_store \<Rightarrow> (nat \<rightharpoonup> 'n) \<Rightarrow> nat option \<Rightarrow> nat \<Rightarrow> nat \<Rightarrow> nat \<Rightarrow> (nat \<times> nat option) option" where
  "sort_run S h old q 0 psize = Some (psize, Some q)"
| "sort_run S h old q (Suc n) psize =
     Option.bind (ss_next S h old q) (\<lambda>q'.
       case q' of None \<Rightarrow> Some (Suc psize, None) | Some r \<Rightarrow> sort_run S h old r n (Suc psize))"

text \<open>The next element of the merge: its address, and \<^verbatim>\<open>_ls_p\<close>, \<^verbatim>\<open>_ls_q\<close>,
  \<^verbatim>\<open>_ls_psize\<close> and \<^verbatim>\<open>_ls_qsize\<close> after it was taken.\<close>

definition take_p ::
  "(nat \<Rightarrow> nat option option) \<Rightarrow> nat option \<Rightarrow> nat option \<Rightarrow> nat \<Rightarrow> nat \<Rightarrow> (nat \<times> nat option \<times> nat option \<times> nat \<times> nat) option" where
  "take_p nx p q psize qsize = do { e \<leftarrow> p; p \<leftarrow> nx e; Some (e, p, q, psize - 1, qsize) }"

definition take_q ::
  "(nat \<Rightarrow> nat option option) \<Rightarrow> nat option \<Rightarrow> nat option \<Rightarrow> nat \<Rightarrow> nat \<Rightarrow> (nat \<times> nat option \<times> nat option \<times> nat \<times> nat) option" where
  "take_q nx p q psize qsize = do { e \<leftarrow> q; q \<leftarrow> nx e; Some (e, p, q, psize, qsize - 1) }"

definition sort_pick ::
  "('n, 'a) sort_store \<Rightarrow> ('a \<Rightarrow> 'a \<Rightarrow> int) \<Rightarrow> (nat \<rightharpoonup> 'n) \<Rightarrow> nat option \<Rightarrow> nat option \<Rightarrow> nat option \<Rightarrow> nat \<Rightarrow> nat
    \<Rightarrow> (nat \<times> nat option \<times> nat option \<times> nat \<times> nat) option" where
  "sort_pick S cmp h old p q psize qsize =
     (if psize = 0 then take_q (ss_next S h old) p q psize qsize
      else if qsize = 0 \<or> q = None then take_p (ss_next S h old) p q psize qsize
      else do {
        m \<leftarrow> Option.bind p h;
        n \<leftarrow> Option.bind q h;
        if cmp (ss_data S m) (ss_data S n) \<le> 0
        then take_p (ss_next S h old) p q psize qsize
        else take_q (ss_next S h old) p q psize qsize
      })"

text \<open>The merge of two runs. Every turn takes an element out of one of them.\<close>

lemma sort_pick_decreases:
  assumes "0 < psize \<or> 0 < qsize \<and> q \<noteq> None"
    and "sort_pick S cmp h old p q psize qsize = Some (e, p', q', psize', qsize')"
  shows "psize' + qsize' < psize + qsize"
  using assms by (auto simp: sort_pick_def take_p_def take_q_def split: if_splits bind_splits)

function sort_merge ::
  "('n, 'a) sort_store \<Rightarrow> ('a \<Rightarrow> 'a \<Rightarrow> int) \<Rightarrow> (nat \<rightharpoonup> 'n) \<Rightarrow> nat option \<Rightarrow> nat option \<Rightarrow> nat option \<Rightarrow> nat option \<Rightarrow> nat option
    \<Rightarrow> nat \<Rightarrow> nat \<Rightarrow> ((nat \<rightharpoonup> 'n) \<times> nat option \<times> nat option \<times> nat option) option" where
  "sort_merge S cmp h old list tail p q psize qsize =
     (if 0 < psize \<or> 0 < qsize \<and> q \<noteq> None
      then
        case sort_pick S cmp h old p q psize qsize of
          None \<Rightarrow> None
        | Some (e, p', q', psize', qsize') \<Rightarrow>
            (case ss_link S h list tail e of
               None \<Rightarrow> None
             | Some (h', list') \<Rightarrow> sort_merge S cmp h' old list' (Some e) p' q' psize' qsize')
      else Some (h, list, tail, q))"
  by pat_completeness auto
termination
  by (relation "measure (\<lambda>(S, cmp, h, old, list, tail, p, q, psize, qsize). psize + qsize)")
    (auto dest: sort_pick_decreases [rotated])

declare sort_merge.simps [simp del]

text \<open>One pass over the list with runs of length \<^verbatim>\<open>_ls_insize\<close>, and the passes. The double
  of the run length is an \<^verbatim>\<open>int\<close>.\<close>

partial_function (option) sort_pass ::
  "('n, 'a) sort_store \<Rightarrow> ('a \<Rightarrow> 'a \<Rightarrow> int) \<Rightarrow> (nat \<rightharpoonup> 'n) \<Rightarrow> nat option \<Rightarrow> nat option \<Rightarrow> nat option \<Rightarrow> nat option \<Rightarrow> nat \<Rightarrow> nat
    \<Rightarrow> ((nat \<rightharpoonup> 'n) \<times> nat option \<times> nat option \<times> nat) option" where
  "sort_pass S cmp h old list tail p insize nmerges =
     (case p of
        None \<Rightarrow> Some (h, list, tail, nmerges)
      | Some a \<Rightarrow>
          Option.bind (sort_run S h old a insize 0) (\<lambda>r.
          Option.bind (sort_merge S cmp h old list tail p (snd r) (fst r) insize) (\<lambda>m.
            sort_pass S cmp (fst m) old (fst (snd m)) (fst (snd (snd m))) (snd (snd (snd m))) insize (Suc nmerges))))"

partial_function (option) sort_loop ::
  "('n, 'a) sort_store \<Rightarrow> ('a \<Rightarrow> 'a \<Rightarrow> int) \<Rightarrow> (nat \<rightharpoonup> 'n) \<Rightarrow> nat option \<Rightarrow> nat \<Rightarrow> ((nat \<rightharpoonup> 'n) \<times> nat option) option" where
  "sort_loop S cmp h list insize =
     Option.bind (sort_pass S cmp h list None None list insize 0) (\<lambda>r.
     Option.bind (ss_close S (fst r) (fst (snd r)) (fst (snd (snd r)))) (\<lambda>h'.
       if int insize * 2 > INT_MAX then None
       else if snd (snd (snd r)) \<le> 1 then Some (h', fst (snd r))
       else sort_loop S cmp h' (fst (snd r)) (insize * 2)))"

definition sort_macro ::
  "('n, 'a) sort_store \<Rightarrow> ('a \<Rightarrow> 'a \<Rightarrow> int) \<Rightarrow> (nat \<rightharpoonup> 'n) \<Rightarrow> nat option \<Rightarrow> ((nat \<rightharpoonup> 'n) \<times> nat option) option" where
  "sort_macro S cmp h list = (case list of None \<Rightarrow> Some (h, None) | Some _ \<Rightarrow> sort_loop S cmp h list 1)"

text \<open>Singly linked lists.\<close>

definition ll_sort_link :: "'a heap \<Rightarrow> nat option \<Rightarrow> nat option \<Rightarrow> nat \<Rightarrow> ('a heap \<times> nat option) option" where
  "ll_sort_link h list tail e =
     (case tail of
        Some t \<Rightarrow> map_option (\<lambda>h'. (h', list)) (ll_set_next h t (Some e))
      | None \<Rightarrow> Some (h, Some e))"

definition ll_sort_close :: "'a heap \<Rightarrow> nat option \<Rightarrow> nat option \<Rightarrow> 'a heap option" where
  "ll_sort_close h list tail = (case tail of None \<Rightarrow> Some h | Some t \<Rightarrow> ll_set_next h t None)"

definition LL_store :: "('a \<times> nat option, 'a) sort_store" where
  "LL_store = \<lparr>ss_data = fst, ss_next = (\<lambda>h old a. ll_next h a), ss_link = ll_sort_link, ss_close = ll_sort_close\<rparr>"

definition LL_SORT2 :: "('a \<Rightarrow> 'a \<Rightarrow> int) \<Rightarrow> 'a heap \<Rightarrow> nat option \<Rightarrow> ('a heap \<times> nat option) option" where
  "LL_SORT2 = sort_macro LL_store"

text \<open>Doubly linked lists: the previous element is stored too.\<close>

definition dl_sort_link :: "'a dheap \<Rightarrow> nat option \<Rightarrow> nat option \<Rightarrow> nat \<Rightarrow> ('a dheap \<times> nat option) option" where
  "dl_sort_link h list tail e = do {
     r \<leftarrow> (case tail of
             Some t \<Rightarrow> do { h \<leftarrow> dl_set_next h t (Some e); Some (h, list) }
           | None \<Rightarrow> Some (h, Some e));
     h \<leftarrow> dl_set_prev (fst r) e tail;
     Some (h, snd r)
   }"

definition dl_sort_close :: "'a dheap \<Rightarrow> nat option \<Rightarrow> nat option \<Rightarrow> 'a dheap option" where
  "dl_sort_close h list tail = do {
     p \<leftarrow> list;
     h \<leftarrow> dl_set_prev h p tail;
     t \<leftarrow> tail;
     dl_set_next h t None
   }"

definition DL_store :: "('a dnode, 'a) sort_store" where
  "DL_store = \<lparr>ss_data = dn_data, ss_next = (\<lambda>h old a. dl_next h a), ss_link = dl_sort_link, ss_close = dl_sort_close\<rparr>"

definition DL_SORT2 :: "('a \<Rightarrow> 'a \<Rightarrow> int) \<Rightarrow> 'a dheap \<Rightarrow> nat option \<Rightarrow> ('a dheap \<times> nat option) option" where
  "DL_SORT2 = sort_macro DL_store"

text \<open>Circular lists: a \<^verbatim>\<open>next\<close> pointer to the old head counts as NULL, and the last element is
  linked to the new head.\<close>

definition cdl_sort_close :: "'a dheap \<Rightarrow> nat option \<Rightarrow> nat option \<Rightarrow> 'a dheap option" where
  "cdl_sort_close h list tail = do {
     p \<leftarrow> list;
     h \<leftarrow> dl_set_prev h p tail;
     t \<leftarrow> tail;
     dl_set_next h t list
   }"

definition CDL_store :: "('a dnode, 'a) sort_store" where
  "CDL_store = \<lparr>ss_data = dn_data, ss_next = cdl_step, ss_link = dl_sort_link, ss_close = cdl_sort_close\<rparr>"

definition CDL_SORT2 :: "('a \<Rightarrow> 'a \<Rightarrow> int) \<Rightarrow> 'a dheap \<Rightarrow> nat option \<Rightarrow> ('a dheap \<times> nat option) option" where
  "CDL_SORT2 = sort_macro CDL_store"

section \<open>Runs of a list\<close>

text \<open>What a pass does to a list that consists of sorted runs of length \<open>k\<close>.\<close>

abbreviation merge_by :: "'b comparator \<Rightarrow> 'b list \<Rightarrow> 'b list \<Rightarrow> 'b list" where
  "merge_by \<equiv> Sorting_Algorithms.merge"

abbreviation sort_by :: "'b comparator \<Rightarrow> 'b list \<Rightarrow> 'b list" where
  "sort_by \<equiv> Sorting_Algorithms.sort"

function pass_runs :: "'b comparator \<Rightarrow> nat \<Rightarrow> 'b list \<Rightarrow> 'b list" where
  "pass_runs K k xs = (if k = 0 \<or> xs = [] then []
     else merge_by K (take k xs) (take k (drop k xs)) @ pass_runs K k (drop k (drop k xs)))"
  by pat_completeness auto
termination by (relation "measure (\<lambda>(K, k, xs). length xs)") auto

function sorted_runs :: "'b comparator \<Rightarrow> nat \<Rightarrow> 'b list \<Rightarrow> 'b list" where
  "sorted_runs K k xs = (if k = 0 \<or> xs = [] then [] else sort_by K (take k xs) @ sorted_runs K k (drop k xs))"
  by pat_completeness auto
termination by (relation "measure (\<lambda>(K, k, xs). length xs)") auto

declare pass_runs.simps [simp del] sorted_runs.simps [simp del]

lemma pass_runs_Nil [simp]: "pass_runs K k [] = []"
  by (simp add: pass_runs.simps)

lemma sorted_runs_Nil [simp]: "sorted_runs K k [] = []"
  by (simp add: sorted_runs.simps)

lemma merge_by_Nil [simp]: "merge_by K xs [] = xs"
  by (cases xs) simp_all

lemma sort_by_append: "sort_by K (xs @ ys) = merge_by K (sort_by K xs) (sort_by K ys)"
proof (rule sort_eqI)
  fix y assume "y \<in> set (xs @ ys)"
  show "stable_segment K y (xs @ ys) = stable_segment K y (merge_by K (sort_by K xs) (sort_by K ys))"
    by (simp only: filter_merge sorted_sort stable_sort merge_stable_segments filter_append)
qed (simp_all add: mset_merge sorted_merge)

lemma sorted_runs_split:
  assumes "0 < k"
  shows "sorted_runs K k xs = sort_by K (take k xs) @ sorted_runs K k (drop k xs)"
  using assms by (cases "xs = []") (simp_all add: sorted_runs.simps [of K k xs])

lemma length_sorted_runs [simp]: "0 < k \<Longrightarrow> length (sorted_runs K k xs) = length xs"
  by (induction K k xs rule: sorted_runs.induct) (subst sorted_runs.simps, auto)

lemma pass_sorted_runs: "0 < k \<Longrightarrow> pass_runs K k (sorted_runs K k xs) = sorted_runs K (k * 2) xs"
proof (induction "length xs" arbitrary: xs rule: less_induct)
  case less
  show ?case
  proof (cases "xs = []")
    case False
    let ?A = "sort_by K (take k xs)" and ?B = "sort_by K (take k (drop k xs))"
    let ?R = "sorted_runs K k (drop k (drop k xs))"
    have split: "sorted_runs K k xs = ?A @ ?B @ ?R"
      using less.prems by (metis sorted_runs_split)
    have pieces: "take k (?A @ ?B @ ?R) = ?A \<and> take k (drop k (?A @ ?B @ ?R)) = ?B \<and> drop k (drop k (?A @ ?B @ ?R)) = ?R"
      by (cases "length xs \<le> k"; cases "length xs \<le> k + k") auto
    have "?A @ ?B @ ?R \<noteq> []" using False less.prems by (metis length_0_conv length_sorted_runs split)
    with less.prems have "pass_runs K k (?A @ ?B @ ?R) = merge_by K ?A ?B @ pass_runs K k ?R"
      by (subst pass_runs.simps) (simp only: pieces, simp)
    also have "merge_by K ?A ?B = sort_by K (take (k * 2) xs)"
      by (simp only: sort_by_append [symmetric] take_add [symmetric] mult_2_right)
    also have "pass_runs K k ?R = sorted_runs K (k * 2) (drop (k * 2) xs)"
      using less.hyps [of "drop k (drop k xs)"] less.prems False by (simp add: mult_2_right)
    finally show ?thesis using less.prems sorted_runs_split [of "k * 2" K xs] by (simp add: split)
  qed simp
qed

lemma sorted_runs_one: "sorted_runs K (Suc 0) xs = xs"
  by (induction xs) (simp_all add: sorted_runs.simps [of K "Suc 0" "_ # _"])

lemma sorted_runs_all: "0 < k \<Longrightarrow> length xs \<le> k \<Longrightarrow> sorted_runs K k xs = sort_by K xs"
  by (cases "xs = []") (simp_all add: sorted_runs.simps [of K k xs])

lemma mset_sorted_runs [simp]: "0 < k \<Longrightarrow> mset (sorted_runs K k xs) = mset xs"
proof (induction K k xs rule: sorted_runs.induct)
  case (1 K k xs)
  show ?case
  proof (cases "xs = []")
    case False
    have "mset (take k xs) + mset (drop k xs) = mset xs" by (simp flip: mset_append)
    with 1 False show ?thesis by (subst sorted_runs.simps) simp
  qed simp
qed

section \<open>Chains of next pointers\<close>

fun chain :: "(nat \<Rightarrow> nat option option) \<Rightarrow> nat option \<Rightarrow> nat list \<Rightarrow> nat option \<Rightarrow> bool" where
  "chain nx p [] q \<longleftrightarrow> p = q"
| "chain nx p (a # as) q \<longleftrightarrow> p = Some a \<and> (\<exists>n. nx a = Some n \<and> chain nx n as q)"

lemma chain_append: "chain nx p (as @ bs) q \<longleftrightarrow> (\<exists>m. chain nx p as m \<and> chain nx m bs q)"
  by (induction as arbitrary: p) auto

lemma chain_cong: "(\<And>a. a \<in> set as \<Longrightarrow> nx' a = nx a) \<Longrightarrow> chain nx' p as q \<longleftrightarrow> chain nx p as q"
  by (induction as arbitrary: p) auto

lemma chain_None [simp]: "chain nx None as q \<longleftrightarrow> as = [] \<and> q = None"
  by (cases as) auto

section \<open>The sort\<close>

text \<open>What the merge sort relies on. \<open>linked h list tail out\<close> says that the pass has built the
  list \<open>out\<close> so far; the \<^verbatim>\<open>next\<close> pointer of its tail is not set yet.\<close>

locale merge_sort =
  fixes S :: "('n, 'a) sort_store"
    and rep :: "(nat \<rightharpoonup> 'n) \<Rightarrow> nat option \<Rightarrow> nat list \<Rightarrow> bool"
    and linked :: "(nat \<rightharpoonup> 'n) \<Rightarrow> nat option \<Rightarrow> nat option \<Rightarrow> nat list \<Rightarrow> bool"
  assumes rep_chain: "rep h list as \<Longrightarrow> distinct as \<and> set as \<subseteq> dom h \<and> chain (ss_next S h list) list as None"
    and linked_start: "linked h None None []"
    and linked_link: "\<lbrakk>linked h list tail out; distinct (out @ [a]); set (out @ [a]) \<subseteq> dom h\<rbrakk> \<Longrightarrow>
      \<exists>h' list'. ss_link S h list tail a = Some (h', list') \<and> linked h' list' (Some a) (out @ [a])
        \<and> payload (ss_data S) h' = payload (ss_data S) h
        \<and> (\<forall>old b. b \<notin> set out \<longrightarrow> ss_next S h' old b = ss_next S h old b)
        \<and> (\<forall>b. b \<notin> set (out @ [a]) \<longrightarrow> h' b = h b)"
    and linked_close: "\<lbrakk>linked h list tail out; distinct out; out \<noteq> []; set out \<subseteq> dom h\<rbrakk> \<Longrightarrow>
      \<exists>h'. ss_close S h list tail = Some h' \<and> rep h' list out
        \<and> payload (ss_data S) h' = payload (ss_data S) h \<and> (\<forall>b. b \<notin> set out \<longrightarrow> h' b = h b)"
begin

lemma run_takes:
  assumes "chain (ss_next S h old) (Some a) as None"
  shows "\<exists>q. sort_run S h old a n k = Some (k + min n (length as), q)
    \<and> chain (ss_next S h old) (Some a) (take n as) q \<and> chain (ss_next S h old) q (drop n as) None"
  using assms
proof (induction n arbitrary: a as k)
  case (Suc n)
  then obtain bs m where as: "as = a # bs" "ss_next S h old a = Some m" "chain (ss_next S h old) m bs None" by (cases as) auto
  show ?case
  proof (cases m)
    case None
    with as show ?thesis by simp
  next
    case (Some r)
    with as Suc.IH [of r bs "Suc k"] show ?thesis by auto
  qed
qed simp

text \<open>What a turn takes is the first node of the merge of what is left.\<close>

lemma pick_merge:
  assumes "follows cmp c" and "K = by_data (ss_data S) h c"
    and "chain (ss_next S h old) p P r" and "chain (ss_next S h old) q Q None" and "set (P @ Q) \<subseteq> dom h"
    and "P \<noteq> [] \<or> 0 < k \<and> Q \<noteq> []"
  shows "\<exists>a p' q' P' Q' k'. sort_pick S cmp h old p q (length P) k = Some (a, p', q', length P', k')
    \<and> merge_by K P (take k Q) = a # merge_by K P' (take k' Q') \<and> drop k Q = drop k' Q'
    \<and> chain (ss_next S h old) p' P' r \<and> chain (ss_next S h old) q' Q' None
    \<and> mset (P @ Q) = add_mset a (mset (P' @ Q'))"
proof -
  have take_P: ?thesis if P: "P = a # P'" and pick: "sort_pick S cmp h old p q (length P) k = take_p (ss_next S h old) p q (length P) k"
      and m: "merge_by K P (take k Q) = a # merge_by K P' (take k Q)" for a P'
  proof -
    from assms(3) P obtain n where n: "p = Some a" "ss_next S h old a = Some n" "chain (ss_next S h old) n P' r" by auto
    have "sort_pick S cmp h old p q (length P) k = Some (a, n, q, length P', k)"
      using n P pick by (simp add: take_p_def)
    with m n assms(4) P show ?thesis by (intro exI conjI) auto
  qed
  have take_Q: ?thesis if Q: "Q = a # Q'" and k: "k = Suc k'"
      and pick: "sort_pick S cmp h old p q (length P) k = take_q (ss_next S h old) p q (length P) k"
      and m: "merge_by K P (take k Q) = a # merge_by K P (take k' Q')" for a Q' k'
  proof -
    from assms(4) Q obtain n where n: "q = Some a" "ss_next S h old a = Some n" "chain (ss_next S h old) n Q' None" by auto
    have "sort_pick S cmp h old p q (length P) k = Some (a, p, n, length P, k')"
      using n k pick by (simp add: take_q_def)
    with m n assms(3) Q k show ?thesis by (intro exI conjI) auto
  qed
  show ?thesis
  proof (cases P)
    case Nil
    with assms(6) obtain a Q' k' where "Q = a # Q'" "k = Suc k'" by (cases Q; cases k) auto
    with Nil take_Q show ?thesis by (simp add: sort_pick_def)
  next
    case P: (Cons a P')
    show ?thesis
    proof (cases "k = 0 \<or> Q = []")
      case True
      with assms(4) P take_P show ?thesis by (auto simp: sort_pick_def)
    next
      case False
      then obtain b Q' k' where Q: "Q = b # Q'" "k = Suc k'" by (cases Q; cases k) auto
      with assms(3-5) P obtain m n where heap: "p = Some a" "q = Some b" "h a = Some m" "h b = Some n" by auto
      have sign: "cmp (ss_data S m) (ss_data S n) \<le> 0 \<longleftrightarrow> compare K a b \<noteq> Greater"
        using follows_le [OF assms(1)] heap by (simp add: assms(2))
      show ?thesis
      proof (cases "compare K a b = Greater")
        case True
        with sign heap P Q show ?thesis by (intro take_Q [OF Q]) (auto simp: sort_pick_def)
      next
        case False
        with sign heap P Q show ?thesis by (intro take_P [OF P]) (auto simp: sort_pick_def)
      qed
    qed
  qed
qed

end

text \<open>The loops, from the inside out.\<close>

context merge_sort
begin

lemma merge_merges:
  assumes "follows cmp c" and "K = by_data (ss_data S) h c" and "linked h list tail out"
    and "chain (ss_next S h old) p P r" and "chain (ss_next S h old) q Q None"
    and "distinct (out @ P @ Q)" and "set (out @ P @ Q) \<subseteq> dom h"
  shows "\<exists>h' list' tail' q'. sort_merge S cmp h old list tail p q (length P) k = Some (h', list', tail', q')
    \<and> linked h' list' tail' (out @ merge_by K P (take k Q)) \<and> chain (ss_next S h' old) q' (drop k Q) None
    \<and> payload (ss_data S) h' = payload (ss_data S) h \<and> (\<forall>b. b \<notin> set (out @ P @ Q) \<longrightarrow> h' b = h b)"
  using assms(2-)
proof (induction "length P + k" arbitrary: h list tail out p q P Q k rule: less_induct)
  case less
  show ?case
  proof (cases "P \<noteq> [] \<or> 0 < k \<and> Q \<noteq> []")
    case False
    then have stop: "\<not> (0 < length P \<or> 0 < k \<and> q \<noteq> None)" using less.prems(4) by auto
    have "sort_merge S cmp h old list tail p q (length P) k = Some (h, list, tail, q)"
      by (subst sort_merge.simps) (rule if_not_P [OF stop])
    with False less.prems show ?thesis by auto
  next
    case True
    then have go: "0 < length P \<or> 0 < k \<and> q \<noteq> None" using less.prems(4) by (cases Q) auto
    have "set (P @ Q) \<subseteq> dom h" using less.prems(6) by simp
    from pick_merge [OF assms(1) less.prems(1,3,4) this True] obtain a p' q' P' Q' k'
      where pick: "sort_pick S cmp h old p q (length P) k = Some (a, p', q', length P', k')"
        and merge: "merge_by K P (take k Q) = a # merge_by K P' (take k' Q')" "drop k Q = drop k' Q'"
        and left: "chain (ss_next S h old) p' P' r" "chain (ss_next S h old) q' Q' None"
        and ms: "mset (P @ Q) = add_mset a (mset (P' @ Q'))" by (elim exE conjE)
    have ms': "mset (out @ P @ Q) = mset ((out @ [a]) @ P' @ Q')" using ms by simp
    then have all: "set (out @ P @ Q) = set ((out @ [a]) @ P' @ Q')" by (rule mset_eq_setD)
    have dist: "distinct ((out @ [a]) @ P' @ Q')" using less.prems(5) mset_eq_imp_distinct_iff [OF ms'] by blast
    have alloc: "set ((out @ [a]) @ P' @ Q') \<subseteq> dom h" using less.prems(6) all by blast
    from linked_link [OF less.prems(2), of a] dist alloc obtain h1 list1
      where link: "ss_link S h list tail a = Some (h1, list1)" "linked h1 list1 (Some a) (out @ [a])"
        "payload (ss_data S) h1 = payload (ss_data S) h" "\<forall>old b. b \<notin> set out \<longrightarrow> ss_next S h1 old b = ss_next S h old b"
        "\<forall>b. b \<notin> set (out @ [a]) \<longrightarrow> h1 b = h b" by auto
    have same: "\<And>b. b \<in> set P' \<Longrightarrow> ss_next S h1 old b = ss_next S h old b" "\<And>b. b \<in> set Q' \<Longrightarrow> ss_next S h1 old b = ss_next S h old b"
      using link(4) dist by auto
    have keep: "chain (ss_next S h1 old) p' P' r" "chain (ss_next S h1 old) q' Q' None"
      using left chain_cong [of P', OF same(1)] chain_cong [of Q', OF same(2)] by simp_all
    have K: "K = by_data (ss_data S) h1 c" using less.prems(1) link(3) by (simp del: payload_apply)
    have "dom h1 = dom h" using link(3) by (metis dom_payload)
    then have alloc': "set ((out @ [a]) @ P' @ Q') \<subseteq> dom h1" using alloc by simp
    from sort_pick_decreases [OF go pick] have dec: "length P' + k' < length P + k" .
    from less.hyps [OF dec K link(2) keep dist alloc'] obtain h' list' tail' q''
      where rest: "sort_merge S cmp h1 old list1 (Some a) p' q' (length P') k' = Some (h', list', tail', q'')"
        "linked h' list' tail' ((out @ [a]) @ merge_by K P' (take k' Q'))" "chain (ss_next S h' old) q'' (drop k' Q') None"
        "payload (ss_data S) h' = payload (ss_data S) h1" "\<forall>b. b \<notin> set ((out @ [a]) @ P' @ Q') \<longrightarrow> h' b = h1 b" by (elim exE conjE)
    have "sort_merge S cmp h old list tail p q (length P) k = Some (h', list', tail', q'')"
      by (subst sort_merge.simps) (simp only: go pick link(1) rest(1) if_True option.case prod.case)
    moreover have "\<forall>b. b \<notin> set (out @ P @ Q) \<longrightarrow> h' b = h b" using rest(5) link(5) unfolding all by simp
    moreover have "linked h' list' tail' (out @ merge_by K P (take k Q))" "chain (ss_next S h' old) q'' (drop k Q) None"
      using rest(2,3) by (simp_all add: merge)
    moreover have "payload (ss_data S) h' = payload (ss_data S) h" using rest(4) link(3) by simp
    ultimately show ?thesis by (intro exI conjI)
  qed
qed

lemma pass_step:
  assumes "sort_run S h old a k 0 = Some (n, q)" and "sort_merge S cmp h old list tail (Some a) q n k = Some (h1, list1, tail1, q1)"
  shows "sort_pass S cmp h old list tail (Some a) k nm = sort_pass S cmp h1 old list1 tail1 q1 k (Suc nm)"
  using assms by (subst sort_pass.simps) simp

lemma pass_end: "sort_pass S cmp h old list tail None k nm = Some (h, list, tail, nm)"
  by (subst sort_pass.simps) simp

text \<open>The number of merges of a pass is the number of pairs of runs.\<close>

lemma pass_passes:
  assumes "follows cmp c" and "0 < k" and "K = by_data (ss_data S) h c" and "linked h list tail out"
    and "chain (ss_next S h old) p xs None" and "distinct (out @ xs)" and "set (out @ xs) \<subseteq> dom h"
  shows "\<exists>h' list' tail' n. sort_pass S cmp h old list tail p k nm = Some (h', list', tail', nm + n)
    \<and> linked h' list' tail' (out @ pass_runs K k xs) \<and> n * (k + k) < length xs + (k + k) \<and> length xs \<le> n * (k + k)
    \<and> payload (ss_data S) h' = payload (ss_data S) h \<and> (\<forall>b. b \<notin> set (out @ xs) \<longrightarrow> h' b = h b)"
  using assms(3-)
proof (induction "length xs" arbitrary: h list tail out p xs nm rule: less_induct)
  case less
  show ?case
  proof (cases p)
    case None
    with less.prems assms(2) show ?thesis by (simp add: pass_end)
  next
    case (Some a)
    let ?A = "take k xs" and ?B = "drop k xs" and ?R = "drop k (drop k xs)"
    let ?M = "merge_by K ?A (take k ?B)"
    have ne: "xs \<noteq> []" using less.prems(3) Some by auto
    from run_takes [of h old a xs k 0] less.prems(3) Some obtain q where run:
      "sort_run S h old a k 0 = Some (length ?A, q)" "chain (ss_next S h old) p ?A q" "chain (ss_next S h old) q ?B None"
      by (auto simp: min.commute)
    have pre: "distinct (out @ ?A @ ?B)" "set (out @ ?A @ ?B) \<subseteq> dom h" using less.prems(4,5) by (simp_all only: append_take_drop_id)
    from merge_merges [OF assms(1) less.prems(1,2) run(2,3) pre, of k] obtain h1 list1 tail1 q1 where m:
      "sort_merge S cmp h old list tail p q (length ?A) k = Some (h1, list1, tail1, q1)"
      "linked h1 list1 tail1 (out @ ?M)" "chain (ss_next S h1 old) q1 ?R None" "payload (ss_data S) h1 = payload (ss_data S) h"
      "\<forall>b. b \<notin> set (out @ ?A @ ?B) \<longrightarrow> h1 b = h b" by (elim exE conjE)
    have xs: "xs = ?A @ take k ?B @ ?R" by (simp only: append_take_drop_id)
    have ms: "mset ((out @ ?M) @ ?R) = mset (out @ xs)" by (subst (3) xs) (simp add: mset_merge)
    have dist: "distinct ((out @ ?M) @ ?R)" using less.prems(4) mset_eq_imp_distinct_iff [OF ms] by blast
    have K: "K = by_data (ss_data S) h1 c" using less.prems(1) m(4) by (simp del: payload_apply)
    have "dom h1 = dom h" using m(4) by (metis dom_payload)
    then have alloc: "set ((out @ ?M) @ ?R) \<subseteq> dom h1" using less.prems(5) by (simp only: mset_eq_setD [OF ms])
    have "length ?R < length xs" using assms(2) ne by simp
    from less.hyps [OF this K m(2,3) dist alloc, of "Suc nm"] obtain h' list' tail' n where r:
      "sort_pass S cmp h1 old list1 tail1 q1 k (Suc nm) = Some (h', list', tail', Suc nm + n)"
      "linked h' list' tail' ((out @ ?M) @ pass_runs K k ?R)"
      "n * (k + k) < length ?R + (k + k)" "length ?R \<le> n * (k + k)" "payload (ss_data S) h' = payload (ss_data S) h1"
      "\<forall>b. b \<notin> set ((out @ ?M) @ ?R) \<longrightarrow> h' b = h1 b" by (elim exE conjE)
    have "sort_pass S cmp h old list tail p k nm = Some (h', list', tail', nm + Suc n)"
      using pass_step [of h old a k "length ?A" q cmp list tail h1 list1 tail1 q1 nm] run(1) m(1) r(1) Some by simp
    moreover have "linked h' list' tail' (out @ pass_runs K k xs)"
      using r(2) ne assms(2) by (subst pass_runs.simps) simp
    moreover have "Suc n * (k + k) < length xs + (k + k)" "length xs \<le> Suc n * (k + k)"
      using r(3,4) ne assms(2) by (cases "length xs \<le> k + k"; simp)+
    moreover have "\<forall>b. b \<notin> set (out @ xs) \<longrightarrow> h' b = h b"
      using r(6) m(5) by (simp only: mset_eq_setD [OF ms] append_take_drop_id) simp
    moreover have "payload (ss_data S) h' = payload (ss_data S) h" using r(5) m(4) by simp
    ultimately show ?thesis by (intro exI conjI)
  qed
qed

lemma loop_sorts:
  assumes "follows cmp c" and "0 < k" and "k = 1 \<or> k < length xs" and "length xs \<le> 2 ^ 30" and "xs \<noteq> []"
    and "K = by_data (ss_data S) h c" and "rep h list (sorted_runs K k xs)"
  shows "\<exists>h' list'. sort_loop S cmp h list k = Some (h', list') \<and> rep h' list' (sort_by K xs)
    \<and> payload (ss_data S) h' = payload (ss_data S) h \<and> (\<forall>b. b \<notin> set xs \<longrightarrow> h' b = h b)"
  using assms(2-)
proof (induction "length xs - k" arbitrary: k h list rule: less_induct)
  case less
  let ?rs = "sorted_runs K k xs" and ?out = "sorted_runs K (k * 2) xs"
  note rep = rep_chain [OF less.prems(6)]
  have same: "mset ?rs = mset xs" "mset ?out = mset xs" using less.prems(1) by simp_all
  note sets = same [THEN mset_eq_setD]
  have dist': "distinct ?out" using rep mset_eq_imp_distinct_iff [of ?rs ?out] same by simp
  have ne: "?out \<noteq> []" using same(2) less.prems(4) by (metis mset_zero_iff)
  from pass_passes [OF assms(1) less.prems(1,5) linked_start, of list list ?rs 0] rep
  obtain h1 list1 tail1 n where pass: "sort_pass S cmp h list None None list k 0 = Some (h1, list1, tail1, n)"
    "linked h1 list1 tail1 ?out" "n * (k + k) < length xs + (k + k)" "length xs \<le> n * (k + k)"
    "payload (ss_data S) h1 = payload (ss_data S) h" "\<forall>b. b \<notin> set ?rs \<longrightarrow> h1 b = h b"
    using less.prems(1) by (auto simp: pass_sorted_runs)
  have "dom h1 = dom h" using pass(5) by (metis dom_payload)
  then have "set ?out \<subseteq> dom h1" using rep sets by simp
  from linked_close [OF pass(2) dist' ne this] obtain h2 where e: "ss_close S h1 list1 tail1 = Some h2" "rep h2 list1 ?out"
    "payload (ss_data S) h2 = payload (ss_data S) h1" "\<forall>b. b \<notin> set ?out \<longrightarrow> h2 b = h1 b" by (elim exE conjE)
  have frame: "\<forall>b. b \<notin> set xs \<longrightarrow> h2 b = h b" using pass(6) e(4) by (simp add: sets)
  have pay: "payload (ss_data S) h2 = payload (ss_data S) h" using pass(5) e(3) by simp
  have fits: "\<not> int k * 2 > INT_MAX" using less.prems(2,3) by (auto simp: config_defs)
  have loop: "sort_loop S cmp h list k = (if n \<le> 1 then Some (h2, list1) else sort_loop S cmp h2 list1 (k * 2))"
    using fits by (subst sort_loop.simps) (simp add: pass(1) e(1))
  show ?case
  proof (cases "n \<le> 1")
    case True
    then have "n = 0 \<or> n = 1" by auto
    with pass(4) have "length xs \<le> k * 2" by auto
    with e(2) less.prems(1) have "rep h2 list1 (sort_by K xs)" by (simp add: sorted_runs_all)
    with True loop frame pay show ?thesis by simp
  next
    case False
    then have "2 * (k + k) \<le> n * (k + k)" by (intro mult_right_mono) simp_all
    with pass(3) have more: "k * 2 < length xs" by simp
    with less.prems(1) have "length xs - k * 2 < length xs - k" "0 < k * 2" "k * 2 = 1 \<or> k * 2 < length xs" by auto
    from less.hyps [OF this less.prems(3,4) _ e(2)] less.prems(5) pay False loop frame show ?thesis by (auto simp del: payload_apply)
  qed
qed

lemma macro_sorts:
  assumes "follows cmp c" and "rep h head as" and "length as \<le> 2 ^ 30"
  shows "\<exists>h' head'. sort_macro S cmp h head = Some (h', head') \<and> rep h' head' (sort_by (by_data (ss_data S) h c) as)
    \<and> payload (ss_data S) h' = payload (ss_data S) h \<and> (\<forall>a. a \<notin> set as \<longrightarrow> h' a = h a)"
proof (cases head)
  case None
  with rep_chain [OF assms(2)] assms(2) show ?thesis by (simp add: sort_macro_def)
next
  case (Some p)
  with rep_chain [OF assms(2)] have "as \<noteq> []" by auto
  with loop_sorts [OF assms(1) _ _ assms(3), of 1 "by_data (ss_data S) h c" h head] assms(2) Some show ?thesis
    by (simp add: sort_macro_def sorted_runs_one del: payload_apply)
qed

end

section \<open>Singly linked lists\<close>

lemma chain_ll_seg: "set as \<subseteq> dom h \<Longrightarrow> chain (ll_next h) p as q \<longleftrightarrow> ll_seg h p (nodes_of h as) q"
  by (induction as arbitrary: p) auto

lemma chain_dom: "chain (ll_next h) p as q \<Longrightarrow> set as \<subseteq> dom h"
  by (induction as arbitrary: p) (auto simp: ll_next_def)

lemma ll_chain_chain: "ll_chain h head as \<longleftrightarrow> chain (ll_next h) head as None"
  using chain_dom [of h head as None] ll_chain_nodes [of h head as] chain_ll_seg [of as h head None] unfolding ll_chain_def by blast

definition ll_linked :: "'a heap \<Rightarrow> nat option \<Rightarrow> nat option \<Rightarrow> nat list \<Rightarrow> bool" where
  "ll_linked h list tail out \<longleftrightarrow>
     (if out = [] then list = None \<and> tail = None else tail = Some (last out) \<and> chain (ll_next h) list (butlast out) tail)"

lemma ll_next_upd: "ll_next (h(t \<mapsto> (x, q))) b = (if b = t then Some q else ll_next h b)"
  by (simp add: ll_next_def)

lemma chain_ll_upd: "t \<notin> set us \<Longrightarrow> chain (ll_next (h(t \<mapsto> v))) p us q \<longleftrightarrow> chain (ll_next h) p us q"
  by (rule chain_cong) (auto simp: ll_next_def)

lemma payload_ll_upd: "h t = Some (x, n) \<Longrightarrow> payload fst (h(t \<mapsto> (x, q))) = payload fst h"
  by (auto simp: payload_def fun_eq_iff)

interpretation ll_sort: merge_sort LL_store ll_chain ll_linked
proof unfold_locales
  fix h :: "'a heap" and list as
  assume "ll_chain h list as"
  then show "distinct as \<and> set as \<subseteq> dom h \<and> chain (ss_next LL_store h list) list as None"
    using ll_chain_nodes [of h list as] by (simp add: ll_chain_chain LL_store_def)
next
  fix h :: "'a heap" and list tail out a
  assume l: "ll_linked h list tail out" "distinct (out @ [a])" "set (out @ [a]) \<subseteq> dom h"
  show "\<exists>h' list'. ss_link LL_store h list tail a = Some (h', list') \<and> ll_linked h' list' (Some a) (out @ [a])
      \<and> payload (ss_data LL_store) h' = payload (ss_data LL_store) h
      \<and> (\<forall>old b. b \<notin> set out \<longrightarrow> ss_next LL_store h' old b = ss_next LL_store h old b) \<and> (\<forall>b. b \<notin> set (out @ [a]) \<longrightarrow> h' b = h b)"
  proof (cases out rule: rev_cases)
    case Nil
    with l show ?thesis by (simp add: LL_store_def ll_sort_link_def ll_linked_def)
  next
    case (snoc us t)
    with l obtain x n where t: "h t = Some (x, n)" "tail = Some t" "chain (ll_next h) list us (Some t)" "t \<notin> set us"
      by (auto simp: ll_linked_def)
    have "chain (ll_next (h(t \<mapsto> (x, Some a)))) list us (Some t)"
      using t(3) chain_ll_upd [OF t(4)] by blast
    with t snoc show ?thesis
      by (auto simp: LL_store_def ll_sort_link_def ll_linked_def butlast_append chain_append ll_next_upd payload_ll_upd [where h = h, OF t(1)] simp del: payload_apply)
  qed
next
  fix h :: "'a heap" and list tail out
  assume l: "ll_linked h list tail out" "distinct out" "out \<noteq> []" "set out \<subseteq> dom h"
  then obtain us t where out: "out = us @ [t]" by (cases out rule: rev_cases) auto
  with l obtain x n where t: "h t = Some (x, n)" "tail = Some t" "chain (ll_next h) list us (Some t)" "t \<notin> set us"
    by (auto simp: ll_linked_def)
  have "chain (ll_next (h(t \<mapsto> (x, None)))) list us (Some t)"
    using t(3) chain_ll_upd [OF t(4)] by blast
  with t out show "\<exists>h'. ss_close LL_store h list tail = Some h' \<and> ll_chain h' list out
      \<and> payload (ss_data LL_store) h' = payload (ss_data LL_store) h \<and> (\<forall>b. b \<notin> set out \<longrightarrow> h' b = h b)"
    by (auto simp: LL_store_def ll_sort_close_def ll_chain_chain chain_append ll_next_upd payload_ll_upd [where h = h, OF t(1)] simp del: payload_apply)
qed (simp add: ll_linked_def)

section \<open>Doubly linked and circular lists\<close>

definition dl_linked :: "'a dheap \<Rightarrow> nat option \<Rightarrow> nat option \<Rightarrow> nat list \<Rightarrow> bool" where
  "dl_linked h list tail out \<longleftrightarrow>
     (if out = [] then list = None \<and> tail = None else \<exists>q. dl_seg h None list out q tail)"

lemma upd_other [simp]: "b \<noteq> a \<Longrightarrow> upd_prev h a v b = h b" "b \<noteq> a \<Longrightarrow> upd_next h a v b = h b"
  by (simp_all add: upd_prev_def upd_next_def)

lemma dl_sort_link_linked:
  assumes "dl_linked h list tail out" and "distinct (out @ [a])" and "set (out @ [a]) \<subseteq> dom h"
  shows "\<exists>h' list'. dl_sort_link h list tail a = Some (h', list') \<and> dl_linked h' list' (Some a) (out @ [a])
    \<and> payload dn_data h' = payload dn_data h \<and> (\<forall>b. b \<notin> set out \<longrightarrow> dl_next h' b = dl_next h b) \<and> (\<forall>b. b \<notin> set (out @ [a]) \<longrightarrow> h' b = h b)"
proof (cases "out = []")
  case True
  with assms dom_read(2) [of a h] show ?thesis by (auto simp: dl_sort_link_def dl_linked_def)
next
  case False
  with assms(1) obtain q where seg: "dl_seg h None list out q tail" by (auto simp: dl_linked_def)
  note ends = dl_seg_ends [OF seg False]
  have d: "distinct out" "a \<notin> set out" "last out \<in> dom h" "a \<in> dom h" "last out \<noteq> a" "last out \<in> set out"
    using assms(2,3) False by (auto dest: last_in_set)
  let ?h = "upd_prev (upd_next h (last out) (Some a)) a (Some (last out))"
  have run: "dl_sort_link h list tail a = Some (?h, list)" using ends(2) d by (simp add: dl_sort_link_def)
  obtain n where n: "dl_next h a = Some n" using dom_read(2) [OF d(4)] by blast
  have "dl_seg ?h None list out (Some a) (Some (last out))" using dl_seg_last [OF seg False d(1), of "Some a"] ends(2) d(2) by simp
  moreover have "dl_prev ?h a = Some (Some (last out))" "dl_next ?h a = Some n" using d(4,5) n by simp_all
  ultimately have "dl_linked ?h list (Some a) (out @ [a])" unfolding dl_linked_def dl_seg_append by auto
  moreover have "\<forall>b. b \<notin> set out \<longrightarrow> dl_next ?h b = dl_next h b" using d(6) by (metis read_upd(8,10))
  moreover have "\<forall>b. b \<notin> set (out @ [a]) \<longrightarrow> ?h b = h b"
    using d(6) by (metis Un_iff list.set_intros(1) set_append upd_other)
  moreover have "payload dn_data ?h = payload dn_data h" by simp
  ultimately show ?thesis using run by blast
qed

text \<open>The end of a pass: \<open>q\<close> is NULL for a list and the head for a ring.\<close>

lemma dl_close_seg:
  assumes "dl_linked h list tail out" and "distinct out" and "out \<noteq> []" and "set out \<subseteq> dom h"
  shows "\<exists>h'. do { p \<leftarrow> list; h \<leftarrow> dl_set_prev h p tail; t \<leftarrow> tail; dl_set_next h t q } = Some h'
    \<and> dl_seg h' (Some (last out)) list out q (Some (last out)) \<and> list = Some (hd out)
    \<and> payload dn_data h' = payload dn_data h \<and> (\<forall>b. b \<notin> set out \<longrightarrow> h' b = h b)"
proof -
  from assms(1,3) obtain q0 where seg: "dl_seg h None list out q0 tail" by (auto simp: dl_linked_def)
  note ends = dl_seg_ends [OF seg assms(3)]
  have alloc: "hd out \<in> dom h" "last out \<in> dom h" "hd out \<in> set out" "last out \<in> set out" using assms(3,4) by (auto dest: hd_in_set last_in_set)
  let ?h = "upd_next (upd_prev h (hd out) (Some (last out))) (last out) q"
  have "do { p \<leftarrow> list; h \<leftarrow> dl_set_prev h p tail; t \<leftarrow> tail; dl_set_next h t q } = Some ?h" using ends(1,2) alloc by simp
  moreover have "dl_seg ?h (Some (last out)) list out q (Some (last out))"
    using dl_seg_last [OF dl_seg_first [OF seg assms(3,2)] assms(3,2)] ends(2) by blast
  moreover have "\<forall>b. b \<notin> set out \<longrightarrow> ?h b = h b" using alloc(3,4) by (metis upd_other)
  moreover have "payload dn_data ?h = payload dn_data h" by simp
  ultimately show ?thesis using ends(1) by blast
qed

lemma dl_seg_chain: "dl_seg h r p as q l \<Longrightarrow> chain (dl_next h) p as q"
  by (induction as arbitrary: r p) auto

interpretation dl_sort: merge_sort DL_store dl_list dl_linked
proof unfold_locales
  fix h :: "'a dheap" and list as
  assume "dl_list h list as"
  then show "distinct as \<and> set as \<subseteq> dom h \<and> chain (ss_next DL_store h list) list as None"
    using dl_listD(1,2) [of h list as] by (auto simp: DL_store_def dl_list_def dest: dl_seg_chain)
next
  fix h :: "'a dheap" and list tail out a
  assume "dl_linked h list tail out" "distinct (out @ [a])" "set (out @ [a]) \<subseteq> dom h"
  from dl_sort_link_linked [OF this]
  show "\<exists>h' list'. ss_link DL_store h list tail a = Some (h', list') \<and> dl_linked h' list' (Some a) (out @ [a])
      \<and> payload (ss_data DL_store) h' = payload (ss_data DL_store) h
      \<and> (\<forall>old b. b \<notin> set out \<longrightarrow> ss_next DL_store h' old b = ss_next DL_store h old b) \<and> (\<forall>b. b \<notin> set (out @ [a]) \<longrightarrow> h' b = h b)"
    by (simp add: DL_store_def del: payload_apply)
next
  fix h :: "'a dheap" and list tail out
  assume l: "dl_linked h list tail out" "distinct out" "out \<noteq> []" "set out \<subseteq> dom h"
  from dl_close_seg [OF this, of None] obtain h' where "dl_sort_close h list tail = Some h'"
    "dl_seg h' (Some (last out)) list out None (Some (last out))" "payload dn_data h' = payload dn_data h"
    "\<forall>b. b \<notin> set out \<longrightarrow> h' b = h b" unfolding dl_sort_close_def by (elim exE conjE)
  with l(2) show "\<exists>h'. ss_close DL_store h list tail = Some h' \<and> dl_list h' list out
      \<and> payload (ss_data DL_store) h' = payload (ss_data DL_store) h \<and> (\<forall>b. b \<notin> set out \<longrightarrow> h' b = h b)"
    by (auto simp: DL_store_def simp del: payload_apply intro: dl_listI)
qed (simp add: dl_linked_def)

lemma ring_chain:
  "dl_seg h r p as (Some b) l \<Longrightarrow> as \<noteq> [] \<Longrightarrow> b \<notin> set (tl as) \<Longrightarrow> chain (cdl_step h (Some b)) p as None"
proof (induction as arbitrary: r p)
  case (Cons a as)
  then obtain n where n: "p = Some a" "dl_next h a = Some n" "dl_seg h (Some a) n as (Some b) l" by auto
  show ?case
  proof (cases "as = []")
    case True
    with n show ?thesis by (simp add: cdl_step_def)
  next
    case False
    with dl_seg_ends(1) [OF n(3)] have "n = Some (hd as)" "hd as \<noteq> b" using Cons.prems(3) by (auto dest: hd_in_set)
    with n False Cons.IH [OF n(3)] Cons.prems(3) show ?thesis by (auto simp: cdl_step_def dest: list.set_sel(2))
  qed
qed simp

interpretation cdl_sort: merge_sort CDL_store cdl_list dl_linked
proof unfold_locales
  fix h :: "'a dheap" and list as
  assume rep: "cdl_list h list as"
  show "distinct as \<and> set as \<subseteq> dom h \<and> chain (ss_next CDL_store h list) list as None"
  proof (cases "as = []")
    case True
    with rep show ?thesis by (simp add: CDL_store_def)
  next
    case False
    note as = cdl_listD [OF rep False]
    have "hd as \<notin> set (tl as)" using as(1) False by (cases as) auto
    from ring_chain [OF as(3) False this] as show ?thesis by (simp add: CDL_store_def)
  qed
next
  fix h :: "'a dheap" and list tail out a
  assume "dl_linked h list tail out" "distinct (out @ [a])" "set (out @ [a]) \<subseteq> dom h"
  from dl_sort_link_linked [OF this] obtain h' list' where "dl_sort_link h list tail a = Some (h', list')" "dl_linked h' list' (Some a) (out @ [a])"
    "payload dn_data h' = payload dn_data h" "\<forall>b. b \<notin> set out \<longrightarrow> dl_next h' b = dl_next h b" "\<forall>b. b \<notin> set (out @ [a]) \<longrightarrow> h' b = h b" by (elim exE conjE)
  then show "\<exists>h' list'. ss_link CDL_store h list tail a = Some (h', list') \<and> dl_linked h' list' (Some a) (out @ [a])
      \<and> payload (ss_data CDL_store) h' = payload (ss_data CDL_store) h
      \<and> (\<forall>old b. b \<notin> set out \<longrightarrow> ss_next CDL_store h' old b = ss_next CDL_store h old b) \<and> (\<forall>b. b \<notin> set (out @ [a]) \<longrightarrow> h' b = h b)"
    by (simp add: CDL_store_def cdl_step_def del: payload_apply)
next
  fix h :: "'a dheap" and list tail out
  assume l: "dl_linked h list tail out" "distinct out" "out \<noteq> []" "set out \<subseteq> dom h"
  from dl_close_seg [OF this, of list] obtain h' where "cdl_sort_close h list tail = Some h'"
    "dl_seg h' (Some (last out)) list out list (Some (last out))" "payload dn_data h' = payload dn_data h"
    "\<forall>b. b \<notin> set out \<longrightarrow> h' b = h b" unfolding cdl_sort_close_def by (elim exE conjE)
  with l(2,3) show "\<exists>h'. ss_close CDL_store h list tail = Some h' \<and> cdl_list h' list out
      \<and> payload (ss_data CDL_store) h' = payload (ss_data CDL_store) h \<and> (\<forall>b. b \<notin> set out \<longrightarrow> h' b = h b)"
    by (simp add: CDL_store_def cdl_list_def del: payload_apply)
qed (simp add: dl_linked_def)

section \<open>Properties\<close>

text \<open>
  C22: the sort macros are stable sorts. On a list of at most \<open>2\<close> to the \<open>30\<close> nodes and a
  comparison function that follows an order, \<^verbatim>\<open>LL_SORT\<close>, \<^verbatim>\<open>DL_SORT\<close> and \<^verbatim>\<open>CDL_SORT\<close>
  return; the resulting list has the nodes in the order of the stable sort of the library and is
  well formed, all payloads are unchanged, and no other memory is touched.
\<close>

theorem sort_macros_are_stable_sorts:
  assumes "follows cmp c"
    and "ll_chain h1 head1 as1" and "length as1 \<le> 2 ^ 30"
    and "dl_list h2 head2 as2" and "length as2 \<le> 2 ^ 30"
    and "cdl_list h3 head3 as3" and "length as3 \<le> 2 ^ 30"
  shows "(\<exists>h' head'. LL_SORT2 cmp h1 head1 = Some (h', head') \<and> ll_chain h' head' (sort_by (by_data fst h1 c) as1)
      \<and> payload fst h' = payload fst h1 \<and> (\<forall>a. a \<notin> set as1 \<longrightarrow> h' a = h1 a))
    \<and> (\<exists>h' head'. DL_SORT2 cmp h2 head2 = Some (h', head') \<and> dl_list h' head' (sort_by (by_data dn_data h2 c) as2)
      \<and> payload dn_data h' = payload dn_data h2 \<and> (\<forall>a. a \<notin> set as2 \<longrightarrow> h' a = h2 a))
    \<and> (\<exists>h' head'. CDL_SORT2 cmp h3 head3 = Some (h', head') \<and> cdl_list h' head' (sort_by (by_data dn_data h3 c) as3)
      \<and> payload dn_data h' = payload dn_data h3 \<and> (\<forall>a. a \<notin> set as3 \<longrightarrow> h' a = h3 a))"
proof -
  have data: "ss_data LL_store = fst" "ss_data DL_store = dn_data" "ss_data CDL_store = dn_data"
    by (simp_all add: LL_store_def DL_store_def CDL_store_def)
  show ?thesis
    using ll_sort.macro_sorts [OF assms(1-3), unfolded data] dl_sort.macro_sorts [OF assms(1,4,5), unfolded data]
      cdl_sort.macro_sorts [OF assms(1,6,7), unfolded data]
    unfolding LL_SORT2_def DL_SORT2_def CDL_SORT2_def by (intro conjI)
qed

text \<open>A list and a ring of the numbers three, one and two.\<close>

definition example_ll :: "int heap" where
  "example_ll = [1 \<mapsto> (3, Some 2), 2 \<mapsto> (1, Some 3), 3 \<mapsto> (2, None), 4 \<mapsto> (9, None)]"

definition example_dl :: "nat option \<Rightarrow> int dheap" where
  "example_dl e = [1 \<mapsto> \<lparr>dn_data = 3, dn_prev = Some 3, dn_next = Some 2\<rparr>, 2 \<mapsto> \<lparr>dn_data = 1, dn_prev = Some 1, dn_next = Some 3\<rparr>,
     3 \<mapsto> \<lparr>dn_data = 2, dn_prev = Some 2, dn_next = e\<rparr>, 4 \<mapsto> \<lparr>dn_data = 9, dn_prev = None, dn_next = None\<rparr>]"

lemma example_lists:
  "ll_chain example_ll (Some 1) [1, 2, 3]" "dl_list (example_dl None) (Some 1) [1, 2, 3]"
  "cdl_list (example_dl (Some 1)) (Some 1) [1, 2, 3]"
  by (simp_all add: ll_chain_def example_ll_def example_dl_def dl_list_def cdl_list_def dl_prev_def dl_next_def)

lemma example_sorted:
  "sort_by (by_data fst example_ll default) [1, 2, 3] = [2, 3, 1]"
  "sort_by (by_data dn_data (example_dl e) default) [1, 2, 3] = [2, 3, 1]"
  by (simp_all add: compare_key_apply example_ll_def example_dl_def)

theorem sort_macros_are_stable_sorts_witness:
  "(\<exists>h' head'. LL_SORT2 (\<lambda>x y. x - y) example_ll (Some 1) = Some (h', head') \<and> ll_chain h' head' [2, 3, 1])
   \<and> (\<exists>h' head'. DL_SORT2 (\<lambda>x y. x - y) (example_dl None) (Some 1) = Some (h', head') \<and> dl_list h' head' [2, 3, 1])
   \<and> (\<exists>h' head'. CDL_SORT2 (\<lambda>x y. x - y) (example_dl (Some 1)) (Some 1) = Some (h', head') \<and> cdl_list h' head' [2, 3, 1])"
proof -
  have short: "length [1, 2, 3 :: nat] \<le> 2 ^ 30" by simp
  note sorts = sort_macros_are_stable_sorts [OF integers_follow example_lists(1) short example_lists(2) short example_lists(3) short,
      unfolded example_sorted]
  show ?thesis using sorts by (elim conjE exE) (intro conjI exI)
qed

text \<open>
  Inserting in order is the insertion of the library's insertion sort. With a comparison
  function that follows an order, \<^verbatim>\<open>LL_INSERT_INORDER\<close>, \<^verbatim>\<open>DL_INSERT_INORDER\<close> and
  \<^verbatim>\<open>CDL_INSERT_INORDER\<close> put a new node in front of the first node that is not below it, so that
  a list in order stays in order; the variants of the last two for compilers without
  \<^verbatim>\<open>decltype\<close> leave the same heap.
\<close>

lemma inserts_keep_order:
  assumes "follows cmp c"
    and "ll_chain h1 head1 as1" and "a1 \<in> dom h1" and "a1 \<notin> set as1"
    and "dl_list h2 head2 as2" and "a2 \<in> dom h2" and "a2 \<notin> set as2"
    and "cdl_list h3 head3 as3" and "a3 \<in> dom h3" and "a3 \<notin> set as3"
  shows "gives ll_chain fst h1 (LL_INSERT_INORDER2 cmp h1 head1 a1) (Sorting_Algorithms.insort (by_data fst h1 c) a1 as1)
    \<and> gives dl_list dn_data h2 (DL_INSERT_INORDER2 cmp h2 head2 a2) (Sorting_Algorithms.insort (by_data dn_data h2 c) a2 as2)
    \<and> gives cdl_list dn_data h3 (CDL_INSERT_INORDER2 cmp h3 head3 a3) (Sorting_Algorithms.insort (by_data dn_data h3 c) a3 as3)
    \<and> DL_INSERT_INORDER2_no_decltype cmp h2 head2 a2 = DL_INSERT_INORDER2 cmp h2 head2 a2
    \<and> CDL_INSERT_INORDER2_no_decltype cmp h3 head3 a3 = CDL_INSERT_INORDER2 cmp h3 head3 a3"
  using ll_ordered.insert_inorder_gives [OF assms(1-4)] dl_ordered.insert_inorder_gives [OF assms(1,5-7)]
    cdl_ordered.insert_inorder_gives [OF assms(1,8-10)] DL_INSERT_INORDER2_no_decltype_eq [OF assms(5-7)]
    CDL_INSERT_INORDER2_no_decltype_eq [OF assms(8-10)] by (intro conjI)

text \<open>
  C34: the macros of doubly linked and circular lists implement lists. Whenever a sequence of
  prepending, appending, deleting and replacing nodes and of inserting before and behind a node
  makes sense on the list of the nodes, the same sequence of macros runs to its end without
  touching memory that is not allocated, leaves a well-formed list of the expected nodes and
  changes no payload; counting and searching give what they give on the list, and a safe
  iteration that deletes and frees the nodes with some property leaves the list of the others.
\<close>

theorem doubly_linked_macros_implement_lists:
  assumes "dl_list h1 head1 as" and "abs_elements (dom h1) ops1 as = Some as'"
    and "cdl_list h2 head2 bs" and "abs_elements (dom h2) ops2 bs = Some bs'"
  shows "(\<exists>h' head' h'' head''. run_elements DL_macros ops1 (h1, head1) = Some (h', head') \<and> dl_list h' head' as'
      \<and> payload dn_data h' = payload dn_data h1 \<and> DL_COUNT2 h' head' = Some (length as')
      \<and> DL_SEARCH2 cmp h' head' v = Some (find (\<lambda>a. cmp (the (payload dn_data h1 a)) v = 0) as')
      \<and> DL_FOREACH_SAFE2 (remove_elem dn_data DL_DELETE2 P) (h', head') = Some (h'', head'')
      \<and> dl_list h'' head'' (filter (\<lambda>a. \<not> P (the (payload dn_data h1 a))) as'))
    \<and> (\<exists>h' head' h'' head''. run_elements CDL_macros ops2 (h2, head2) = Some (h', head') \<and> cdl_list h' head' bs'
      \<and> payload dn_data h' = payload dn_data h2 \<and> CDL_COUNT2 h' head' = Some (length bs')
      \<and> CDL_SEARCH2 cmp h' head' v = Some (find (\<lambda>b. cmp (the (payload dn_data h2 b)) v = 0) bs')
      \<and> CDL_FOREACH_SAFE2 (remove_elem dn_data CDL_DELETE2 P) (h', head') = Some (h'', head'')
      \<and> cdl_list h'' head'' (filter (\<lambda>a. \<not> P (the (payload dn_data h2 a))) bs'))"
proof -
  from dl_elements.run_elements_gives [OF assms(1,2)] obtain h' head' where d: "run_elements DL_macros ops1 (h1, head1) = Some (h', head')"
    "dl_list h' head' as'" "payload dn_data h' = payload dn_data h1" unfolding gives_def by (elim exE conjE)
  from cdl_elements.run_elements_gives [OF assms(3,4)] obtain k head'' where c: "run_elements CDL_macros ops2 (h2, head2) = Some (k, head'')"
    "cdl_list k head'' bs'" "payload dn_data k = payload dn_data h2" unfolding gives_def by (elim exE conjE)
  from DL_FOREACH_SAFE2_removes [OF d(2), of P, unfolded d(3)]
    CDL_FOREACH_SAFE2_removes [OF c(2), of P, unfolded c(3)]
    DL_SEARCH2_find(1) [OF d(2), of cmp v, unfolded d(3)] CDL_SEARCH2_find [OF c(2), of cmp v, unfolded c(3)]
    d DL_COUNT2_length [OF d(2)] c CDL_COUNT2_length [OF c(2)]
  show ?thesis by (elim exE conjE) (intro conjI exI)
qed

theorem doubly_linked_macros_implement_lists_witness:
  "(\<exists>h' head' h'' head''. run_elements DL_macros [Delete 1, Append_Elem 2 4, Prepend 1] (example_dl None, Some 1) = Some (h', head')
      \<and> dl_list h' head' [1, 2, 4, 3] \<and> DL_COUNT2 h' head' = Some 4
      \<and> DL_FOREACH_SAFE2 (remove_elem dn_data DL_DELETE2 (\<lambda>_. True)) (h', head') = Some (h'', head'') \<and> dl_list h'' head'' [])
   \<and> (\<exists>h' head' h'' head''. run_elements CDL_macros [Replace 1 4, Append 1] (example_dl (Some 1), Some 1) = Some (h', head')
      \<and> cdl_list h' head' [4, 2, 3, 1] \<and> CDL_COUNT2 h' head' = Some 4
      \<and> CDL_FOREACH_SAFE2 (remove_elem dn_data CDL_DELETE2 (\<lambda>_. True)) (h', head') = Some (h'', head'') \<and> cdl_list h'' head'' [])"
proof -
  have ops: "abs_elements (dom (example_dl None)) [Delete 1, Append_Elem 2 4, Prepend 1] [1, 2, 3] = Some [1, 2, 4, 3]"
    "abs_elements (dom (example_dl (Some 1))) [Replace 1 4, Append 1] [1, 2, 3] = Some [4, 2, 3, 1]"
    by (simp_all add: example_dl_def)
  have len: "length [1, 2, 4, 3 :: nat] = 4" "length [4, 2, 3, 1 :: nat] = 4"
    "filter (\<lambda>a :: nat. \<not> True) xs = []" for xs by simp_all
  show ?thesis
    using doubly_linked_macros_implement_lists [OF example_lists(2) ops(1) example_lists(3) ops(2), of "\<lambda>x y. x - y" 0 "\<lambda>_. True", unfolded len]
    by (elim conjE exE) (intro conjI exI)
qed

end
