(* ===== verification/Spec2Isabelle.thy ===== *)
theory Spec2Isabelle
  imports Sample_Client Client_Receive Client_Progress Append_Race Utlist_Sort
begin

text \<open>
  A verification development of the JSON-RPC library between HAL clients and a HAL server
  (\<^verbatim>\<open>rdkb-json-rpc\<close>). All paths below are relative to \<^verbatim>\<open>src/\<close>.

  \<^bold>\<open>The program.\<close> Vendor software links the server library (\<^verbatim>\<open>json_hal_server.c\<close>), registers
  a callback for each action it supports and publishes events. A management process links the
  client library (\<^verbatim>\<open>json_hal_client.c\<close>), sends requests and waits for their replies, and
  subscribes to events. The messages are JSON objects on a local TCP connection. Each library
  runs one socket thread (\<^verbatim>\<open>tcp_server.c\<close>, \<^verbatim>\<open>tcp_client.c\<close>) that calls back into it
  when a connection is made or lost and when data arrive; the client's thread also calls an
  idle function after every turn, which counts the timeouts of the requests. Both libraries
  share the conversion of parameters and the configuration loader (\<^verbatim>\<open>json_hal_common.c\<close>),
  the linked lists of \<^verbatim>\<open>json-rpc-common/utlist.h\<close> and, in a validating build, a wrapper
  around a schema validator (\<^verbatim>\<open>json-schema-validator-wrapper\<close>). The repository has an example
  of each side (\<^verbatim>\<open>samples\<close>): a server with four callbacks and a thread that publishes link
  events, a client that sends the request in a file, and one that subscribes to the link events.

  \<^bold>\<open>The method.\<close> Every function is a function of HOL from the state it reads to the state it
  leaves. A C execution that has no meaning (a NULL dereference, a write past an array, a
  double free, a signed overflow, an assertion of json-c) or that never returns is a value of
  the type \<open>fault\<close>; \<open>'a cres\<close> is a fault or a result, sequenced by \<open>ebind\<close> (theory \<open>Prelude\<close>).
  Integers are unbounded with the conversions to 32 and 64 bits and the overflow checks written
  out where the code converts or computes (\<open>C_Numbers\<close>); strings and fixed arrays are lists of
  characters with the bounds of the copying functions written out (\<open>C_Library\<close>). The build
  options (validating build, blocking events) are fields or arguments of the model.

  \<^bold>\<open>The theories.\<close>
  \<^item> \<open>Prelude\<close>, \<open>C_Library\<close>, \<open>C_Numbers\<close>: results, strings, numbers and their printing and
    reading.
  \<^item> \<open>Json_C\<close>, \<open>Json_Tokener\<close>: the interface of json-c as records of functions with the laws
    of its documentation (\<open>json_c_ok\<close>, \<open>tokener_progress\<close>), and instances that show that the
    laws can hold.
  \<^item> \<open>Rpc_Common\<close>: the names and sizes of \<^verbatim>\<open>json_rpc_common.h\<close>.
  \<^item> \<open>Utlist\<close>: the \<^verbatim>\<open>LL_\<close> macros on a heap of nodes. The locale \<open>mutable_list\<close> states what
    the libraries rely on, and its interpretation justifies that the other theories use lists.
  \<^item> \<open>List_Contract\<close>: what the macros at an element of a list promise, for the three kinds of
    lists of \<^verbatim>\<open>utlist.h\<close> alike (the locales \<open>element_list\<close> and \<open>ordered_list\<close>).
  \<^item> \<open>Utlist_Elements\<close>, \<open>Utlist_Double\<close>, \<open>Utlist_Circular\<close>: the \<^verbatim>\<open>LL_\<close>, \<^verbatim>\<open>DL_\<close> and
    \<^verbatim>\<open>CDL_\<close> macros, statement by statement, with their interpretations of the contract and
    the variants of the header for compilers without \<^verbatim>\<open>decltype\<close>.
  \<^item> \<open>Utlist_Iterate\<close>: the loops that allow the current element to be deleted (locale
    \<open>safe_iteration\<close>), and searching doubly linked lists.
  \<^item> \<open>Utlist_Sort\<close>: the merge sort of the three sort macros, proved once in the locale
    \<open>merge_sort\<close> against the stable sort of the library.
  \<^item> \<open>Hal_Common\<close>: \<^verbatim>\<open>json_hal_common.c\<close>, parameters in both directions and the loader.
  \<^item> \<open>Validator\<close>: the validator wrapper and its test driver.
  \<^item> \<open>Tcp_Send\<close>: the send routines of both socket files (locale \<open>message_sender\<close>).
  \<^item> \<open>Tcp_Sockets\<close>: the system calls as a parameter, and what a legal session is.
  \<^item> \<open>Tcp_Server\<close>: the socket thread of the server. The locale \<open>socket_application\<close> is the
    contract between the thread and its owner: the callbacks keep the owner's invariant, which
    may speak of the clients connected; the invariant of the thread is proved once inside it.
  \<^item> \<open>Tcp_Client\<close>: the socket thread of the client, a state machine with three stages, with
    the locale \<open>client_application\<close> in the same role.
  \<^item> \<open>Hal_Server\<close>, \<open>Server_Events\<close>, \<open>Server_Requests\<close>: \<^verbatim>\<open>json_hal_server.c\<close>. The first has
    the state and the messages, the second the registry (locale \<open>write_once_table\<close>), the
    subscriptions and publication, the third the receive callback, initialisation and
    termination, and the invariant of the server (locale \<open>request_invariant\<close>).
  \<^item> \<open>Hal_Client\<close>, \<open>Client_Requests\<close>: \<^verbatim>\<open>json_hal_client.c\<close>. The first has all operations, the
    second the request ids, the tracking data, replies and timeouts (locale
    \<open>receive_invariant\<close>). The tracking nodes live on an explicit heap, because the waiting
    thread and the socket thread share them.
  \<^item> \<open>Server_Thread\<close>, \<open>Client_Thread\<close>: the libraries on their socket threads. They interpret
    the contracts of the threads with the libraries' callbacks.
  \<^item> \<open>Client_Receive\<close>: several messages in one buffer.
  \<^item> \<open>Client_Locks\<close>, \<open>Client_Progress\<close>: the calls of the client library and its socket thread
    again, at the level of single lock operations. The record \<open>shared\<close> holds the tracking list with
    its lock and, for each call, the node with its lock and the place the call has reached in
    \<^verbatim>\<open>client_send_and_get_reply\<close>; \<open>caller_step\<close> and \<open>socket_step\<close> are the next statement of a call and of
    \<^verbatim>\<open>response_parse_cb\<close> or \<^verbatim>\<open>request_tracking_cb\<close>; an execution (\<open>run\<close>) is any interleaving of
    them. The first theory has the invariant and the faults, the second that calls end.
  \<^item> \<open>Append_Race\<close>: \<^verbatim>\<open>LL_APPEND\<close>, which the calls do without the lock of the list, access by
    access on the heap of \<open>Utlist\<close>, beside deletions and other appends.
  \<^item> \<open>Protocol\<close>: a client and a server together.
  \<^item> \<open>Sample_Server\<close>, \<open>Sample_Client\<close>: the example programs. The callbacks of the sample server
    are an instance of the vendor's callbacks, the globals of a sample are part of the outside
    world of its library, and the callbacks are shown to keep what \<open>Protocol\<close> and
    \<open>Server_Thread\<close> ask of a vendor.

  \<^bold>\<open>State.\<close> The records \<open>server\<close> and \<open>client\<close> hold the file-scope variables of the libraries;
  the messages handed to the sockets are recorded in order, so that theorems can speak of
  replies. The records \<open>server_thread\<close> and \<open>client_thread\<close> hold the variables of the threads and,
  as ghost fields, the callbacks made and the descriptors closed. The owner of a thread, the
  operating system and the other threads are one type parameter of these records, which every
  system call may change: this is where other threads run.

  \<^bold>\<open>What is shown.\<close>
  \<^item> Server: every request gets one reply and its object is released once; the data stay
    consistent in every reachable state, and the lock is held exactly behind a publication without a value that met a
    subscription; a buffer is handled as the sequence of its messages; publication
    reaches the subscribers in order; events go to connected clients only. This holds for the
    default and for the blocking build; what the latter adds is the wait behind the messages,
    whose end is treated separately.
  \<^item> Client: as long as library calls are indivisible and the ids of the requests in flight differ, no
    request is lost before termination: it is pending with ticks left, answered or timed out. Termination loses the
    pending ones, and a request under an id in use is lost (\<open>reused_id_loses_request\<close>). A reply
    wakes the request whose id it carries and no other; ids are distinct below one hundred
    million and collide from there on. In every interleaving of the lock operations of the calls with
    those of the socket thread, with the append as one step, and as long as no send fails and no wait ends without a signal, no lock
    is misused, no wake-up is lost and every call can return; what the append adds to this is
    shown in \<open>Append_Race\<close>.
  \<^item> Sockets: each ready descriptor is served once; sessions are reported in order; nothing
    leaks; sending returns.
  \<^item> Both together: a call returns with the reply to it; subscriptions and acknowledgements
    arrive as they were made (the notification type in the blocking build only); parameters
    survive packing and unpacking, except large unsigned longs; a configuration is loaded as it is written if it fits.
  \<^item> Samples: the sample server answers a request for parameters with data the client unpacks; the
    two link events published by the sample server are reported by the sample client (in the
    build without the blocking extension).
  \<^item> Errors: where the code departs from this (a lock kept after a NULL value, a double free, a
    buffer that hangs the client, a message sent half, a table of the sample server that is
    written past its end, a lock taken after its destruction, a request lost by an append without
    the lock of the list), the theorems say exactly when.

  \<^bold>\<open>Fuel.\<close> Loops whose end depends on the data carry fuel and fault with \<open>No_Return\<close> when it
  is used up. \<open>send_loop\<close> has one unit more than the message has bytes: a send that returns zero
  repeatedly is excluded by its documentation. \<open>message_loop\<close> has one unit more than the
  buffer has bytes and \<open>response_loop\<close> \<open>(n + 1) (n + 2)\<close> for \<open>n\<close> bytes, since the client may
  parse a piece again; with a tokener that makes progress this is enough, which is proved, and
  the hanging buffer is shown to use up every amount. For the socket threads the fuel is the
  number of turns of a loop that is meant to run as long as its owner wants; the theorems about
  them hold after every number of turns.

  \<^bold>\<open>Parameters.\<close> json-c and its tokener, the C++ validator, the system calls, the content of
  files and the callbacks of the vendor (other than the sample's) are not part of the repository.
  They are arguments;
  what is assumed of them are the named predicates \<open>json_c_ok\<close>, \<open>tokener_progress\<close>,
  \<open>strict_tokener\<close>, \<open>io_documented\<close>, \<open>fd_table\<close>, \<open>sends_ok\<close>, \<open>callbacks_echo\<close> and
  \<open>os_keeps\<close>, each with an instance in a witness.

  \<^bold>\<open>Not modelled.\<close> Interleavings inside a library call other than those of the request tracking
  of the client (there is one lock for the subscriptions of the server, whose use is part of its
  state, and one for the events of the client); a termination of a library in the middle of a call, beyond
  what it frees (between two calls it is part of the reachable states of both libraries); reordering of memory accesses by compiler and processor; failure of
  \<^verbatim>\<open>malloc\<close>; the
  logging macros and what the example programs print, apart from the events the event client
  reports and the verdict of the validator's test driver; the build files.
\<close>

end
